(* ===== verification/FairMQ_Prelude.thy ===== *)
theory FairMQ_Prelude
  imports Main "HOL-Library.Word"
begin

text \<open>
  Shared vocabulary of the development: how a call of the C++ sources can end
  (\<open>outcome\<close>), the checked accesses of the standard containers, the few string operations of
  the standard library and of \<open>boost::algorithm\<close> that the sources use, decimal rendering of
  numbers, and the width-carrying integer types. The lemmas here are the ones that several
  components need; they go into the collections \<open>outcome_simps\<close> and \<open>str_simps\<close> or are
  declared as simplification rules.
\<close>

named_theorems outcome_simps "unfolding how a call ends"
named_theorems str_simps "facts on the string operations of the sources"

section \<open>How a call ends\<close>

text \<open>
  A call of the sources returns a value, leaves by an exception, ends the process with
  \<open>exit(EXIT_FAILURE)\<close>, or has undefined behaviour, for example by dereferencing a null pointer.
  The exceptions are the ones the modelled sources throw themselves or receive from a checked
  container access.
\<close>

datatype cpp_exception =
    OutOfRange
  | IllegalTransition
  | DeviceControlError
  | InvalidStateError
  | PropertyNotFoundError
  | SocketError
  | ParserError
  | PTreeError
  | RuntimeError
  | BadAnyCast
  | BadSearchPath
  | PluginLoadError
  | PluginInstantiationError

datatype 'a outcome = Returns 'a | Throws cpp_exception | Exits | Undefined

fun and_then :: "'a outcome \<Rightarrow> ('a \<Rightarrow> 'b outcome) \<Rightarrow> 'b outcome" where
  "and_then (Returns a) f = f a"
| "and_then (Throws e) f = Throws e"
| "and_then Exits f = Exits"
| "and_then Undefined f = Undefined"

definition map_outcome_result :: "('a \<Rightarrow> 'b) \<Rightarrow> 'a outcome \<Rightarrow> 'b outcome" where
  "map_outcome_result f x = and_then x (\<lambda>a. Returns (f a))"

text \<open>
  A \<open>try\<close> block whose handler for \<open>std::exception\<close> calls \<open>exit(EXIT_FAILURE)\<close>, the shape of
  every accessor of \<open>FairMQChannel\<close> and of \<open>FairMQStateMachine::ChangeState\<close>.
\<close>

fun exit_on_exception :: "'a outcome \<Rightarrow> 'a outcome" where
  "exit_on_exception (Returns a) = Returns a"
| "exit_on_exception (Throws e) = Exits"
| "exit_on_exception Exits = Exits"
| "exit_on_exception Undefined = Undefined"

lemma and_then_Returns_iff [outcome_simps]:
  "and_then x f = Returns b \<longleftrightarrow> (\<exists>a. x = Returns a \<and> f a = Returns b)"
  by (cases x) auto

lemma Returns_and_then_iff [outcome_simps]:
  "Returns b = and_then x f \<longleftrightarrow> (\<exists>a. x = Returns a \<and> f a = Returns b)"
  by (cases x) auto

lemma and_then_Throws_iff [outcome_simps]:
  "and_then x f = Throws e \<longleftrightarrow> x = Throws e \<or> (\<exists>a. x = Returns a \<and> f a = Throws e)"
  by (cases x) auto

lemma and_then_Exits_iff [outcome_simps]:
  "and_then x f = Exits \<longleftrightarrow> x = Exits \<or> (\<exists>a. x = Returns a \<and> f a = Exits)"
  by (cases x) auto

lemma and_then_Undefined_iff [outcome_simps]:
  "and_then x f = Undefined \<longleftrightarrow> x = Undefined \<or> (\<exists>a. x = Returns a \<and> f a = Undefined)"
  by (cases x) auto

lemma exit_on_exception_never_throws [simp]: "exit_on_exception x \<noteq> Throws e"
  by (cases x) auto

lemma exit_on_exception_Returns_iff [outcome_simps]:
  "exit_on_exception x = Returns a \<longleftrightarrow> x = Returns a"
  by (cases x) auto

lemma exit_on_exception_Exits_iff [outcome_simps]:
  "exit_on_exception x = Exits \<longleftrightarrow> x = Exits \<or> (\<exists>e. x = Throws e)"
  by (cases x) auto

text \<open>A loop over a container whose body may throw.\<close>

fun fold_outcome :: "('a \<Rightarrow> 'b \<Rightarrow> 'b outcome) \<Rightarrow> 'a list \<Rightarrow> 'b \<Rightarrow> 'b outcome" where
  "fold_outcome f [] b = Returns b"
| "fold_outcome f (x # xs) b = and_then (f x b) (fold_outcome f xs)"

lemma fold_outcome_append:
  "fold_outcome f (xs @ ys) b = and_then (fold_outcome f xs b) (fold_outcome f ys)"
proof (induction xs arbitrary: b)
  case (Cons x xs)
  then show ?case by (cases "f x b") auto
qed simp

lemma fold_outcome_map: "fold_outcome f (map g xs) = fold_outcome (\<lambda>x. f (g x)) xs"
proof (induction xs)
  case (Cons x xs)
  show ?case by (rule ext) (simp add: Cons.IH)
qed (rule ext, simp)

lemma fold_outcome_Returns: "(\<And>x b. x \<in> set xs \<Longrightarrow> f x b = Returns (g x b)) \<Longrightarrow> fold_outcome f xs b = Returns (fold g xs b)"
  by (induction xs arbitrary: b) auto

lemma fold_outcome_invariant:
  assumes "fold_outcome f xs b = Returns b'" "I b"
    and "\<And>x c c'. x \<in> set xs \<Longrightarrow> I c \<Longrightarrow> f x c = Returns c' \<Longrightarrow> I c'"
  shows "I b'"
  using assms
proof (induction xs arbitrary: b)
  case (Cons x xs)
  then obtain c where "f x b = Returns c" "fold_outcome f xs c = Returns b'"
    by (cases "f x b") auto
  then show ?case using Cons by (metis list.set_intros(1) list.set_intros(2))
qed simp

text \<open>Inserting into an \<open>unordered_map\<close> keeps an element that is already there.\<close>

definition map_insert :: "'k \<Rightarrow> 'v \<Rightarrow> ('k \<times> 'v) list \<Rightarrow> ('k \<times> 'v) list" where
  "map_insert k v m = (if k \<in> fst ` set m then m else m @ [(k, v)])"

lemma map_of_map_insert:
  "map_of (map_insert k v m) k' = (if map_of m k' = None \<and> k' = k then Some v else map_of m k')"
  by (auto simp: map_insert_def map_of_eq_None_iff map_add_def split: option.splits)
    (metis map_of_eq_None_iff option.distinct(1))+

lemma distinct_map_insert: "distinct (map fst m) \<Longrightarrow> distinct (map fst (map_insert k v m))"
  by (auto simp: map_insert_def)

section \<open>Checked container access\<close>

text \<open>\<open>vector::at\<close> and \<open>map::at\<close> throw \<open>std::out_of_range\<close> where the element is missing.\<close>

definition vector_at :: "'a list \<Rightarrow> nat \<Rightarrow> 'a outcome" where
  "vector_at xs i = (if i < length xs then Returns (xs ! i) else Throws OutOfRange)"

definition map_at :: "('k \<rightharpoonup> 'v) \<Rightarrow> 'k \<Rightarrow> 'v outcome" where
  "map_at m k = (case m k of Some v \<Rightarrow> Returns v | None \<Rightarrow> Throws OutOfRange)"

lemma vector_at_Returns_iff [outcome_simps]:
  "vector_at xs i = Returns x \<longleftrightarrow> i < length xs \<and> xs ! i = x"
  by (auto simp: vector_at_def)

lemma vector_at_Throws_iff [outcome_simps]:
  "vector_at xs i = Throws e \<longleftrightarrow> e = OutOfRange \<and> length xs \<le> i"
  by (auto simp: vector_at_def)

lemma vector_at_not_Exits [simp]: "vector_at xs i \<noteq> Exits" "vector_at xs i \<noteq> Undefined"
  by (simp_all add: vector_at_def)

lemma map_at_Returns_iff [outcome_simps]: "map_at m k = Returns v \<longleftrightarrow> m k = Some v"
  by (auto simp: map_at_def split: option.splits)

lemma map_at_Throws_iff [outcome_simps]: "map_at m k = Throws e \<longleftrightarrow> e = OutOfRange \<and> m k = None"
  by (auto simp: map_at_def split: option.splits)

lemma map_at_not_Exits [simp]: "map_at m k \<noteq> Exits" "map_at m k \<noteq> Undefined"
  by (simp_all add: map_at_def split: option.splits)

text \<open>Constant tables of the sources are association lists; two of them inverse to each other.\<close>

definition inverse_tables :: "('a \<times> 'b) list \<Rightarrow> ('b \<times> 'a) list \<Rightarrow> bool" where
  "inverse_tables t u \<longleftrightarrow>
     (\<forall>(a, b) \<in> set t. map_of u b = Some a) \<and> (\<forall>(b, a) \<in> set u. map_of t a = Some b)"

lemma inverse_tables_iff:
  assumes "inverse_tables t u"
  shows "map_of t a = Some b \<longleftrightarrow> map_of u b = Some a"
proof
  assume "map_of t a = Some b"
  then have "(a, b) \<in> set t" by (rule map_of_SomeD)
  with assms show "map_of u b = Some a" by (auto simp: inverse_tables_def)
next
  assume "map_of u b = Some a"
  then have "(b, a) \<in> set u" by (rule map_of_SomeD)
  with assms show "map_of t a = Some b" by (auto simp: inverse_tables_def)
qed

section \<open>Strings\<close>

text \<open>
  \<open>boost::algorithm::split\<close> with \<open>is_any_of\<close> and without token compression: every separator
  ends a token, so that an empty input is one empty token. \<open>boost::algorithm::join\<close> is its
  counterpart.
\<close>

fun split_any :: "string \<Rightarrow> string \<Rightarrow> string list" where
  "split_any cs [] = [[]]"
| "split_any cs (c # s) =
     (if c \<in> set cs then [] # split_any cs s
      else (case split_any cs s of [] \<Rightarrow> [[c]] | t # ts \<Rightarrow> (c # t) # ts))"

fun join_str :: "string \<Rightarrow> string list \<Rightarrow> string" where
  "join_str sep [] = []"
| "join_str sep [t] = t"
| "join_str sep (t # u # ts) = t @ sep @ join_str sep (u # ts)"

lemma split_any_not_Nil [simp]: "split_any cs s \<noteq> []"
  by (induction s) (auto split: list.splits)

lemma join_str_Cons: "ts \<noteq> [] \<Longrightarrow> join_str sep (t # ts) = t @ sep @ join_str sep ts"
  by (cases ts) auto

lemma join_str_Cons_char: "join_str sep ((c # t) # ts) = c # join_str sep (t # ts)"
  by (cases ts) auto

lemma join_split_any [str_simps]: "join_str [c] (split_any [c] s) = s"
proof (induction s)
  case Nil
  then show ?case by simp
next
  case (Cons x s)
  then show ?case
    by (auto simp: join_str_Cons join_str_Cons_char split: list.splits)
qed

lemma split_any_no_sep [str_simps]: "set s \<inter> set cs = {} \<Longrightarrow> split_any cs s = [s]"
  by (induction s) auto

lemma split_any_append_sep:
  "c \<in> set cs \<Longrightarrow> set t \<inter> set cs = {} \<Longrightarrow> split_any cs (t @ c # s) = t # split_any cs s"
  by (induction t) auto

lemma split_any_join [str_simps]:
  "ts \<noteq> [] \<Longrightarrow> (\<And>t. t \<in> set ts \<Longrightarrow> c \<notin> set t) \<Longrightarrow> split_any [c] (join_str [c] ts) = ts"
proof (induction ts)
  case Nil
  then show ?case by simp
next
  case (Cons t ts)
  show ?case
  proof (cases ts)
    case Nil
    with Cons.prems show ?thesis by (simp add: split_any_no_sep)
  next
    case (Cons u us)
    have "split_any [c] (join_str [c] ts) = ts"
      using Cons Cons.IH Cons.prems by simp
    moreover have "c \<notin> set t" using Cons.prems by simp
    ultimately show ?thesis
      using Cons by (simp add: split_any_append_sep)
  qed
qed

text \<open>\<open>find\<close> and \<open>rfind\<close> of one character; \<open>None\<close> is \<open>npos\<close>.\<close>

fun str_find :: "char \<Rightarrow> string \<Rightarrow> nat option" where
  "str_find c [] = None"
| "str_find c (x # s) = (if x = c then Some 0 else map_option Suc (str_find c s))"

fun str_rfind :: "char \<Rightarrow> string \<Rightarrow> nat option" where
  "str_rfind c [] = None"
| "str_rfind c (x # s) =
     (case str_rfind c s of Some i \<Rightarrow> Some (Suc i) | None \<Rightarrow> if x = c then Some 0 else None)"

lemma str_find_None_iff [str_simps]: "str_find c s = None \<longleftrightarrow> c \<notin> set s"
  by (induction s) auto

lemma str_find_split [str_simps]: "c \<notin> set s \<Longrightarrow> str_find c (s @ c # t) = Some (length s)"
  by (induction s) auto

lemma str_find_Some_less: "str_find c s = Some i \<Longrightarrow> i < length s"
  by (induction s arbitrary: i) (auto split: if_splits)

lemma str_rfind_None_iff [str_simps]: "str_rfind c s = None \<longleftrightarrow> c \<notin> set s"
  by (induction s) (auto split: option.splits)

lemma str_rfind_split [str_simps]: "c \<notin> set t \<Longrightarrow> str_rfind c (s @ c # t) = Some (length s)"
proof (induction s)
  case Nil
  then have "str_rfind c t = None" by (simp add: str_rfind_None_iff)
  then show ?case by simp
next
  case (Cons x s)
  then show ?case by simp
qed

text \<open>
  \<open>substr(pos)\<close> and the one-argument \<open>erase(pos)\<close> throw \<open>std::out_of_range\<close> past the end of
  the string, in particular at \<open>npos\<close>; \<open>compare(0, n, lit) == 0\<close> compares the first \<open>n\<close>
  characters.
\<close>

definition substr_from :: "nat \<Rightarrow> string \<Rightarrow> string outcome" where
  "substr_from p s = (if p \<le> length s then Returns (drop p s) else Throws OutOfRange)"

definition erase_from :: "nat option \<Rightarrow> string \<Rightarrow> string outcome" where
  "erase_from p s =
     (case p of None \<Rightarrow> Throws OutOfRange
      | Some i \<Rightarrow> if i \<le> length s then Returns (take i s) else Throws OutOfRange)"

definition starts_with :: "nat \<Rightarrow> string \<Rightarrow> string \<Rightarrow> bool" where
  "starts_with n lit s \<longleftrightarrow> take n s = lit"

lemma starts_with_append [simp]: "length lit = n \<Longrightarrow> starts_with n lit (lit @ s)"
  by (simp add: starts_with_def)

lemma substr_from_append [simp]: "length t = n \<Longrightarrow> substr_from n (t @ s) = Returns s"
  by (simp add: substr_from_def)

lemma substr_from_not_Exits [simp]: "substr_from p s \<noteq> Exits"
  by (simp add: substr_from_def)

section \<open>Decimal numbers\<close>

definition digit_char :: "nat \<Rightarrow> char" where
  "digit_char d = char_of (48 + d)"

fun nat_to_string :: "nat \<Rightarrow> string" where
  "nat_to_string n =
     (if n < 10 then [digit_char n] else nat_to_string (n div 10) @ [digit_char (n mod 10)])"

declare nat_to_string.simps [simp del]

definition string_to_nat :: "string \<Rightarrow> nat" where
  "string_to_nat s = foldl (\<lambda>n c. 10 * n + (of_char c - 48)) 0 s"

lemma of_digit_char [simp]: "d < 10 \<Longrightarrow> of_char (digit_char d) = 48 + d"
  by (simp add: digit_char_def)

lemma string_to_nat_to_string [str_simps]: "string_to_nat (nat_to_string n) = n"
proof (induction n rule: nat_to_string.induct)
  case (1 n)
  show ?case
  proof (cases "n < 10")
    case True
    then show ?thesis by (simp add: nat_to_string.simps [of n] string_to_nat_def)
  next
    case False
    then have "string_to_nat (nat_to_string (n div 10)) = n div 10" by (rule "1.IH")
    with False show ?thesis
      by (simp add: nat_to_string.simps [of n] string_to_nat_def)
  qed
qed

lemma nat_to_string_inject [simp]: "nat_to_string m = nat_to_string n \<longleftrightarrow> m = n"
  by (metis string_to_nat_to_string)

lemma nat_to_string_digits: "c \<in> set (nat_to_string n) \<Longrightarrow> 48 \<le> (of_char c :: nat) \<and> (of_char c :: nat) < 58"
proof (induction n rule: nat_to_string.induct)
  case (1 n)
  then show ?case
    by (cases "n < 10") (auto simp: nat_to_string.simps [of n])
qed

lemma nat_to_string_no_bracket [simp]:
  "CHR ''['' \<notin> set (nat_to_string n)" "CHR '']'' \<notin> set (nat_to_string n)"
  "CHR ''.'' \<notin> set (nat_to_string n)" "CHR '':'' \<notin> set (nat_to_string n)"
  using nat_to_string_digits [of "CHR ''[''" n] nat_to_string_digits [of "CHR '']''" n]
    nat_to_string_digits [of "CHR ''.''" n] nat_to_string_digits [of "CHR '':''" n]
  by auto

lemma nat_to_string_not_Nil [simp]: "nat_to_string n \<noteq> []"
  by (simp add: nat_to_string.simps [of n])

section \<open>Machine integers\<close>

type_synonym uint64 = "64 word"
type_synonym int32 = "32 word"

end
