(* ===== verification/Device_State_Machine.thy ===== *)
theory Device_State_Machine
  imports FairMQ_Prelude
begin

text \<open>
  The device state machine of \<open>fairmq/FairMQStateMachine.{h,cxx}\<close>: its states and events with
  their numbers and names, the transition table, the transition actions, the public operations
  of \<open>FairMQStateMachine\<close>, and the bookkeeping between the thread that changes states and the
  worker thread that runs the state handlers (\<open>fWork\<close>, \<open>fWorkAvailable\<close>, \<open>fWorkActive\<close>).

  Two libraries below the sources are parameters. \<open>dispatch\<close> is the event dispatch of
  \<open>boost::msm\<close>: given the current states of the orthogonal regions it names the region whose
  row fires. \<open>fresh\<close> chooses the handle of a new \<open>boost::signals2\<close> connection. What the sources
  rely on is stated by the locale \<open>msm_backend\<close> and by the freshness hypotheses of the lemmas.

  A transition action that waits for the worker (\<open>while (fWorkActive) wait\<close>) is cut at the
  wait: \<open>action_begin\<close> is the part before it and \<open>action_end\<close> the part after it. The
  interleaving of the threads is the subject of the theory \<open>Device_Worker\<close>.
\<close>

section \<open>States and events\<close>

datatype Event =
    INIT_DEVICE
  | internal_DEVICE_READY
  | INIT_TASK
  | internal_READY
  | RUN
  | PAUSE
  | STOP
  | RESET_TASK
  | RESET_DEVICE
  | internal_IDLE
  | END
  | ERROR_FOUND

datatype State =
    OK
  | Error
  | IDLE
  | INITIALIZING_DEVICE
  | DEVICE_READY
  | INITIALIZING_TASK
  | READY
  | RUNNING
  | PAUSED
  | RESETTING_TASK
  | RESETTING_DEVICE
  | EXITING

text \<open>The values of the two enumerations, in the order of their declaration.\<close>

definition all_events :: "Event list" where
  "all_events =
     [INIT_DEVICE, internal_DEVICE_READY, INIT_TASK, internal_READY, RUN, PAUSE, STOP,
      RESET_TASK, RESET_DEVICE, internal_IDLE, END, ERROR_FOUND]"

definition all_states :: "State list" where
  "all_states =
     [OK, Error, IDLE, INITIALIZING_DEVICE, DEVICE_READY, INITIALIZING_TASK, READY, RUNNING,
      PAUSED, RESETTING_TASK, RESETTING_DEVICE, EXITING]"

fun event_number :: "Event \<Rightarrow> int" where
  "event_number INIT_DEVICE = 0"
| "event_number internal_DEVICE_READY = 1"
| "event_number INIT_TASK = 2"
| "event_number internal_READY = 3"
| "event_number RUN = 4"
| "event_number PAUSE = 5"
| "event_number STOP = 6"
| "event_number RESET_TASK = 7"
| "event_number RESET_DEVICE = 8"
| "event_number internal_IDLE = 9"
| "event_number END = 10"
| "event_number ERROR_FOUND = 11"

fun state_number :: "State \<Rightarrow> nat" where
  "state_number OK = 0"
| "state_number Error = 1"
| "state_number IDLE = 2"
| "state_number INITIALIZING_DEVICE = 3"
| "state_number DEVICE_READY = 4"
| "state_number INITIALIZING_TASK = 5"
| "state_number READY = 6"
| "state_number RUNNING = 7"
| "state_number PAUSED = 8"
| "state_number RESETTING_TASK = 9"
| "state_number RESETTING_DEVICE = 10"
| "state_number EXITING = 11"

definition event_of_number :: "int \<Rightarrow> Event option" where
  "event_of_number n = List.find (\<lambda>e. event_number e = n) all_events"

definition stateNames :: "string list" where
  "stateNames =
    [''OK'',
     ''Error'',
     ''IDLE'',
     ''INITIALIZING_DEVICE'',
     ''DEVICE_READY'',
     ''INITIALIZING_TASK'',
     ''READY'',
     ''RUNNING'',
     ''PAUSED'',
     ''RESETTING_TASK'',
     ''RESETTING_DEVICE'',
     ''EXITING'']"

definition eventNumbers :: "(string \<times> int) list" where
  "eventNumbers =
    [(''INIT_DEVICE'', event_number INIT_DEVICE),
     (''internal_DEVICE_READY'', event_number internal_DEVICE_READY),
     (''INIT_TASK'', event_number INIT_TASK),
     (''internal_READY'', event_number internal_READY),
     (''RUN'', event_number RUN),
     (''PAUSE'', event_number PAUSE),
     (''STOP'', event_number STOP),
     (''RESET_TASK'', event_number RESET_TASK),
     (''RESET_DEVICE'', event_number RESET_DEVICE),
     (''internal_IDLE'', event_number internal_IDLE),
     (''END'', event_number END),
     (''ERROR_FOUND'', event_number ERROR_FOUND)]"

definition eventNames :: "string list" where
  "eventNames =
    [''INIT_DEVICE'',
     ''internal_DEVICE_READY'',
     ''INIT_TASK'',
     ''internal_READY'',
     ''RUN'',
     ''PAUSE'',
     ''STOP'',
     ''RESET_TASK'',
     ''RESET_DEVICE'',
     ''internal_IDLE'',
     ''END'',
     ''ERROR_FOUND'']"

definition stateNumbers :: "(string \<times> nat) list" where
  "stateNumbers =
    [(''OK'', state_number OK),
     (''Error'', state_number Error),
     (''IDLE'', state_number IDLE),
     (''INITIALIZING_DEVICE'', state_number INITIALIZING_DEVICE),
     (''DEVICE_READY'', state_number DEVICE_READY),
     (''INITIALIZING_TASK'', state_number INITIALIZING_TASK),
     (''READY'', state_number READY),
     (''RUNNING'', state_number RUNNING),
     (''PAUSED'', state_number PAUSED),
     (''RESETTING_TASK'', state_number RESETTING_TASK),
     (''RESETTING_DEVICE'', state_number RESETTING_DEVICE),
     (''EXITING'', state_number EXITING)]"

text \<open>The static \<open>Name()\<close> functions of the structures that stand for the states and events.\<close>

fun fsm_state_Name :: "State \<Rightarrow> string" where
  "fsm_state_Name OK = ''OK''"
| "fsm_state_Name Error = ''ERROR''"
| "fsm_state_Name IDLE = ''IDLE''"
| "fsm_state_Name INITIALIZING_DEVICE = ''INITIALIZING_DEVICE''"
| "fsm_state_Name DEVICE_READY = ''DEVICE_READY''"
| "fsm_state_Name INITIALIZING_TASK = ''INITIALIZING_TASK''"
| "fsm_state_Name READY = ''READY''"
| "fsm_state_Name RUNNING = ''RUNNING''"
| "fsm_state_Name PAUSED = ''PAUSED''"
| "fsm_state_Name RESETTING_TASK = ''RESETTING_TASK''"
| "fsm_state_Name RESETTING_DEVICE = ''RESETTING_DEVICE''"
| "fsm_state_Name EXITING = ''EXITING''"

fun fsm_event_Name :: "Event \<Rightarrow> string" where
  "fsm_event_Name INIT_DEVICE = ''INIT_DEVICE''"
| "fsm_event_Name internal_DEVICE_READY = ''internal_DEVICE_READY''"
| "fsm_event_Name INIT_TASK = ''INIT_TASK''"
| "fsm_event_Name internal_READY = ''internal_READY''"
| "fsm_event_Name RUN = ''RUN''"
| "fsm_event_Name PAUSE = ''PAUSE''"
| "fsm_event_Name STOP = ''STOP''"
| "fsm_event_Name RESET_TASK = ''RESET_TASK''"
| "fsm_event_Name RESET_DEVICE = ''RESET_DEVICE''"
| "fsm_event_Name internal_IDLE = ''internal_IDLE''"
| "fsm_event_Name END = ''END''"
| "fsm_event_Name ERROR_FOUND = ''ERROR_FOUND''"

definition GetStateName :: "State \<Rightarrow> string outcome" where
  "GetStateName s = vector_at stateNames (state_number s)"

definition GetEventNumber :: "string \<Rightarrow> int outcome" where
  "GetEventNumber e = map_at (map_of eventNumbers) e"

section \<open>The transition table\<close>

text \<open>
  The handlers a device installs (\<open>InitWrapper\<close> and its kin) and the transition actions. The
  action \<open>PauseFct\<close> of the source is a template that no row of the table instantiates; it also
  names a member \<open>fPauseWrapperHandler\<close> that \<open>Machine_\<close> does not declare.
\<close>

datatype handler =
    InitWrapper
  | InitTaskWrapper
  | RunWrapper
  | PauseWrapper
  | ResetTaskWrapper
  | ResetWrapper
  | Exit

datatype Action =
    AutomaticFct
  | DefaultFct
  | StopFct
  | InternalStopFct
  | ExitingFct
  | ErrorFoundFct

definition transition_table :: "((State \<times> Event) \<times> (State \<times> Action)) list" where
  "transition_table =
    [((IDLE, INIT_DEVICE), (INITIALIZING_DEVICE, DefaultFct)),
     ((IDLE, END), (EXITING, ExitingFct)),
     ((INITIALIZING_DEVICE, internal_DEVICE_READY), (DEVICE_READY, AutomaticFct)),
     ((DEVICE_READY, INIT_TASK), (INITIALIZING_TASK, DefaultFct)),
     ((DEVICE_READY, RESET_DEVICE), (RESETTING_DEVICE, DefaultFct)),
     ((INITIALIZING_TASK, internal_READY), (READY, AutomaticFct)),
     ((READY, RUN), (RUNNING, DefaultFct)),
     ((READY, RESET_TASK), (RESETTING_TASK, DefaultFct)),
     ((RUNNING, PAUSE), (PAUSED, DefaultFct)),
     ((RUNNING, STOP), (READY, StopFct)),
     ((RUNNING, internal_READY), (READY, InternalStopFct)),
     ((PAUSED, RUN), (RUNNING, DefaultFct)),
     ((RESETTING_TASK, internal_DEVICE_READY), (DEVICE_READY, AutomaticFct)),
     ((RESETTING_DEVICE, internal_IDLE), (IDLE, AutomaticFct)),
     ((OK, ERROR_FOUND), (Error, ErrorFoundFct))]"

definition row :: "State \<Rightarrow> Event \<Rightarrow> (State \<times> Action) option" where
  "row s e = map_of transition_table (s, e)"

text \<open>\<open>ERROR_FSM_STATE\<close> is the machine's only \<open>terminate_state\<close>.\<close>

definition terminate_state :: "State \<Rightarrow> bool" where
  "terminate_state s \<longleftrightarrow> s = Error"

definition initial_state :: "State list" where
  "initial_state = [IDLE, OK]"

section \<open>The machine\<close>

record Machine =
  regions :: "State list"
  fState :: State
  fStateHandlers :: "Event \<rightharpoonup> handler"
  fWork :: "handler option"
  fWorkerTerminated :: bool
  fWorkActive :: bool
  fWorkAvailable :: bool
  fStateChangeSignal :: "nat list"
  fStateChangeSignalsMap :: "string \<rightharpoonup> nat"
  fUnblocked :: bool
  called :: "handler list"
  signalled :: "(nat \<times> State) list"

text \<open>
  \<open>fStateChangeSignal\<close> holds the connected slots in the order of their connection.
  \<open>fUnblocked\<close> records the call of \<open>fUnblockHandler\<close>, \<open>called\<close> the handlers that an action runs
  itself and \<open>signalled\<close> the notifications given, with the slot that received them.
\<close>

definition CallStateChangeCallbacks :: "State \<Rightarrow> Machine \<Rightarrow> Machine" where
  "CallStateChangeCallbacks s m =
     (if fStateChangeSignal m \<noteq> []
      then m\<lparr>signalled := signalled m @ map (\<lambda>c. (c, s)) (fStateChangeSignal m)\<rparr>
      else m)"

definition installed_handlers :: "Event \<rightharpoonup> handler" where
  "installed_handlers = Map.empty(
     INIT_DEVICE \<mapsto> InitWrapper,
     INIT_TASK \<mapsto> InitTaskWrapper,
     RUN \<mapsto> RunWrapper,
     PAUSE \<mapsto> PauseWrapper,
     RESET_TASK \<mapsto> ResetTaskWrapper,
     RESET_DEVICE \<mapsto> ResetWrapper,
     END \<mapsto> Exit)"

text \<open>The constructor of \<open>FairMQStateMachine\<close>: install the handlers and start the machine.\<close>

definition FairMQStateMachine :: Machine where
  "FairMQStateMachine =
     CallStateChangeCallbacks IDLE
       \<lparr>regions = initial_state,
        fState = IDLE,
        fStateHandlers = installed_handlers,
        fWork = None,
        fWorkerTerminated = False,
        fWorkActive = False,
        fWorkAvailable = False,
        fStateChangeSignal = [],
        fStateChangeSignalsMap = Map.empty,
        fUnblocked = False,
        called = [],
        signalled = []\<rparr>"

section \<open>Transition actions\<close>

fun waits_for_worker :: "Action \<Rightarrow> bool" where
  "waits_for_worker DefaultFct = True"
| "waits_for_worker StopFct = True"
| "waits_for_worker AutomaticFct = False"
| "waits_for_worker InternalStopFct = False"
| "waits_for_worker ExitingFct = False"
| "waits_for_worker ErrorFoundFct = False"

fun action_begin :: "Action \<Rightarrow> State \<Rightarrow> Machine \<Rightarrow> Machine" where
  "action_begin AutomaticFct ts m = m\<lparr>fState := ts\<rparr>"
| "action_begin DefaultFct ts m = m\<lparr>fState := ts\<rparr>"
| "action_begin StopFct ts m = m\<lparr>fState := ts, fUnblocked := True\<rparr>"
| "action_begin InternalStopFct ts m = m\<lparr>fState := ts, fUnblocked := True\<rparr>"
| "action_begin ExitingFct ts m =
     (CallStateChangeCallbacks EXITING (m\<lparr>fState := ts\<rparr>))\<lparr>fWorkerTerminated := True\<rparr>"
| "action_begin ErrorFoundFct ts m = CallStateChangeCallbacks Error (m\<lparr>fState := ts\<rparr>)"

fun action_end :: "Action \<Rightarrow> Event \<Rightarrow> Machine \<Rightarrow> Machine outcome" where
  "action_end DefaultFct e m =
     and_then (map_at (fStateHandlers m) e)
       (\<lambda>h. Returns (m\<lparr>fWorkAvailable := True, fWork := Some h\<rparr>))"
| "action_end ExitingFct e m =
     and_then (map_at (fStateHandlers m) e) (\<lambda>h. Returns (m\<lparr>called := called m @ [h]\<rparr>))"
| "action_end AutomaticFct e m = Returns m"
| "action_end StopFct e m = Returns m"
| "action_end InternalStopFct e m = Returns m"
| "action_end ErrorFoundFct e m = Returns m"

section \<open>Processing an event\<close>

text \<open>
  The message \<open>no_transition\<close> logs when no row fires in a region, from the demangled C++ name of
  the region's state, \<open>None\<close> when it logs nothing. The name loses its namespaces and the ten
  characters of \<open>_FSM_STATE\<close>; \<open>substr\<close> of a shorter name takes all of it, the unsigned
  difference wrapping around.
\<close>

definition no_transition :: "Event \<Rightarrow> string \<Rightarrow> string option" where
  "no_transition e demangled =
     (let stateName =
        (case str_rfind CHR '':'' demangled of
           None \<Rightarrow> demangled
         | Some pos \<Rightarrow>
             (let name = drop (pos + 1) demangled in
              take (if length name < 10 then length name else length name - 10) name))
      in if stateName \<noteq> ''OK''
         then Some (''No transition from state '' @ stateName @ '' on event '' @ fsm_event_Name e)
         else None)"

text \<open>
  A call either completes or waits for the worker in the middle of a transition of region \<open>i\<close>
  from its action \<open>a\<close> to state \<open>t\<close>.
\<close>

datatype progress = Completed Machine | WaitsForWorker Machine Event nat State Action

definition finish_transition ::
    "Machine \<Rightarrow> Event \<Rightarrow> nat \<Rightarrow> State \<Rightarrow> Action \<Rightarrow> Machine outcome" where
  "finish_transition m e i t a =
     and_then (action_end a e m) (\<lambda>m'. Returns (m'\<lparr>regions := (regions m')[i := t]\<rparr>))"

definition process_event ::
    "(State list \<Rightarrow> Event \<Rightarrow> nat option) \<Rightarrow> Event \<Rightarrow> Machine \<Rightarrow> progress outcome" where
  "process_event dispatch e m =
     (case dispatch (regions m) e of
        None \<Rightarrow> Returns (Completed m)
      | Some i \<Rightarrow>
          (case row (regions m ! i) e of
             None \<Rightarrow> Returns (Completed m)
           | Some (t, a) \<Rightarrow>
               (let m' = action_begin a t m in
                if waits_for_worker a \<and> fWorkActive m' then Returns (WaitsForWorker m' e i t a)
                else map_outcome_result Completed (finish_transition m' e i t a))))"

definition ChangeState ::
    "(State list \<Rightarrow> Event \<Rightarrow> nat option) \<Rightarrow> int \<Rightarrow> Machine \<Rightarrow> (bool \<times> progress) outcome" where
  "ChangeState dispatch n m =
     exit_on_exception
       (case event_of_number n of
          Some e \<Rightarrow> and_then (process_event dispatch e m) (\<lambda>p. Returns (True, p))
        | None \<Rightarrow> Returns (False, Completed m))"

definition ChangeState_str ::
    "(State list \<Rightarrow> Event \<Rightarrow> nat option) \<Rightarrow> string \<Rightarrow> Machine \<Rightarrow> (bool \<times> progress) outcome" where
  "ChangeState_str dispatch s m = and_then (GetEventNumber s) (\<lambda>n. ChangeState dispatch n m)"

definition GetCurrentState :: "Machine \<Rightarrow> State" where
  "GetCurrentState m = fState m"

definition GetCurrentStateName :: "Machine \<Rightarrow> string outcome" where
  "GetCurrentStateName m = GetStateName (fState m)"

definition CheckCurrentState :: "State \<Rightarrow> Machine \<Rightarrow> bool" where
  "CheckCurrentState s m \<longleftrightarrow> s = fState m"

definition CheckCurrentState_str :: "string \<Rightarrow> Machine \<Rightarrow> bool outcome" where
  "CheckCurrentState_str s m = map_outcome_result (\<lambda>n. s = n) (GetCurrentStateName m)"

section \<open>Waiting for the end of a state\<close>

text \<open>
  Both waiting operations poll the pair (\<open>fWorkActive\<close>, \<open>fWorkAvailable\<close>) under \<open>fWorkMutex\<close>.
  The successive observations are given as a list; \<open>None\<close> is a call that is still waiting when
  the observations end. An event the operations do not accept makes them return at once.
\<close>

definition waitable :: "Event option \<Rightarrow> bool" where
  "waitable e \<longleftrightarrow>
     e \<in> {Some INIT_DEVICE, Some INIT_TASK, Some RUN, Some RESET_TASK, Some RESET_DEVICE}"

fun WaitForEndOfState :: "int \<Rightarrow> (bool \<times> bool) list \<Rightarrow> unit option" where
  "WaitForEndOfState n [] = (if waitable (event_of_number n) then None else Some ())"
| "WaitForEndOfState n ((active, available) # obs) =
     (if \<not> waitable (event_of_number n) then Some ()
      else if active \<or> available then WaitForEndOfState n obs
      else Some ())"

fun wait_ms_loop :: "(bool \<times> bool) \<Rightarrow> (bool \<times> bool) list \<Rightarrow> bool option" where
  "wait_ms_loop (active, available) [] = (if active \<or> available then None else Some True)"
| "wait_ms_loop (active, available) ((active', available') # obs) =
     (if active \<or> available
      then (if active' then Some False else wait_ms_loop (active', available') obs)
      else Some True)"

definition WaitForEndOfState_str :: "string \<Rightarrow> (bool \<times> bool) list \<Rightarrow> unit option outcome" where
  "WaitForEndOfState_str s obs =
     map_outcome_result (\<lambda>n. WaitForEndOfState n obs) (GetEventNumber s)"

definition WaitForEndOfStateForMs :: "int \<Rightarrow> (bool \<times> bool) \<Rightarrow> (bool \<times> bool) list \<Rightarrow> bool option" where
  "WaitForEndOfStateForMs n first obs =
     (if waitable (event_of_number n) then wait_ms_loop first obs else Some False)"

definition WaitForEndOfStateForMs_str ::
    "string \<Rightarrow> (bool \<times> bool) \<Rightarrow> (bool \<times> bool) list \<Rightarrow> bool option outcome" where
  "WaitForEndOfStateForMs_str s first obs =
     map_outcome_result (\<lambda>n. WaitForEndOfStateForMs n first obs) (GetEventNumber s)"

section \<open>Subscriptions\<close>

definition SubscribeToStateChange :: "(nat list \<Rightarrow> nat) \<Rightarrow> string \<Rightarrow> Machine \<Rightarrow> Machine" where
  "SubscribeToStateChange fresh key m =
     (let c = fresh (fStateChangeSignal m) in
      m\<lparr>fStateChangeSignal := fStateChangeSignal m @ [c],
        fStateChangeSignalsMap :=
          (case fStateChangeSignalsMap m key of
             None \<Rightarrow> (fStateChangeSignalsMap m)(key \<mapsto> c)
           | Some _ \<Rightarrow> fStateChangeSignalsMap m)\<rparr>)"

definition UnsubscribeFromStateChange :: "string \<Rightarrow> Machine \<Rightarrow> Machine" where
  "UnsubscribeFromStateChange key m =
     (case fStateChangeSignalsMap m key of
        None \<Rightarrow> m
      | Some c \<Rightarrow>
          m\<lparr>fStateChangeSignal := filter (\<lambda>d. d \<noteq> c) (fStateChangeSignal m),
            fStateChangeSignalsMap := (fStateChangeSignalsMap m)(key := None)\<rparr>)"

section \<open>The worker's part\<close>

text \<open>
  The body of \<open>Machine_::ProcessWork\<close>: leave when the machine terminates, take available work,
  report the end of the work. Taking the work yields \<open>fWork\<close>, \<open>None\<close> being the empty function,
  whose call throws. \<open>work_failed\<close> is the first part of the exception handler of
  \<open>FairMQStateMachine::ProcessWork\<close>, which goes on to request \<open>ERROR_FOUND\<close>.
\<close>

definition worker_leaves :: "Machine \<Rightarrow> bool" where
  "worker_leaves m \<longleftrightarrow> fWorkerTerminated m"

definition worker_takes :: "Machine \<Rightarrow> (handler option \<times> Machine) option" where
  "worker_takes m =
     (if \<not> fWorkAvailable m \<and> \<not> fWorkerTerminated m then None
      else if fWorkerTerminated m then None
      else Some (fWork m, m\<lparr>fWorkActive := True\<rparr>))"

definition work_done :: "Machine \<Rightarrow> Machine" where
  "work_done m = m\<lparr>fWorkActive := False, fWorkAvailable := False\<rparr>"

definition work_failed :: "Machine \<Rightarrow> Machine" where
  "work_failed m = m\<lparr>fWorkActive := False, fWorkAvailable := False\<rparr>"

section \<open>The dispatch of the state machine library\<close>

text \<open>
  What the sources rely on from \<open>boost::msm\<close>: a machine with an active terminate state ignores
  every event; otherwise an event for which exactly one region has a row fires in that region,
  and an event without a row fires nowhere.
\<close>

locale msm_backend =
  fixes dispatch :: "State list \<Rightarrow> Event \<Rightarrow> nat option"
  assumes terminated: "s \<in> set rs \<Longrightarrow> terminate_state s \<Longrightarrow> dispatch rs e = None"
    and fires:
      "\<lbrakk>\<And>s. s \<in> set rs \<Longrightarrow> \<not> terminate_state s; i < length rs; row (rs ! i) e \<noteq> None;
        \<And>j. j < length rs \<Longrightarrow> j \<noteq> i \<Longrightarrow> row (rs ! j) e = None\<rbrakk> \<Longrightarrow> dispatch rs e = Some i"
    and ignores: "(\<And>s. s \<in> set rs \<Longrightarrow> row s e = None) \<Longrightarrow> dispatch rs e = None"

text \<open>The smallest dispatch with these laws: the first region that has a row.\<close>

fun first_region :: "nat \<Rightarrow> State list \<Rightarrow> Event \<Rightarrow> nat option" where
  "first_region i [] e = None"
| "first_region i (s # rs) e = (if row s e \<noteq> None then Some i else first_region (Suc i) rs e)"

definition run_to_completion :: "State list \<Rightarrow> Event \<Rightarrow> nat option" where
  "run_to_completion rs e =
     (if list_ex terminate_state rs then None else first_region 0 rs e)"

lemma first_region_None: "(\<And>s. s \<in> set rs \<Longrightarrow> row s e = None) \<Longrightarrow> first_region k rs e = None"
  by (induction rs arbitrary: k) auto

lemma first_region_unique:
  "\<lbrakk>i < length rs; row (rs ! i) e \<noteq> None;
    \<And>j. j < length rs \<Longrightarrow> j \<noteq> i \<Longrightarrow> row (rs ! j) e = None\<rbrakk> \<Longrightarrow> first_region k rs e = Some (k + i)"
proof (induction rs arbitrary: i k)
  case (Cons s rs)
  show ?case
  proof (cases i)
    case 0
    with Cons.prems show ?thesis by simp
  next
    case (Suc i')
    have "row s e = None" using Cons.prems(3) [of 0] Suc by simp
    moreover have "first_region (Suc k) rs e = Some (Suc k + i')"
    proof (rule Cons.IH)
      show "row (rs ! j) e = None" if "j < length rs" "j \<noteq> i'" for j
        using Cons.prems(3) [of "Suc j"] that Suc by simp
    qed (use Cons.prems Suc in auto)
    ultimately show ?thesis using Suc by simp
  qed
qed simp

interpretation rtc: msm_backend run_to_completion
proof (standard, goal_cases)
  case (1 s rs e)
  then show ?case by (auto simp: run_to_completion_def list_ex_iff)
next
  case (2 rs i e)
  then show ?case using first_region_unique [of i rs e 0] by (auto simp: run_to_completion_def list_ex_iff)
next
  case (3 rs e)
  then show ?case by (auto simp: run_to_completion_def first_region_None)
qed

section \<open>Numbers and names\<close>

lemma mem_all_events [simp]: "e \<in> set all_events"
  by (cases e) (simp_all add: all_events_def)

lemma mem_all_states [simp]: "s \<in> set all_states"
  by (cases s) (simp_all add: all_states_def)

lemma event_number_inject [simp]: "event_number e = event_number e' \<longleftrightarrow> e = e'"
  by (cases e; cases e') simp_all

lemma event_number_bounds: "0 \<le> event_number e \<and> event_number e \<le> 11"
  by (cases e) simp_all

lemma event_of_number_Some_iff [simp]: "event_of_number n = Some e \<longleftrightarrow> event_number e = n"
proof
  assume "event_of_number n = Some e"
  then show "event_number e = n" by (auto simp: event_of_number_def find_Some_iff)
next
  assume "event_number e = n"
  then have "event_of_number n \<noteq> None" by (auto simp: event_of_number_def find_None_iff)
  then obtain e' where e': "event_of_number n = Some e'" by auto
  then have "event_number e' = n" by (auto simp: event_of_number_def find_Some_iff)
  with \<open>event_number e = n\<close> e' show "event_of_number n = Some e" by auto
qed

lemma event_of_event_number [simp]: "event_of_number (event_number e) = Some e"
  by simp

lemma number_is_event: "0 \<le> n \<Longrightarrow> n \<le> 11 \<Longrightarrow> \<exists>e. event_number e = n"
proof -
  assume "0 \<le> n" "n \<le> (11::int)"
  then have "n \<in> {0..11}" by simp
  also have "{0..11} = set (map event_number all_events)"
    by (auto simp: all_events_def) presburger
  finally show ?thesis by auto
qed

lemma event_of_number_None_iff: "event_of_number n = None \<longleftrightarrow> n < 0 \<or> 11 < n"
proof
  assume "event_of_number n = None"
  then show "n < 0 \<or> 11 < n" using number_is_event [of n] by (metis event_of_number_Some_iff linorder_not_le option.distinct(1))
next
  assume "n < 0 \<or> 11 < n"
  then have "event_number e \<noteq> n" for e using event_number_bounds [of e] by auto
  then show "event_of_number n = None" by (metis event_of_number_Some_iff not_Some_eq)
qed

lemma GetEventNumber_Returns_iff:
  "GetEventNumber s = Returns n \<longleftrightarrow> (\<exists>e. s = fsm_event_Name e \<and> n = event_number e)" (is "?l \<longleftrightarrow> ?r")
proof
  assume ?l
  then have "(s, n) \<in> set eventNumbers"
    by (auto simp: GetEventNumber_def outcome_simps dest: map_of_SomeD)
  then show ?r by (auto simp: eventNumbers_def intro: fsm_event_Name.simps [symmetric])
next
  assume ?r
  then obtain e where "s = fsm_event_Name e" "n = event_number e" by auto
  then show ?l by (cases e) (simp_all add: GetEventNumber_def outcome_simps eventNumbers_def)
qed

lemma GetEventNumber_Throws_iff:
  "GetEventNumber s = Throws x \<longleftrightarrow> x = OutOfRange \<and> s \<notin> range fsm_event_Name"
proof -
  have "(\<exists>n. GetEventNumber s = Returns n) \<longleftrightarrow> s \<in> range fsm_event_Name"
    by (auto simp: GetEventNumber_Returns_iff)
  then show ?thesis
    by (auto simp: GetEventNumber_def map_at_def split: option.splits)
qed

lemma GetEventNumber_not_Exits [simp]: "GetEventNumber s \<noteq> Exits"
  by (simp add: GetEventNumber_def)

lemma GetEventNumber_Name [simp]: "GetEventNumber (fsm_event_Name e) = Returns (event_number e)"
  by (auto simp: GetEventNumber_Returns_iff)

lemma eventNames_range: "set eventNames = range fsm_event_Name"
proof -
  have "eventNames = map fsm_event_Name all_events" by (simp add: eventNames_def all_events_def)
  then have "set eventNames = fsm_event_Name ` set all_events" by (metis list.set_map)
  also have "set all_events = UNIV" by auto
  finally show ?thesis .
qed

lemma GetStateName_total: "\<exists>n. GetStateName s = Returns n"
  by (cases s) (simp_all add: GetStateName_def vector_at_def stateNames_def)

lemma GetStateName_inject [simp]: "GetStateName s = GetStateName t \<longleftrightarrow> s = t"
  by (cases s; cases t) (simp_all add: GetStateName_def vector_at_def stateNames_def)

section \<open>The transition table as a relation\<close>

text \<open>The first region moves among the device states, the second one only from \<open>OK\<close> to \<open>Error\<close>.\<close>

definition device_state :: "State \<Rightarrow> bool" where
  "device_state s \<longleftrightarrow> s \<noteq> OK \<and> s \<noteq> Error"

lemma row_SomeD: "row s e = Some (t, a) \<Longrightarrow> ((s, e), (t, a)) \<in> set transition_table"
  by (simp add: row_def map_of_SomeD)

lemma row_device: "device_state s \<Longrightarrow> row s e = Some (t, a) \<Longrightarrow> device_state t \<and> a \<noteq> ErrorFoundFct"
  by (drule row_SomeD) (auto simp: transition_table_def device_state_def)

lemma row_device_ERROR_FOUND [simp]: "device_state s \<Longrightarrow> row s ERROR_FOUND = None"
  by (cases s) (simp_all add: row_def transition_table_def device_state_def)

lemma row_OK: "row OK e = (if e = ERROR_FOUND then Some (Error, ErrorFoundFct) else None)"
  by (cases e) (simp_all add: row_def transition_table_def)

lemma row_Error [simp]: "row Error e = None"
  by (cases e) (simp_all add: row_def transition_table_def)

lemma row_EXITING [simp]: "row EXITING e = None"
  by (cases e) (simp_all add: row_def transition_table_def)

lemma row_handler:
  "row s e = Some (t, a) \<Longrightarrow> a = DefaultFct \<or> a = ExitingFct \<Longrightarrow> \<exists>h. installed_handlers e = Some h"
  by (drule row_SomeD) (auto simp: transition_table_def installed_handlers_def)

lemma row_ErrorFound_target: "row s e = Some (t, ErrorFoundFct) \<Longrightarrow> s = OK \<and> e = ERROR_FOUND \<and> t = Error"
  by (drule row_SomeD) (auto simp: transition_table_def)

section \<open>The invariant of the machine\<close>

text \<open>
  \<open>regions_ok\<close> and the agreement of \<open>fState\<close> with the regions hold whenever no transition is in
  progress; \<open>work_ok\<close> and \<open>slots_ok\<close> hold at every moment.
\<close>

definition regions_ok :: "State list \<Rightarrow> bool" where
  "regions_ok rs \<longleftrightarrow> (\<exists>s t. rs = [s, t] \<and> device_state s \<and> (t = OK \<or> t = Error))"

definition shown_state :: "State list \<Rightarrow> State" where
  "shown_state rs = (if rs ! 1 = Error then Error else rs ! 0)"

definition work_ok :: "Machine \<Rightarrow> bool" where
  "work_ok m \<longleftrightarrow>
     fStateHandlers m = installed_handlers \<and>
     (fWorkAvailable m \<longrightarrow> fWork m \<noteq> None) \<and>
     (fWorkActive m \<longrightarrow> fWorkAvailable m)"

definition slots_ok :: "Machine \<Rightarrow> bool" where
  "slots_ok m \<longleftrightarrow>
     distinct (fStateChangeSignal m) \<and>
     ran (fStateChangeSignalsMap m) \<subseteq> set (fStateChangeSignal m) \<and>
     inj_on (fStateChangeSignalsMap m) (dom (fStateChangeSignalsMap m))"

definition machine_ok :: "Machine \<Rightarrow> bool" where
  "machine_ok m \<longleftrightarrow>
     regions_ok (regions m) \<and> fState m = shown_state (regions m) \<and> work_ok m \<and> slots_ok m"

lemmas machine_defs = machine_ok_def work_ok_def slots_ok_def

definition set_region :: "nat \<Rightarrow> State \<Rightarrow> Machine \<Rightarrow> Machine" where
  "set_region i t m = m\<lparr>regions := (regions m)[i := t]\<rparr>"

lemma CallStateChangeCallbacks_simps [simp]:
  "regions (CallStateChangeCallbacks s m) = regions m"
  "fState (CallStateChangeCallbacks s m) = fState m"
  "fStateHandlers (CallStateChangeCallbacks s m) = fStateHandlers m"
  "fWork (CallStateChangeCallbacks s m) = fWork m"
  "fWorkerTerminated (CallStateChangeCallbacks s m) = fWorkerTerminated m"
  "fWorkActive (CallStateChangeCallbacks s m) = fWorkActive m"
  "fWorkAvailable (CallStateChangeCallbacks s m) = fWorkAvailable m"
  "fStateChangeSignal (CallStateChangeCallbacks s m) = fStateChangeSignal m"
  "fStateChangeSignalsMap (CallStateChangeCallbacks s m) = fStateChangeSignalsMap m"
  "fUnblocked (CallStateChangeCallbacks s m) = fUnblocked m"
  "called (CallStateChangeCallbacks s m) = called m"
  "signalled (CallStateChangeCallbacks s m) =
     signalled m @ map (\<lambda>c. (c, s)) (fStateChangeSignal m)"
  by (simp_all add: CallStateChangeCallbacks_def)

lemma action_begin_frame [simp]:
  "regions (action_begin a t m) = regions m"
  "fState (action_begin a t m) = t"
  "fStateHandlers (action_begin a t m) = fStateHandlers m"
  "fWork (action_begin a t m) = fWork m"
  "fWorkActive (action_begin a t m) = fWorkActive m"
  "fWorkAvailable (action_begin a t m) = fWorkAvailable m"
  "fStateChangeSignal (action_begin a t m) = fStateChangeSignal m"
  "fStateChangeSignalsMap (action_begin a t m) = fStateChangeSignalsMap m"
  by (cases a; simp)+

lemma FairMQStateMachine_ok [simp]: "machine_ok FairMQStateMachine"
  by (auto simp: machine_defs FairMQStateMachine_def CallStateChangeCallbacks_def regions_ok_def
      shown_state_def initial_state_def device_state_def)

lemma FairMQStateMachine_IDLE [simp]: "GetCurrentState FairMQStateMachine = IDLE"
  by (simp add: GetCurrentState_def FairMQStateMachine_def)

text \<open>
  The abstract machine: one state and the table, with \<open>Error\<close> absorbing. \<open>in_transition\<close> holds
  while a transition waits for the worker.
\<close>

definition spec_step :: "State \<Rightarrow> Event \<Rightarrow> State" where
  "spec_step s e =
     (if s = Error then Error
      else if e = ERROR_FOUND then Error
      else case row s e of Some (t, a) \<Rightarrow> t | None \<Rightarrow> s)"

definition in_transition :: "Machine \<Rightarrow> Event \<Rightarrow> nat \<Rightarrow> State \<Rightarrow> Action \<Rightarrow> bool" where
  "in_transition m e i t a \<longleftrightarrow>
     i = 0 \<and> regions_ok (regions m) \<and> regions m ! 1 = OK \<and> row (regions m ! 0) e = Some (t, a) \<and>
     fState m = t \<and> waits_for_worker a \<and> work_ok m \<and> slots_ok m"

fun progress_ok :: "Event \<Rightarrow> Machine \<Rightarrow> progress \<Rightarrow> bool" where
  "progress_ok e m (Completed m') \<longleftrightarrow> machine_ok m' \<and> fState m' = spec_step (fState m) e"
| "progress_ok e m (WaitsForWorker m' e' i t a) \<longleftrightarrow>
     e' = e \<and> in_transition m' e i t a \<and> fWorkActive m' \<and> fState m' = spec_step (fState m) e"

lemma finish_transition_ok:
  assumes "in_transition m e i t a"
  shows "\<exists>m'. finish_transition m e i t a = Returns m' \<and> machine_ok m' \<and> fState m' = t \<and>
           regions m' = [t, OK]"
proof -
  obtain s where rs: "regions m = [s, OK]" "device_state s" and r: "row s e = Some (t, a)"
    using assms by (auto simp: in_transition_def regions_ok_def)
  have t: "device_state t" using row_device [OF rs(2) r] by simp
  show ?thesis
  proof (cases a)
    case DefaultFct
    with row_handler [OF r] obtain h where "installed_handlers e = Some h" by auto
    then show ?thesis using assms rs t DefaultFct
      by (auto simp: in_transition_def finish_transition_def map_at_def machine_defs
          regions_ok_def shown_state_def device_state_def)
  qed (use assms rs t in \<open>auto simp: in_transition_def finish_transition_def machine_defs
          regions_ok_def shown_state_def device_state_def\<close>)
qed

lemma finish_immediate:
  assumes m: "machine_ok m" and rs: "regions m = [s, OK]" and r: "row s e = Some (t, a)"
    and now: "\<not> waits_for_worker a"
  shows "\<exists>m'. finish_transition (action_begin a t m) e 0 t a = Returns m' \<and> machine_ok m' \<and> fState m' = t"
proof -
  have s: "device_state s" using m rs by (auto simp: machine_ok_def regions_ok_def)
  have t: "device_state t" "a \<noteq> ErrorFoundFct" using row_device [OF s r] by simp_all
  show ?thesis
  proof (cases a)
    case ExitingFct
    with row_handler [OF r] obtain h where "installed_handlers e = Some h" by auto
    then show ?thesis using m rs t ExitingFct
      by (auto simp: finish_transition_def map_at_def machine_defs regions_ok_def shown_state_def
          device_state_def)
  qed (use m rs t now in \<open>auto simp: finish_transition_def machine_defs regions_ok_def
         shown_state_def device_state_def\<close>)
qed

context msm_backend
begin

lemma dispatch_device:
  assumes "device_state s" "row s e \<noteq> None"
  shows "dispatch [s, OK] e = Some 0"
proof (rule fires)
  show "\<not> terminate_state s'" if "s' \<in> set [s, OK]" for s'
    using that assms by (auto simp: terminate_state_def device_state_def)
  have "e \<noteq> ERROR_FOUND" using assms by auto
  then show "row ([s, OK] ! j) e = None" if "j < length [s, OK]" "j \<noteq> 0" for j
    using that by (auto simp: row_OK less_Suc_eq)
qed (use assms in auto)

lemma dispatch_ERROR_FOUND:
  assumes "device_state s"
  shows "dispatch [s, OK] ERROR_FOUND = Some 1"
proof (rule fires)
  show "\<not> terminate_state s'" if "s' \<in> set [s, OK]" for s'
    using that assms by (auto simp: terminate_state_def device_state_def)
  show "row ([s, OK] ! j) ERROR_FOUND = None" if "j < length [s, OK]" "j \<noteq> 1" for j
    using that assms by (auto simp: less_Suc_eq)
qed (auto simp: row_OK)

lemma dispatch_none:
  assumes "row s e = None" "e \<noteq> ERROR_FOUND"
  shows "dispatch [s, OK] e = None"
  by (rule ignores) (use assms in \<open>auto simp: row_OK\<close>)

lemma dispatch_Error: "dispatch [s, Error] e = None"
  by (rule terminated [of Error]) (auto simp: terminate_state_def)

lemma process_event_Error:
  assumes "machine_ok m" "fState m = Error"
  shows "process_event dispatch e m = Returns (Completed m)"
  using assms
  by (auto simp: process_event_def machine_ok_def regions_ok_def shown_state_def device_state_def
      dispatch_Error split: if_splits)

lemma process_event_ERROR_FOUND:
  assumes m: "machine_ok m" and rs: "regions m = [s, OK]"
  shows "\<exists>m'. process_event dispatch ERROR_FOUND m = Returns (Completed m') \<and> machine_ok m' \<and>
           fState m' = Error"
proof -
  have "device_state s" using m rs by (auto simp: machine_ok_def regions_ok_def)
  then show ?thesis using m rs
    by (auto simp: process_event_def dispatch_ERROR_FOUND row_OK finish_transition_def
        map_outcome_result_def machine_defs regions_ok_def shown_state_def)
qed

lemma process_event_device:
  assumes m: "machine_ok m" and rs: "regions m = [s, OK]" and r: "row s e = Some (t, a)"
  shows "process_event dispatch e m =
     (let m' = action_begin a t m in
      if waits_for_worker a \<and> fWorkActive m then Returns (WaitsForWorker m' e 0 t a)
      else map_outcome_result Completed (finish_transition m' e 0 t a))"
proof -
  have "device_state s" using m rs by (auto simp: machine_ok_def regions_ok_def)
  then show ?thesis using r rs by (simp add: process_event_def dispatch_device)
qed

lemma process_event_ignored:
  assumes "machine_ok m" "regions m = [s, OK]" "row s e = None" "e \<noteq> ERROR_FOUND"
  shows "process_event dispatch e m = Returns (Completed m)"
  using assms by (simp add: process_event_def dispatch_none)

lemma process_event_ok:
  assumes m: "machine_ok m"
  shows "\<exists>p. process_event dispatch e m = Returns p \<and> progress_ok e m p"
proof (cases "fState m = Error")
  case True
  then show ?thesis using process_event_Error [OF m True] m by (auto simp: spec_step_def)
next
  case False
  obtain s where rs: "regions m = [s, OK]" and s: "device_state s" "fState m = s" "s \<noteq> Error"
    using m False by (auto simp: machine_ok_def regions_ok_def shown_state_def device_state_def)
  show ?thesis
  proof (cases "row s e")
    case None
    show ?thesis
    proof (cases "e = ERROR_FOUND")
      case True
      then show ?thesis using process_event_ERROR_FOUND [OF m rs] s by (auto simp: spec_step_def)
    next
      case False
      then show ?thesis using process_event_ignored [OF m rs None] m None s by (auto simp: spec_step_def)
    qed
  next
    case (Some ta)
    obtain t a where r: "row s e = Some (t, a)" using Some by (cases ta) auto
    have step: "spec_step (fState m) e = t" using r s by (auto simp: spec_step_def)
    have tr: "in_transition (action_begin a t m) e 0 t a" if "waits_for_worker a"
      using that m rs r s by (auto simp: in_transition_def machine_defs regions_ok_def)
    show ?thesis
    proof (cases "waits_for_worker a")
      case True
      then show ?thesis using process_event_device [OF m rs r] tr finish_transition_ok [OF tr] step
        by (auto simp: map_outcome_result_def Let_def)
    next
      case False
      then show ?thesis using process_event_device [OF m rs r] finish_immediate [OF m rs r False] step
        by (auto simp: map_outcome_result_def Let_def)
    qed
  qed
qed

lemma ChangeState_ok:
  assumes "machine_ok m"
  shows "\<exists>p. ChangeState dispatch (event_number e) m = Returns (True, p) \<and> progress_ok e m p"
  using process_event_ok [OF assms, of e] by (auto simp: ChangeState_def)

end

lemma unsupported_event [simp]:
  "n < 0 \<or> 11 < n \<Longrightarrow> ChangeState d n m = Returns (False, Completed m)"
  by (simp add: ChangeState_def event_of_number_None_iff [THEN iffD2])

section \<open>Subscriptions\<close>

lemma SubscribeToStateChange_ok:
  assumes "machine_ok m" "fresh (fStateChangeSignal m) \<notin> set (fStateChangeSignal m)"
  shows "machine_ok (SubscribeToStateChange fresh key m)"
proof (cases "fStateChangeSignalsMap m key")
  case None
  let ?c = "fresh (fStateChangeSignal m)"
  have fresh: "fStateChangeSignalsMap m k \<noteq> Some ?c" for k
    using assms by (auto simp: machine_defs ran_def)
  have "inj_on (fStateChangeSignalsMap m) (dom (fStateChangeSignalsMap m))"
    using assms by (simp add: machine_defs)
  then have "inj_on ((fStateChangeSignalsMap m)(key \<mapsto> ?c)) (dom ((fStateChangeSignalsMap m)(key \<mapsto> ?c)))"
    using fresh None by (auto simp: inj_on_def)
  then show ?thesis using None assms
    by (auto simp: SubscribeToStateChange_def machine_defs Let_def)
next
  case (Some c)
  then show ?thesis using assms by (auto simp: SubscribeToStateChange_def machine_defs Let_def)
qed

lemma UnsubscribeFromStateChange_ok:
  assumes "machine_ok m"
  shows "machine_ok (UnsubscribeFromStateChange key m)"
proof (cases "fStateChangeSignalsMap m key")
  case (Some c)
  have inj: "inj_on (fStateChangeSignalsMap m) (dom (fStateChangeSignalsMap m))"
    and sub: "ran (fStateChangeSignalsMap m) \<subseteq> set (fStateChangeSignal m)"
    using assms by (auto simp: machine_defs)
  have "inj_on ((fStateChangeSignalsMap m)(key := None)) (dom ((fStateChangeSignalsMap m)(key := None)))"
    using inj by (auto simp: inj_on_def)
  moreover have "ran ((fStateChangeSignalsMap m)(key := None)) \<subseteq> {d \<in> set (fStateChangeSignal m). d \<noteq> c}"
  proof
    fix d assume "d \<in> ran ((fStateChangeSignalsMap m)(key := None))"
    then obtain k where k: "k \<noteq> key" "fStateChangeSignalsMap m k = Some d"
      by (auto simp: ran_def split: if_splits)
    have "d \<noteq> c" using inj_onD [OF inj, of k key] k Some by auto
    then show "d \<in> {d \<in> set (fStateChangeSignal m). d \<noteq> c}" using sub k by (auto simp: ran_def)
  qed
  ultimately show ?thesis using assms Some
    by (auto simp: UnsubscribeFromStateChange_def machine_defs)
qed (use assms in \<open>simp add: UnsubscribeFromStateChange_def\<close>)

lemma subscribe_unsubscribe:
  assumes "machine_ok m" "fresh (fStateChangeSignal m) \<notin> set (fStateChangeSignal m)"
    and "fStateChangeSignalsMap m key = None"
  shows "UnsubscribeFromStateChange key (SubscribeToStateChange fresh key m) = m"
proof -
  have "filter (\<lambda>d. d \<noteq> fresh (fStateChangeSignal m)) (fStateChangeSignal m) = fStateChangeSignal m"
    using assms(2) by (auto simp: filter_id_conv)
  then show ?thesis using assms(3)
    by (auto simp: SubscribeToStateChange_def UnsubscribeFromStateChange_def Let_def
        intro!: Machine.equality)
qed

text \<open>
  Subscribing under a key in use connects a slot that the key does not reach: after one
  \<open>UnsubscribeFromStateChange\<close> the slot still is connected and no key refers to it.
\<close>

lemma subscribe_twice_leaks:
  assumes m: "machine_ok m" and fresh: "fresh (fStateChangeSignal m) \<notin> set (fStateChangeSignal m)"
    and used: "fStateChangeSignalsMap m key = Some c"
  defines "m' \<equiv> UnsubscribeFromStateChange key (SubscribeToStateChange fresh key m)"
  shows "fresh (fStateChangeSignal m) \<in> set (fStateChangeSignal m') \<and>
         fresh (fStateChangeSignal m) \<notin> ran (fStateChangeSignalsMap m')"
proof -
  have "c \<in> set (fStateChangeSignal m)" using m used by (auto simp: machine_defs ran_def)
  moreover have "fresh (fStateChangeSignal m) \<notin> ran (fStateChangeSignalsMap m)"
    using m fresh by (auto simp: machine_defs)
  ultimately show ?thesis using fresh used
    by (auto simp: m'_def SubscribeToStateChange_def UnsubscribeFromStateChange_def Let_def ran_def)
qed

section \<open>Waiting\<close>

lemma WaitForEndOfState_ends:
  "(\<exists>obs. WaitForEndOfState n obs \<noteq> None) \<and>
   (waitable (event_of_number n) \<longrightarrow>
      (WaitForEndOfState n obs = Some () \<longleftrightarrow> (\<exists>o' \<in> set obs. o' = (False, False))))"
proof
  have "WaitForEndOfState n [(False, False)] = Some ()" by simp
  then show "\<exists>obs. WaitForEndOfState n obs \<noteq> None" by blast
  show "waitable (event_of_number n) \<longrightarrow>
      (WaitForEndOfState n obs = Some () \<longleftrightarrow> (\<exists>o' \<in> set obs. o' = (False, False)))"
    by (induction obs) auto
qed

text \<open>
  The timed wait returns \<open>false\<close> at the first wake-up that finds work active, whether or not the
  time has passed, and does not return as long as work is available and not yet active, however
  often the time passes.
\<close>

lemma wait_ms_stuck: "\<forall>o' \<in> set (first # obs). o' = (False, True) \<Longrightarrow> wait_ms_loop first obs = None"
  by (induction first obs rule: wait_ms_loop.induct) auto

lemma wait_ms_True: "wait_ms_loop first obs = Some True \<Longrightarrow> (False, False) \<in> set (first # obs)"
  by (induction first obs rule: wait_ms_loop.induct) (auto split: if_splits)

section \<open>The worker's operations keep the invariant\<close>

lemma worker_takes_ok:
  "machine_ok m \<Longrightarrow> worker_takes m = Some (h, m') \<Longrightarrow> machine_ok m' \<and> h \<noteq> None \<and> fWorkActive m'"
  by (auto simp: worker_takes_def machine_defs split: if_splits)

lemma work_done_ok: "machine_ok m \<Longrightarrow> machine_ok (work_done m) \<and> \<not> fWorkActive (work_done m)"
  by (auto simp: work_done_def machine_defs)

lemma work_failed_ok: "machine_ok m \<Longrightarrow> machine_ok (work_failed m) \<and> \<not> fWorkActive (work_failed m)"
  by (auto simp: work_failed_def machine_defs)

section \<open>Properties\<close>

text \<open>
  C1. A state change requested with any of the twelve events returns \<open>true\<close>, never ends the
  process and never throws, and follows the transition table: the state shown to clients moves as
  the one-state machine of the table does, with \<open>Error\<close> entered by \<open>ERROR_FOUND\<close> from everywhere
  and left by nothing. The call either completes with the machine's invariant intact or waits for
  the worker inside a transition of the table.
\<close>

theorem ChangeState_follows_table:
  assumes "msm_backend d" "machine_ok m"
  shows "\<exists>p. ChangeState d (event_number e) m = Returns (True, p) \<and> progress_ok e m p"
  using assms by (rule msm_backend.ChangeState_ok)

theorem ChangeState_follows_table_witness:
  "\<exists>p. ChangeState run_to_completion (event_number INIT_DEVICE) FairMQStateMachine = Returns (True, p) \<and>
       progress_ok INIT_DEVICE FairMQStateMachine p"
  using ChangeState_follows_table [OF rtc.msm_backend_axioms FairMQStateMachine_ok] .

text \<open>
  A transition that waits for the worker completes as soon as the worker reports the end of
  its work: the second half of its action finds its handler, the region reaches the target state,
  and the invariant of the machine holds again.
\<close>

theorem waiting_transition_completes:
  assumes "in_transition m e i t a"
  shows "\<exists>m'. finish_transition (work_done m) e i t a = Returns m' \<and> machine_ok m' \<and>
           GetCurrentState m' = t \<and> regions m' = [t, OK]"
proof -
  have "in_transition (work_done m) e i t a"
    using assms by (auto simp: in_transition_def work_done_def machine_defs)
  then show ?thesis using finish_transition_ok by (auto simp: GetCurrentState_def)
qed

definition stopping_machine :: Machine where
  "stopping_machine =
     FairMQStateMachine\<lparr>regions := [RUNNING, OK], fState := READY, fWork := Some RunWrapper,
       fWorkActive := True, fWorkAvailable := True, fUnblocked := True\<rparr>"

theorem waiting_transition_completes_witness:
  "\<exists>m'. finish_transition (work_done stopping_machine) STOP 0 READY StopFct = Returns m' \<and>
        machine_ok m' \<and> GetCurrentState m' = READY \<and> regions m' = [READY, OK]"
  by (rule waiting_transition_completes)
    (auto simp: in_transition_def stopping_machine_def FairMQStateMachine_def
      CallStateChangeCallbacks_def regions_ok_def device_state_def machine_defs row_def
      transition_table_def)

text \<open>
  \<open>Error\<close> is final: once the machine shows it, every request leaves the whole machine
  unchanged, and still answers \<open>true\<close> for the numbers of events and \<open>false\<close> for any other number.
\<close>

theorem Error_is_final:
  assumes "msm_backend d" "machine_ok m" "CheckCurrentState Error m"
  shows "ChangeState d n m = Returns (0 \<le> n \<and> n \<le> 11, Completed m)"
proof (cases "event_of_number n")
  case None
  then have "n < 0 \<or> 11 < n" by (simp add: event_of_number_None_iff)
  then show ?thesis by auto
next
  case (Some e)
  then have "n = event_number e" by simp
  then show ?thesis
    using msm_backend.process_event_Error [OF assms(1,2)] assms(3) event_number_bounds [of e]
    by (simp add: ChangeState_def CheckCurrentState_def)
qed

theorem Error_is_final_witness:
  "ChangeState run_to_completion (event_number RESET_DEVICE)
     (FairMQStateMachine\<lparr>regions := [IDLE, Error], fState := Error\<rparr>) =
   Returns (True, Completed (FairMQStateMachine\<lparr>regions := [IDLE, Error], fState := Error\<rparr>))"
  using Error_is_final [OF rtc.msm_backend_axioms, of
      "FairMQStateMachine\<lparr>regions := [IDLE, Error], fState := Error\<rparr>" "event_number RESET_DEVICE"]
  by (auto simp: CheckCurrentState_def machine_defs FairMQStateMachine_def
      CallStateChangeCallbacks_def regions_ok_def shown_state_def device_state_def)

text \<open>
  A state change requested by name is the change requested by the number of the event of that
  name. Any other string, the names of states included, throws \<open>std::out_of_range\<close> before the
  \<open>try\<close> block of the numeric version, so the exception reaches the caller.
\<close>

theorem ChangeState_by_name:
  "(\<forall>e. ChangeState_str d (fsm_event_Name e) m = ChangeState d (event_number e) m) \<and>
   (s \<notin> set eventNames \<longrightarrow> ChangeState_str d s m = Throws OutOfRange)"
  by (auto simp: ChangeState_str_def GetEventNumber_Throws_iff [THEN iffD2] eventNames_range)

theorem ChangeState_by_name_witness:
  "ChangeState_str run_to_completion ''READY'' FairMQStateMachine = Throws OutOfRange"
  using ChangeState_by_name [of run_to_completion FairMQStateMachine "''READY''"]
  by (simp add: eventNames_def)

end
