(* ===== verification/Device_Worker.thy ===== *)
theory Device_Worker
  imports Device_State_Machine
begin

text \<open>
  The two sides that share a device's state machine: the threads that request state changes
  (\<open>FairMQStateMachine::ChangeState\<close>, serialised by \<open>fChangeStateMutex\<close>) and the worker thread
  that runs \<open>FairMQStateMachine::ProcessWork\<close> and, through it, the handlers of
  \<open>fairmq/FairMQDevice.cxx\<close>. The system is a step relation whose steps are the critical
  sections of the code. A request that waits for the worker keeps \<open>fChangeStateMutex\<close>; since the
  mutex admits one caller, one slot for a waiting request is enough for any number of clients.

  What a handler does between its first callback and its closing state change is user code: it
  takes any number of other steps, or throws.
\<close>

section \<open>The system\<close>

text \<open>
  The worker: at the top of its loop; having taken a handler and not yet called the callbacks;
  inside the handler; inside \<open>RunWrapper\<close> after its test for \<open>RUNNING\<close> succeeded; in the rest of
  the handler; about to call the callbacks with the state reached; in the exception handler;
  gone, after \<open>END\<close> or after rethrowing.
\<close>

datatype worker =
    Waiting
  | Starting handler
  | Working handler
  | Checked
  | Ending
  | Notifying
  | Failing
  | Left
  | Rethrown

record device_system =
  machine :: Machine
  held :: "(Event \<times> nat \<times> State \<times> Action) option"
  worker_at :: worker

datatype label = Request Event | Resume | Work | Fail

text \<open>The states the handlers announce first and the event each of them requests last.\<close>

fun announced :: "handler \<Rightarrow> State" where
  "announced InitWrapper = INITIALIZING_DEVICE"
| "announced InitTaskWrapper = INITIALIZING_TASK"
| "announced RunWrapper = RUNNING"
| "announced PauseWrapper = PAUSED"
| "announced ResetTaskWrapper = RESETTING_TASK"
| "announced ResetWrapper = RESETTING_DEVICE"
| "announced Exit = EXITING"

fun closing_event :: "handler \<Rightarrow> Event option" where
  "closing_event InitWrapper = Some internal_DEVICE_READY"
| "closing_event InitTaskWrapper = Some internal_READY"
| "closing_event ResetTaskWrapper = Some internal_DEVICE_READY"
| "closing_event ResetWrapper = Some internal_IDLE"
| "closing_event RunWrapper = None"
| "closing_event PauseWrapper = None"
| "closing_event Exit = None"

definition internal_event :: "Event \<Rightarrow> bool" where
  "internal_event e \<longleftrightarrow> e \<in> {internal_DEVICE_READY, internal_READY, internal_IDLE}"

fun busy :: "worker \<Rightarrow> bool" where
  "busy (Starting h) = True"
| "busy (Working h) = True"
| "busy Checked = True"
| "busy Ending = True"
| "busy Waiting = False"
| "busy Notifying = False"
| "busy Failing = False"
| "busy Left = False"
| "busy Rethrown = False"

text \<open>Where user code runs on the worker: in callbacks, in handlers, in what follows them.\<close>

fun may_throw :: "worker \<Rightarrow> bool" where
  "may_throw (Starting h) = True"
| "may_throw (Working h) = True"
| "may_throw Ending = True"
| "may_throw Notifying = True"
| "may_throw Checked = False"
| "may_throw Waiting = False"
| "may_throw Failing = False"
| "may_throw Left = False"
| "may_throw Rethrown = False"

inductive step :: "(State list \<Rightarrow> Event \<Rightarrow> nat option) \<Rightarrow> device_system \<Rightarrow> label \<Rightarrow> device_system \<Rightarrow> bool"
  for d where
  request:
    "\<lbrakk>held s = None; \<not> internal_event e; process_event d e (machine s) = Returns (Completed m)\<rbrakk>
     \<Longrightarrow> step d s (Request e) (s\<lparr>machine := m\<rparr>)"
| request_waits:
    "\<lbrakk>held s = None; \<not> internal_event e;
      process_event d e (machine s) = Returns (WaitsForWorker m e' i t a)\<rbrakk>
     \<Longrightarrow> step d s (Request e) (s\<lparr>machine := m, held := Some (e', i, t, a)\<rparr>)"
| resume:
    "\<lbrakk>held s = Some (e, i, t, a); \<not> fWorkActive (machine s);
      finish_transition (machine s) e i t a = Returns m\<rbrakk>
     \<Longrightarrow> step d s Resume (s\<lparr>machine := m, held := None\<rparr>)"
| take_work:
    "\<lbrakk>worker_at s = Waiting; worker_takes (machine s) = Some (Some h, m)\<rbrakk>
     \<Longrightarrow> step d s Work (s\<lparr>machine := m, worker_at := Starting h\<rparr>)"
| leave:
    "\<lbrakk>worker_at s = Waiting; worker_leaves (machine s)\<rbrakk>
     \<Longrightarrow> step d s Work (s\<lparr>worker_at := Left\<rparr>)"
| announce:
    "\<lbrakk>worker_at s = Starting h\<rbrakk>
     \<Longrightarrow> step d s Work (s\<lparr>machine := CallStateChangeCallbacks (announced h) (machine s),
                          worker_at := Working h\<rparr>)"
| close:
    "\<lbrakk>worker_at s = Working h; closing_event h = Some e; held s = None;
      process_event d e (machine s) = Returns (Completed m)\<rbrakk>
     \<Longrightarrow> step d s Work (s\<lparr>machine := m, worker_at := Ending\<rparr>)"
| run_still_running:
    "\<lbrakk>worker_at s = Working RunWrapper; CheckCurrentState RUNNING (machine s)\<rbrakk>
     \<Longrightarrow> step d s Work (s\<lparr>worker_at := Checked\<rparr>)"
| run_not_running:
    "\<lbrakk>worker_at s = Working RunWrapper; \<not> CheckCurrentState RUNNING (machine s)\<rbrakk>
     \<Longrightarrow> step d s Work (s\<lparr>worker_at := Ending\<rparr>)"
| run_close:
    "\<lbrakk>worker_at s = Checked; held s = None;
      process_event d internal_READY (machine s) = Returns (Completed m)\<rbrakk>
     \<Longrightarrow> step d s Work (s\<lparr>machine := m, worker_at := Ending\<rparr>)"
| unpause:
    "\<lbrakk>worker_at s = Working PauseWrapper; \<not> CheckCurrentState PAUSED (machine s)\<rbrakk>
     \<Longrightarrow> step d s Work (s\<lparr>worker_at := Ending\<rparr>)"
| end_work:
    "\<lbrakk>worker_at s = Ending\<rbrakk>
     \<Longrightarrow> step d s Work (s\<lparr>machine := work_done (machine s), worker_at := Notifying\<rparr>)"
| notify:
    "\<lbrakk>worker_at s = Notifying\<rbrakk>
     \<Longrightarrow> step d s Work (s\<lparr>machine := CallStateChangeCallbacks (fState (machine s)) (machine s),
                          worker_at := Waiting\<rparr>)"
| fail:
    "\<lbrakk>may_throw (worker_at s)\<rbrakk>
     \<Longrightarrow> step d s Fail (s\<lparr>machine := work_failed (machine s), worker_at := Failing\<rparr>)"
| report_failure:
    "\<lbrakk>worker_at s = Failing; held s = None;
      process_event d ERROR_FOUND (machine s) = Returns (Completed m)\<rbrakk>
     \<Longrightarrow> step d s Work (s\<lparr>machine := m, worker_at := Rethrown\<rparr>)"

definition started :: device_system where
  "started = \<lparr>machine = FairMQStateMachine, held = None, worker_at = Waiting\<rparr>"

inductive reachable :: "(State list \<Rightarrow> Event \<Rightarrow> nat option) \<Rightarrow> device_system \<Rightarrow> bool"
  for d where
  reach_start: "reachable d started"
| reach_step: "reachable d s \<Longrightarrow> step d s l s' \<Longrightarrow> reachable d s'"

inductive_cases step_Request: "step d s (Request e) s'"
inductive_cases step_Resume: "step d s Resume s'"
inductive_cases step_Work: "step d s Work s'"
inductive_cases step_Fail: "step d s Fail s'"

section \<open>The effect of an event\<close>

text \<open>
  The fields of the machine that the threads share, after a completed event: nothing changed, the
  error region moved, or a row of the table fired and the work was set only by \<open>DefaultFct\<close>.
\<close>

definition row_effect :: "Event \<Rightarrow> Machine \<Rightarrow> Machine \<Rightarrow> bool" where
  "row_effect e m m' \<longleftrightarrow>
     (\<exists>s t a. regions m = [s, OK] \<and> device_state s \<and> row s e = Some (t, a) \<and> regions m' = [t, OK] \<and>
        fWorkActive m' = fWorkActive m \<and>
        (a \<noteq> ExitingFct \<longrightarrow> fWorkerTerminated m' = fWorkerTerminated m) \<and>
        (if a = DefaultFct
         then \<not> fWorkActive m \<and> fWorkAvailable m' \<and> fWork m' = installed_handlers e
         else fWorkAvailable m' = fWorkAvailable m \<and> fWork m' = fWork m))"

definition error_effect :: "Machine \<Rightarrow> Machine \<Rightarrow> bool" where
  "error_effect m m' \<longleftrightarrow>
     (\<exists>s. regions m = [s, OK] \<and> regions m' = [s, Error]) \<and> fWorkActive m' = fWorkActive m \<and>
     fWorkAvailable m' = fWorkAvailable m \<and> fWork m' = fWork m"

lemma finish_transition_effect:
  assumes "finish_transition m e 0 t a = Returns m'"
    and "work_ok m" "regions m = [s, OK]" "device_state s" "row s e = Some (t, a)"
    and "\<not> (waits_for_worker a \<and> fWorkActive m)"
  shows "row_effect e m m'"
proof -
  have "fStateHandlers m = installed_handlers" using assms(2) by (simp add: work_ok_def)
  then show ?thesis using assms
    by (cases a) (auto simp: row_effect_def finish_transition_def outcome_simps)
qed

lemma action_begin_terminated [simp]:
  "a \<noteq> ExitingFct \<Longrightarrow> fWorkerTerminated (action_begin a t m) = fWorkerTerminated m"
  by (cases a) simp_all

lemma row_effect_begin:
  assumes "regions m = [s, OK]" "row s e = Some (t, a)" "row_effect e (action_begin a t m) m'"
  shows "row_effect e m m'"
  using assms by (auto simp: row_effect_def)

context msm_backend
begin

lemma process_event_effect:
  assumes m: "machine_ok m" and p: "process_event dispatch e m = Returns (Completed m')"
  shows "m' = m \<and> (regions m ! 1 = Error \<or> row (regions m ! 0) e = None) \<or>
         e = ERROR_FOUND \<and> error_effect m m' \<or> row_effect e m m'"
proof (cases "fState m = Error")
  case True
  then have "regions m ! 1 = Error"
    using m by (auto simp: machine_ok_def regions_ok_def shown_state_def device_state_def split: if_splits)
  then show ?thesis using process_event_Error [OF m True] p by auto
next
  case False
  obtain s where rs: "regions m = [s, OK]"
    using m False by (auto simp: machine_ok_def regions_ok_def shown_state_def device_state_def)
  then have s: "device_state s" using m by (auto simp: machine_ok_def regions_ok_def)
  show ?thesis
  proof (cases "row s e")
    case None
    show ?thesis
    proof (cases "e = ERROR_FOUND")
      case True
      then show ?thesis using p rs dispatch_ERROR_FOUND [OF s]
        by (auto simp: process_event_def row_OK finish_transition_def map_outcome_result_def
            error_effect_def)
    next
      case False
      then show ?thesis using process_event_ignored [OF m rs None] p None rs by auto
    qed
  next
    case (Some ta)
    then obtain t a where r: "row s e = Some (t, a)" by (cases ta) auto
    then have now: "\<not> (waits_for_worker a \<and> fWorkActive m)"
      and "finish_transition (action_begin a t m) e 0 t a = Returns m'"
      using process_event_device [OF m rs r] p
      by (auto simp: map_outcome_result_def outcome_simps Let_def split: if_splits)
    then have "row_effect e (action_begin a t m) m'"
      using m rs s r by (auto intro!: finish_transition_effect simp: machine_ok_def work_ok_def)
    then show ?thesis using row_effect_begin [OF rs r] by simp
  qed
qed

lemma process_event_waits:
  assumes m: "machine_ok m"
    and p: "process_event dispatch e m = Returns (WaitsForWorker m' e' i t a)"
  shows "e' = e \<and> in_transition m' e i t a \<and> fWorkActive m' \<and> m' = action_begin a t m"
proof -
  have "progress_ok e m (WaitsForWorker m' e' i t a)"
    using process_event_ok [OF m, of e] p by auto
  moreover have "m' = action_begin a t m"
    using p by (auto simp: process_event_def map_outcome_result_def outcome_simps Let_def
        split: option.splits if_splits)
  ultimately show ?thesis by auto
qed

end

section \<open>The invariant of the system\<close>

text \<open>
  The machine is consistent or, while a request is held, in the middle of that request's
  transition; and \<open>fWorkActive\<close> says whether the worker is inside a handler.
\<close>

definition system_ok :: "device_system \<Rightarrow> bool" where
  "system_ok s \<longleftrightarrow>
     (case held s of
        None \<Rightarrow> machine_ok (machine s)
      | Some (e, i, t, a) \<Rightarrow> in_transition (machine s) e i t a) \<and>
     (fWorkActive (machine s) \<longleftrightarrow> busy (worker_at s))"

text \<open>The fields that the worker may change without disturbing a transition in progress.\<close>

definition same_control :: "Machine \<Rightarrow> Machine \<Rightarrow> bool" where
  "same_control m m' \<longleftrightarrow>
     regions m' = regions m \<and> fState m' = fState m \<and>
     fStateChangeSignal m' = fStateChangeSignal m \<and>
     fStateChangeSignalsMap m' = fStateChangeSignalsMap m"

lemma same_control_ok:
  assumes "same_control m m'" "work_ok m'"
  shows "machine_ok m \<Longrightarrow> machine_ok m'" "in_transition m e i t a \<Longrightarrow> in_transition m' e i t a"
  using assms by (auto simp: same_control_def machine_ok_def in_transition_def slots_ok_def)

lemma system_ok_work: "system_ok s \<Longrightarrow> work_ok (machine s)"
  by (auto simp: system_ok_def machine_ok_def in_transition_def split: option.splits)

lemma system_ok_active: "system_ok s \<Longrightarrow> fWorkActive (machine s) = busy (worker_at s)"
  by (simp add: system_ok_def)

lemma system_ok_worker_step:
  assumes "system_ok s" "same_control (machine s) m" "work_ok m" "fWorkActive m \<longleftrightarrow> busy w"
  shows "system_ok (s\<lparr>machine := m, worker_at := w\<rparr>)"
  using assms by (auto simp: system_ok_def same_control_ok split: option.splits)

lemma system_ok_worker_moves:
  "system_ok s \<Longrightarrow> busy w = busy (worker_at s) \<Longrightarrow> system_ok (s\<lparr>worker_at := w\<rparr>)"
  by (cases "held s") (auto simp: system_ok_def)

lemma system_ok_event_step:
  assumes "system_ok s" "held s = None" "machine_ok m" "fWorkActive m \<longleftrightarrow> busy w"
  shows "system_ok (s\<lparr>machine := m, worker_at := w\<rparr>)"
  using assms by (auto simp: system_ok_def)

lemma row_effect_active: "row_effect e m m' \<Longrightarrow> fWorkActive m' = fWorkActive m"
  by (auto simp: row_effect_def)

lemma started_ok: "system_ok started"
  by (simp add: system_ok_def started_def FairMQStateMachine_def)
    (simp flip: FairMQStateMachine_def)

context msm_backend
begin

lemma process_event_completed:
  assumes "machine_ok m" "process_event dispatch e m = Returns (Completed m')"
  shows "machine_ok m' \<and> fWorkActive m' = fWorkActive m"
proof -
  have "machine_ok m'" using process_event_ok [OF assms(1), of e] assms(2) by auto
  moreover have "fWorkActive m' = fWorkActive m"
    using process_event_effect [OF assms] by (auto simp: row_effect_def error_effect_def)
  ultimately show ?thesis ..
qed

lemma step_ok:
  assumes s: "system_ok s" and st: "step dispatch s l s'"
  shows "system_ok s'"
  using st
proof cases
  case (request e m)
  then show ?thesis using s process_event_completed [of "machine s" e m]
    by (auto simp: system_ok_def)
next
  case (request_waits e m e' i t a)
  then show ?thesis using s process_event_waits [of "machine s" e m e' i t a]
    by (auto simp: system_ok_def)
next
  case (resume e i t a m)
  then have tr: "in_transition (machine s) e i t a" using s by (simp add: system_ok_def)
  have "fWorkActive m = fWorkActive (machine s)"
    using resume(5) tr
    by (cases a) (auto simp: in_transition_def finish_transition_def outcome_simps)
  then show ?thesis using resume s finish_transition_ok [OF tr] by (auto simp: system_ok_def)
next
  case (take_work h m)
  then show ?thesis using s system_ok_work [OF s]
    by (auto intro!: system_ok_worker_step simp: worker_takes_def same_control_def work_ok_def
        split: if_splits)
next
  case leave
  then show ?thesis using system_ok_worker_moves [OF s] by simp
next
  case (announce h)
  then show ?thesis using s system_ok_work [OF s] system_ok_active [OF s]
    by (auto intro!: system_ok_worker_step simp: same_control_def work_ok_def)
next
  case (close h e m)
  then show ?thesis using s process_event_completed [of "machine s" e m]
    by (auto simp: system_ok_def)
next
  case run_still_running
  then show ?thesis using system_ok_worker_moves [OF s] by simp
next
  case run_not_running
  then show ?thesis using system_ok_worker_moves [OF s] by simp
next
  case (run_close m)
  then show ?thesis using s process_event_completed [of "machine s" internal_READY m]
    by (auto simp: system_ok_def)
next
  case unpause
  then show ?thesis using system_ok_worker_moves [OF s] by simp
next
  case end_work
  then show ?thesis using s system_ok_work [OF s]
    by (auto intro!: system_ok_worker_step simp: same_control_def work_ok_def work_done_def)
next
  case notify
  then show ?thesis using s system_ok_work [OF s] system_ok_active [OF s]
    by (auto intro!: system_ok_worker_step simp: same_control_def work_ok_def)
next
  case fail
  then show ?thesis using s system_ok_work [OF s]
    by (auto intro!: system_ok_worker_step simp: same_control_def work_ok_def work_failed_def)
next
  case (report_failure m)
  then show ?thesis using s process_event_completed [of "machine s" ERROR_FOUND m]
    by (auto simp: system_ok_def)
qed

lemma reachable_ok: "reachable dispatch s \<Longrightarrow> system_ok s"
  by (induction rule: reachable.induct) (auto intro: started_ok step_ok)

end

section \<open>No handler is lost\<close>

text \<open>
  The handler that will run next or is running and has not reached its closing event, and the
  states in which it may be found there.
\<close>

fun inside_handler :: "worker \<Rightarrow> handler option" where
  "inside_handler (Starting h) = Some h"
| "inside_handler (Working h) = Some h"
| "inside_handler Checked = Some RunWrapper"
| "inside_handler Ending = None"
| "inside_handler Waiting = None"
| "inside_handler Notifying = None"
| "inside_handler Failing = None"
| "inside_handler Left = None"
| "inside_handler Rethrown = None"

definition next_handler :: "device_system \<Rightarrow> handler option" where
  "next_handler s =
     (if busy (worker_at s) then inside_handler (worker_at s)
      else if fWorkAvailable (machine s) then fWork (machine s)
      else None)"

fun home :: "handler \<Rightarrow> State set" where
  "home InitWrapper = {INITIALIZING_DEVICE}"
| "home InitTaskWrapper = {INITIALIZING_TASK}"
| "home RunWrapper = {RUNNING, READY}"
| "home PauseWrapper = {PAUSED}"
| "home ResetTaskWrapper = {RESETTING_TASK}"
| "home ResetWrapper = {RESETTING_DEVICE}"
| "home Exit = {}"

definition passing_state :: "State \<Rightarrow> bool" where
  "passing_state s \<longleftrightarrow>
     s \<in> {INITIALIZING_DEVICE, INITIALIZING_TASK, RESETTING_TASK, RESETTING_DEVICE}"

definition healthy :: "device_system \<Rightarrow> bool" where
  "healthy s \<longleftrightarrow> regions (machine s) ! 1 = OK \<and> worker_at s \<noteq> Failing \<and> worker_at s \<noteq> Rethrown"

definition handler_ok :: "State \<Rightarrow> handler option \<Rightarrow> bool" where
  "handler_ok st n \<longleftrightarrow>
     (case n of Some h \<Rightarrow> st \<in> home h | None \<Rightarrow> \<not> passing_state st)"

lemma handler_ok_simps [simp]:
  "handler_ok st (Some h) \<longleftrightarrow> st \<in> home h"
  "handler_ok st None \<longleftrightarrow> \<not> passing_state st"
  by (simp_all add: handler_ok_def)

lemma row_DefaultFct_home: "row s e = Some (t, DefaultFct) \<Longrightarrow> handler_ok t (installed_handlers e)"
  by (drule row_SomeD) (auto simp: transition_table_def installed_handlers_def)

lemma row_external_home:
  assumes "row s e = Some (t, a)" "a \<noteq> DefaultFct" "\<not> internal_event e" "handler_ok s n"
  shows "handler_ok t n"
  using row_SomeD [OF assms(1)] assms(2-)
  by (cases n; cases "the n") (auto simp: transition_table_def internal_event_def passing_state_def)

lemma row_internal_not_passing:
  "row s e = Some (t, a) \<Longrightarrow> internal_event e \<Longrightarrow> \<not> passing_state t \<and> a \<noteq> DefaultFct"
  by (drule row_SomeD) (auto simp: transition_table_def internal_event_def passing_state_def)

lemma row_effect_home:
  assumes "row_effect e m m'" "\<not> internal_event e"
    and "handler_ok (regions m ! 0) (if b then n else if fWorkAvailable m then fWork m else None)"
    and "b = fWorkActive m"
  shows "handler_ok (regions m' ! 0) (if b then n else if fWorkAvailable m' then fWork m' else None)"
proof -
  obtain s t a where r: "regions m = [s, OK]" "row s e = Some (t, a)" "regions m' = [t, OK]"
    and w: "if a = DefaultFct
         then \<not> fWorkActive m \<and> fWorkAvailable m' \<and> fWork m' = installed_handlers e
         else fWorkAvailable m' = fWorkAvailable m \<and> fWork m' = fWork m"
    using assms(1) by (auto simp: row_effect_def)
  show ?thesis
  proof (cases "a = DefaultFct")
    case True
    then show ?thesis using r w assms(4) row_DefaultFct_home by auto
  next
    case False
    let ?n = "if b then n else if fWorkAvailable m then fWork m else None"
    have "handler_ok t ?n" using row_external_home [OF r(2) False assms(2)] assms(3) r(1) by (metis nth_Cons_0)
    moreover have "?n = (if b then n else if fWorkAvailable m' then fWork m' else None)"
      using w False by simp
    ultimately show ?thesis using r(3) by (metis nth_Cons_0)
  qed
qed

lemma row_effect_internal:
  "row_effect e m m' \<Longrightarrow> internal_event e \<Longrightarrow> \<not> passing_state (regions m' ! 0)"
  using row_internal_not_passing by (fastforce simp: row_effect_def)

definition handlers_ok :: "device_system \<Rightarrow> bool" where
  "handlers_ok s \<longleftrightarrow> (healthy s \<longrightarrow> handler_ok (regions (machine s) ! 0) (next_handler s))"

lemma handlers_ok_still:
  assumes "handlers_ok s" "regions (machine s') = regions (machine s)"
    and "healthy s' \<Longrightarrow> healthy s" "healthy s' \<Longrightarrow> next_handler s' = next_handler s"
  shows "handlers_ok s'"
  using assms by (auto simp: handlers_ok_def)

lemma closing_row:
  "closing_event h = Some e \<Longrightarrow> s \<in> home h \<Longrightarrow> row s e \<noteq> None"
  by (cases h) (auto simp: row_def transition_table_def)

lemma closing_internal: "closing_event h = Some e \<Longrightarrow> internal_event e"
  by (cases h) (auto simp: internal_event_def)

context msm_backend
begin

lemma request_handlers:
  assumes h: "handlers_ok s" and ok: "system_ok s" "held s = None"
    and e: "\<not> internal_event e" "process_event dispatch e (machine s) = Returns (Completed m)"
  shows "handlers_ok (s\<lparr>machine := m\<rparr>)"
proof -
  have mok: "machine_ok (machine s)" and act: "busy (worker_at s) = fWorkActive (machine s)"
    using ok by (auto simp: system_ok_def)
  consider "m = machine s" | "error_effect (machine s) m" | "row_effect e (machine s) m"
    using process_event_effect [OF mok e(2)] by blast
  then show ?thesis
  proof cases
    case 1
    then show ?thesis using h by simp
  next
    case 2
    then show ?thesis by (auto simp: handlers_ok_def healthy_def error_effect_def)
  next
    case 3
    show ?thesis
      unfolding handlers_ok_def
    proof
      assume "healthy (s\<lparr>machine := m\<rparr>)"
      then have "healthy s" using 3 by (auto simp: healthy_def row_effect_def)
      then have "handler_ok (regions (machine s) ! 0) (next_handler s)" using h by (simp add: handlers_ok_def)
      from row_effect_home [OF 3 e(1) this [unfolded next_handler_def] act]
      show "handler_ok (regions (machine (s\<lparr>machine := m\<rparr>)) ! 0) (next_handler (s\<lparr>machine := m\<rparr>))"
        by (simp add: next_handler_def cong: if_cong split del: if_split)
    qed
  qed
qed

lemma close_handlers:
  assumes h: "handlers_ok s" and ok: "system_ok s" "held s = None"
    and w: "busy (worker_at s)" "inside_handler (worker_at s) = Some g"
    and e: "internal_event e" "process_event dispatch e (machine s) = Returns (Completed m)"
    and row: "\<And>st. st \<in> home g \<Longrightarrow> row st e = None \<Longrightarrow> \<not> passing_state st"
  shows "handlers_ok (s\<lparr>machine := m, worker_at := Ending\<rparr>)"
proof -
  have mok: "machine_ok (machine s)" using ok by (simp add: system_ok_def)
  have "\<not> passing_state (regions m ! 0)" if fine: "regions m ! 1 = OK"
  proof -
    have st: "regions (machine s) ! 0 \<in> home g" if "regions (machine s) ! 1 = OK"
      using h w that by (auto simp: handlers_ok_def healthy_def next_handler_def)
    consider "m = machine s" "row (regions (machine s) ! 0) e = None"
      | "row_effect e (machine s) m"
      using process_event_effect [OF mok e(2)] fine e(1) by (auto simp: internal_event_def)
    then show ?thesis
      using row_effect_internal [OF _ e(1)] st row fine by cases auto
  qed
  then show ?thesis by (simp add: handlers_ok_def healthy_def next_handler_def)
qed

lemma resume_handlers:
  assumes h: "handlers_ok s" and ok: "system_ok s" "held s = Some (e, i, t, a)"
    and idle: "\<not> fWorkActive (machine s)"
    and f: "finish_transition (machine s) e i t a = Returns m"
  shows "handlers_ok (s\<lparr>machine := m, held := None\<rparr>)"
proof -
  have tr: "in_transition (machine s) e i t a" using ok by (simp add: system_ok_def)
  then obtain st where st: "regions (machine s) = [st, OK]" "device_state st" "row st e = Some (t, a)"
    and i: "i = 0" and wa: "work_ok (machine s)"
    by (auto simp: in_transition_def regions_ok_def)
  have eff: "row_effect e (machine s) m"
    using finish_transition_effect [of "machine s" e t a m st] f i wa st idle by auto
  have ext: "\<not> internal_event e"
    using tr row_SomeD [OF st(3)]
    by (auto simp: in_transition_def internal_event_def transition_table_def)
  have act: "busy (worker_at s) = fWorkActive (machine s)" using ok by (simp add: system_ok_def)
  show ?thesis
    unfolding handlers_ok_def
  proof
    assume "healthy (s\<lparr>machine := m, held := None\<rparr>)"
    then have "healthy s" using st by (simp add: healthy_def)
    then have "handler_ok (regions (machine s) ! 0) (next_handler s)" using h by (simp add: handlers_ok_def)
    from row_effect_home [OF eff ext this [unfolded next_handler_def] act]
    show "handler_ok (regions (machine (s\<lparr>machine := m, held := None\<rparr>)) ! 0)
            (next_handler (s\<lparr>machine := m, held := None\<rparr>))"
      by (simp add: next_handler_def cong: if_cong split del: if_split)
  qed
qed

lemma step_handlers:
  assumes h: "handlers_ok s" and ok: "system_ok s" and st: "step dispatch s l s'"
  shows "handlers_ok s'"
  using st
proof cases
  case (request e m)
  then show ?thesis using request_handlers [OF h ok] by simp
next
  case (request_waits e m e' i t a)
  then have "m = action_begin a t (machine s)"
    using process_event_waits ok by (auto simp: system_ok_def)
  then show ?thesis using request_waits h
    by (auto intro!: handlers_ok_still [OF h] simp: healthy_def next_handler_def)
next
  case (resume e i t a m)
  then show ?thesis using resume_handlers [OF h ok] by simp
next
  case (take_work g m)
  then show ?thesis
    by (auto intro!: handlers_ok_still [OF h] simp: healthy_def next_handler_def worker_takes_def
        split: if_splits)
next
  case (close g e m)
  have "handlers_ok (s\<lparr>machine := m, worker_at := Ending\<rparr>)"
    by (rule close_handlers [OF h ok, where g = g and e = e])
      (use close closing_row in \<open>auto intro: closing_internal\<close>)
  then show ?thesis using close by simp
next
  case (run_close m)
  have "\<not> passing_state st" if "st \<in> home RunWrapper" for st
    using that by (auto simp: passing_state_def)
  then show ?thesis using close_handlers [OF h ok, of RunWrapper internal_READY m] run_close
    by (auto simp: internal_event_def)
next
  case report_failure
  then show ?thesis by (simp add: handlers_ok_def healthy_def)
next
  case end_work
  then show ?thesis
    by (auto intro!: handlers_ok_still [OF h] simp: healthy_def next_handler_def work_done_def)
next
  case fail
  then show ?thesis by (simp add: handlers_ok_def healthy_def)
next
  case run_not_running
  then show ?thesis using h by (auto simp: handlers_ok_def healthy_def next_handler_def passing_state_def)
next
  case unpause
  then show ?thesis using h by (auto simp: handlers_ok_def healthy_def next_handler_def passing_state_def)
qed (auto intro!: handlers_ok_still [OF h] simp: healthy_def next_handler_def)

lemma reachable_handlers: "reachable dispatch s \<Longrightarrow> handlers_ok s"
proof (induction rule: reachable.induct)
  case reach_start
  show ?case
    by (simp add: handlers_ok_def next_handler_def started_def FairMQStateMachine_def
        initial_state_def passing_state_def)
next
  case (reach_step s l s')
  then show ?case using step_handlers reachable_ok by blast
qed

end

section \<open>Deadlock\<close>

text \<open>A state from which only an exception of user code could lead on.\<close>

definition stuck :: "(State list \<Rightarrow> Event \<Rightarrow> nat option) \<Rightarrow> device_system \<Rightarrow> bool" where
  "stuck d s \<longleftrightarrow> (\<forall>l s'. l \<noteq> Fail \<longrightarrow> \<not> step d s l s')"

lemma no_waiting_row_from_passing:
  "passing_state s \<Longrightarrow> row s e = Some (t, a) \<Longrightarrow> \<not> waits_for_worker a"
  by (drule row_SomeD) (auto simp: transition_table_def passing_state_def)

lemma PAUSED_row: "row PAUSED e = Some (t, a) \<Longrightarrow> t = RUNNING"
  by (drule row_SomeD) (auto simp: transition_table_def)

lemma closing_passing: "closing_event h = Some e \<Longrightarrow> s \<in> home h \<Longrightarrow> passing_state s"
  by (cases h) (auto simp: passing_state_def)

lemma stuckD: "stuck d s \<Longrightarrow> step d s l s' \<Longrightarrow> l = Fail"
  by (auto simp: stuck_def)

lemma held_steps:
  assumes "stuck d s" "system_ok s" "handlers_ok s" "held s = Some (e, i, t, a)"
  shows "worker_at s = Checked"
proof -
  have tr: "in_transition (machine s) e i t a" using assms(2,4) by (simp add: system_ok_def)
  have "fWorkActive (machine s)"
  proof (rule ccontr)
    assume "\<not> fWorkActive (machine s)"
    then show False
      using finish_transition_ok [OF tr] step.resume [OF assms(4)] stuckD [OF assms(1)] by blast
  qed
  then have b: "busy (worker_at s)" using assms(2) by (simp add: system_ok_def)
  obtain st where st: "regions (machine s) = [st, OK]" "row st e = Some (t, a)"
    "waits_for_worker a" "fState (machine s) = t"
    using tr by (auto simp: in_transition_def regions_ok_def)
  have home: "handler_ok st (inside_handler (worker_at s))"
    using assms(3) st b by (auto simp: handlers_ok_def healthy_def next_handler_def)
  show ?thesis
  proof (cases "worker_at s")
    case (Starting h)
    then show ?thesis using step.announce stuckD [OF assms(1)] by blast
  next
    case (Working h)
    have "closing_event h = None"
      using closing_passing [of h _ st] no_waiting_row_from_passing [OF _ st(2)] st(3) home Working
      by (cases "closing_event h") auto
    moreover have "h \<noteq> RunWrapper"
      using Working step.run_still_running step.run_not_running stuckD [OF assms(1)]
      by (metis label.distinct(11))
    moreover have "h \<noteq> PauseWrapper"
      using Working step.unpause stuckD [OF assms(1)] home PAUSED_row st
      by (fastforce simp: CheckCurrentState_def)
    ultimately show ?thesis using home Working by (cases h) auto
  next
    case Ending
    then show ?thesis using step.end_work stuckD [OF assms(1)] by blast
  qed (use b in auto)
qed

lemma Checked_held_no_step:
  "worker_at s = Checked \<Longrightarrow> held s = Some r \<Longrightarrow> fWorkActive (machine s) \<Longrightarrow> \<not> step d s l s'"
  by (auto elim: step.cases)

context msm_backend
begin

lemma free_not_stuck:
  assumes "system_ok s" "held s = None"
  shows "\<not> stuck dispatch s"
proof -
  have "machine_ok (machine s)" using assms by (simp add: system_ok_def)
  from process_event_ok [OF this, of STOP] obtain p where p: "process_event dispatch STOP (machine s) = Returns p"
    by auto
  have "\<exists>s'. step dispatch s (Request STOP) s'"
  proof (cases p)
    case (Completed m)
    then show ?thesis using step.request [OF assms(2), of STOP] p by (auto simp: internal_event_def)
  next
    case (WaitsForWorker m e i t a)
    then show ?thesis using step.request_waits [OF assms(2), of STOP dispatch m e i t a] p
      by (auto simp: internal_event_def)
  qed
  then show ?thesis using stuckD by blast
qed

lemma stuck_at_run_end:
  assumes "reachable dispatch s" "stuck dispatch s"
  shows "worker_at s = Checked \<and> held s \<noteq> None"
proof -
  have ok: "system_ok s" "handlers_ok s" using assms reachable_ok reachable_handlers by auto
  obtain e i t a where h: "held s = Some (e, i, t, a)"
    using free_not_stuck [OF ok(1)] assms(2) by (cases "held s") auto
  then show ?thesis using held_steps [OF assms(2) ok h] by simp
qed

end

section \<open>A cycle of work\<close>

text \<open>
  \<open>at_rest\<close>: the device can be brought to a device state with the worker waiting and no request
  held. One request, followed by the worker's undisturbed run through the handler, leads from
  one such state to the next.
\<close>

definition at_rest :: "(State list \<Rightarrow> Event \<Rightarrow> nat option) \<Rightarrow> State \<Rightarrow> device_system \<Rightarrow> bool" where
  "at_rest d st s \<longleftrightarrow>
     reachable d s \<and> worker_at s = Waiting \<and> held s = None \<and> regions (machine s) = [st, OK] \<and>
     \<not> fWorkerTerminated (machine s)"

definition ready_to_work :: "(State list \<Rightarrow> Event \<Rightarrow> nat option) \<Rightarrow> State \<Rightarrow> handler \<Rightarrow> device_system \<Rightarrow> bool" where
  "ready_to_work d st h s \<longleftrightarrow>
     reachable d s \<and> held s = None \<and> regions (machine s) = [st, OK] \<and>
     \<not> fWorkerTerminated (machine s) \<and> worker_at s = Working h"

lemma reachable_rest_IDLE: "at_rest d IDLE started"
  by (simp add: at_rest_def reach_start)
    (simp add: started_def FairMQStateMachine_def initial_state_def)

lemma take_and_announce:
  assumes "reachable d s" "worker_at s = Waiting" "held s = None" "regions (machine s) = [st, OK]"
    and "\<not> fWorkerTerminated (machine s)" "fWorkAvailable (machine s)" "fWork (machine s) = Some h"
  shows "\<exists>s'. ready_to_work d st h s' \<and> fState (machine s') = fState (machine s)"
proof -
  let ?m = "(machine s)\<lparr>fWorkActive := True\<rparr>"
  let ?s1 = "s\<lparr>machine := ?m, worker_at := Starting h\<rparr>"
  have "worker_takes (machine s) = Some (Some h, ?m)" using assms by (simp add: worker_takes_def)
  then have "reachable d ?s1" using step.take_work assms reach_step by blast
  moreover have "worker_at ?s1 = Starting h" by simp
  ultimately have "reachable d (?s1\<lparr>machine := CallStateChangeCallbacks (announced h) (machine ?s1),
      worker_at := Working h\<rparr>)" using step.announce reach_step by blast
  moreover have "ready_to_work d st h (?s1\<lparr>machine := CallStateChangeCallbacks (announced h) (machine ?s1),
      worker_at := Working h\<rparr>)" using calculation assms by (simp add: ready_to_work_def)
  ultimately show ?thesis by force
qed

lemma finish_and_notify:
  assumes "reachable d s" "worker_at s = Ending" "held s = None" "regions (machine s) = [st, OK]"
    and "\<not> fWorkerTerminated (machine s)"
  shows "\<exists>s'. at_rest d st s'"
proof -
  let ?s1 = "s\<lparr>machine := work_done (machine s), worker_at := Notifying\<rparr>"
  have "reachable d ?s1" using step.end_work assms(1,2) reach_step by blast
  moreover have "worker_at ?s1 = Notifying" by simp
  ultimately have "reachable d (?s1\<lparr>machine := CallStateChangeCallbacks (fState (machine ?s1)) (machine ?s1),
      worker_at := Waiting\<rparr>)" using step.notify reach_step by blast
  then show ?thesis using assms
    by (auto simp: at_rest_def work_done_def intro!: exI)
qed

context msm_backend
begin

lemma rest_request:
  assumes s: "at_rest dispatch st s" and e: "\<not> internal_event e" and r: "row st e = Some (t, DefaultFct)"
  shows "\<exists>m h. process_event dispatch e (machine s) = Returns (Completed m) \<and>
           reachable dispatch (s\<lparr>machine := m\<rparr>) \<and> installed_handlers e = Some h \<and>
           regions m = [t, OK] \<and> fState m = t \<and> \<not> fWorkerTerminated m \<and>
           \<not> fWorkActive m \<and> fWorkAvailable m \<and> fWork m = Some h"
proof -
  have ok: "system_ok s" and held: "held s = None" and rs: "regions (machine s) = [st, OK]"
    and alive: "\<not> fWorkerTerminated (machine s)" and w: "worker_at s = Waiting"
    using s reachable_ok by (auto simp: at_rest_def)
  have mok: "machine_ok (machine s)" and act: "\<not> fWorkActive (machine s)"
    using ok held w by (auto simp: system_ok_def)
  let ?m = "action_begin DefaultFct t (machine s)"
  have "in_transition ?m e 0 t DefaultFct"
    using mok rs r by (auto simp: in_transition_def machine_defs)
  then obtain m where f: "finish_transition ?m e 0 t DefaultFct = Returns m" "fState m = t"
    using finish_transition_ok by blast
  have p: "process_event dispatch e (machine s) = Returns (Completed m)"
    using process_event_device [OF mok rs r] act f by (simp add: map_outcome_result_def)
  have "row_effect e (machine s) m"
  proof (rule row_effect_begin [OF rs r finish_transition_effect [OF f(1)]])
    show "work_ok ?m" using mok by (simp add: machine_defs)
    show "device_state st" using mok rs by (auto simp: machine_ok_def regions_ok_def)
    show "\<not> (waits_for_worker DefaultFct \<and> fWorkActive ?m)" using act by simp
  qed (use rs r in auto)
  then have eff: "regions m = [t, OK] \<and> \<not> fWorkActive m \<and> \<not> fWorkerTerminated m \<and> fWorkAvailable m \<and>
      fWork m = installed_handlers e"
    using rs r act alive by (auto simp: row_effect_def)
  moreover obtain h where "installed_handlers e = Some h" using row_handler [OF r] by auto
  moreover have "reachable dispatch (s\<lparr>machine := m\<rparr>)"
    using step.request [OF held e p] s reach_step by (auto simp: at_rest_def)
  ultimately show ?thesis using p f(2) by auto
qed

lemma rest_cycle:
  assumes s: "at_rest dispatch st s" and e: "\<not> internal_event e" "row st e = Some (t, DefaultFct)"
    and c: "installed_handlers e = Some h" "closing_event h = Some c" "row t c = Some (u, AutomaticFct)"
  shows "\<exists>s'. at_rest dispatch u s'"
proof -
  obtain m where m: "reachable dispatch (s\<lparr>machine := m\<rparr>)" "regions m = [t, OK]"
      "\<not> fWorkerTerminated m" "fWorkAvailable m" "fWork m = Some h"
    using rest_request [OF s e] c(1) by auto
  then obtain s1 where "ready_to_work dispatch t h s1"
    using take_and_announce [of dispatch "s\<lparr>machine := m\<rparr>" t h] s by (auto simp: at_rest_def)
  then have s1: "reachable dispatch s1" "held s1 = None" "regions (machine s1) = [t, OK]"
      "worker_at s1 = Working h" "\<not> fWorkerTerminated (machine s1)"
    by (auto simp: ready_to_work_def)
  have mok: "machine_ok (machine s1)" using reachable_ok [OF s1(1)] s1(2) by (simp add: system_ok_def)
  let ?m = "action_begin AutomaticFct u (machine s1)"
  have p: "process_event dispatch c (machine s1) = Returns (Completed (?m\<lparr>regions := [u, OK]\<rparr>))"
    using process_event_device [OF mok s1(3) c(3)] s1(3)
    by (simp add: map_outcome_result_def finish_transition_def)
  let ?s2 = "s1\<lparr>machine := ?m\<lparr>regions := [u, OK]\<rparr>, worker_at := Ending\<rparr>"
  have "reachable dispatch ?s2" using step.close [OF s1(4) c(2) s1(2) p] s1(1) reach_step by blast
  then show ?thesis using finish_and_notify [of dispatch ?s2 u] s1 by simp
qed

lemma rest_DEVICE_READY: "\<exists>s. at_rest dispatch DEVICE_READY s"
  by (rule rest_cycle [OF reachable_rest_IDLE, of INIT_DEVICE INITIALIZING_DEVICE InitWrapper])
    (auto simp: internal_event_def row_def transition_table_def installed_handlers_def)

lemma rest_READY: "\<exists>s. at_rest dispatch READY s"
proof -
  obtain s where "at_rest dispatch DEVICE_READY s" using rest_DEVICE_READY by blast
  from rest_cycle [OF this, of INIT_TASK INITIALIZING_TASK InitTaskWrapper internal_READY]
  show ?thesis by (auto simp: internal_event_def row_def transition_table_def installed_handlers_def)
qed

end

section \<open>Two races at the edges of \<open>RUNNING\<close>\<close>

lemma row_READY_RUN: "row READY RUN = Some (RUNNING, DefaultFct)"
  and row_RUNNING_STOP: "row RUNNING STOP = Some (READY, StopFct)"
  by (simp_all add: row_def transition_table_def)

context msm_backend
begin

lemma request_RUN:
  "\<exists>s m. at_rest dispatch READY s \<and> reachable dispatch (s\<lparr>machine := m\<rparr>) \<and> regions m = [RUNNING, OK] \<and>
     fState m = RUNNING \<and> \<not> fWorkerTerminated m \<and> \<not> fWorkActive m \<and> fWorkAvailable m \<and>
     fWork m = Some RunWrapper"
proof -
  obtain s where s: "at_rest dispatch READY s" using rest_READY by blast
  from rest_request [OF s _ row_READY_RUN] show ?thesis
    using s by (auto simp: internal_event_def installed_handlers_def)
qed

lemma reachable_deadlock:
  "\<exists>s. reachable dispatch s \<and> held s = Some (STOP, 0, READY, StopFct) \<and> worker_at s = Checked \<and>
     (\<forall>l s'. \<not> step dispatch s l s')"
proof -
  obtain s0 m0 where m0: "at_rest dispatch READY s0" "reachable dispatch (s0\<lparr>machine := m0\<rparr>)"
      "regions m0 = [RUNNING, OK]" "fState m0 = RUNNING" "\<not> fWorkerTerminated m0"
      "fWorkAvailable m0" "fWork m0 = Some RunWrapper"
    using request_RUN by blast
  then obtain s1 where s1: "ready_to_work dispatch RUNNING RunWrapper s1" "fState (machine s1) = RUNNING"
    using take_and_announce [of dispatch "s0\<lparr>machine := m0\<rparr>" RUNNING RunWrapper]
    by (auto simp: at_rest_def)
  let ?s2 = "s1\<lparr>worker_at := Checked\<rparr>"
  have "step dispatch s1 Work ?s2"
    using s1 by (intro step.run_still_running) (auto simp: ready_to_work_def CheckCurrentState_def)
  then have s2: "reachable dispatch ?s2" using s1 reach_step by (auto simp: ready_to_work_def)
  have ok: "system_ok ?s2" using reachable_ok [OF s2] .
  have h: "held ?s2 = None" and rs: "regions (machine ?s2) = [RUNNING, OK]"
    using s1 by (auto simp: ready_to_work_def)
  have mok: "machine_ok (machine ?s2)" and act: "fWorkActive (machine ?s2)"
    using ok h by (auto simp: system_ok_def)
  let ?m = "action_begin StopFct READY (machine ?s2)"
  have p: "process_event dispatch STOP (machine ?s2) = Returns (WaitsForWorker ?m STOP 0 READY StopFct)"
    using process_event_device [OF mok rs row_RUNNING_STOP] act by simp
  let ?s3 = "?s2\<lparr>machine := ?m, held := Some (STOP, 0, READY, StopFct)\<rparr>"
  have "step dispatch ?s2 (Request STOP) ?s3"
    using step.request_waits [OF h _ p] by (simp add: internal_event_def)
  then have "reachable dispatch ?s3" using s2 reach_step by blast
  moreover have "\<not> step dispatch ?s3 l s'" for l s'
    by (rule Checked_held_no_step) (use act in auto)
  ultimately show ?thesis by (intro exI [of _ ?s3]) auto
qed

lemma reachable_run_in_READY:
  "\<exists>s. reachable dispatch s \<and> worker_at s = Working RunWrapper \<and> held s = None \<and>
     fState (machine s) = READY"
proof -
  obtain s0 m0 where m0: "at_rest dispatch READY s0" "reachable dispatch (s0\<lparr>machine := m0\<rparr>)"
      "regions m0 = [RUNNING, OK]" "\<not> fWorkerTerminated m0" "\<not> fWorkActive m0"
      "fWorkAvailable m0" "fWork m0 = Some RunWrapper"
    using request_RUN by blast
  let ?s = "s0\<lparr>machine := m0\<rparr>"
  have h: "held ?s = None" "worker_at ?s = Waiting" using m0 by (auto simp: at_rest_def)
  then have mok: "machine_ok m0" using reachable_ok [OF m0(2)] by (simp add: system_ok_def)
  let ?m = "(action_begin StopFct READY m0)\<lparr>regions := [READY, OK]\<rparr>"
  have p: "process_event dispatch STOP (machine ?s) = Returns (Completed ?m)"
    using process_event_device [OF mok m0(3) row_RUNNING_STOP] m0
    by (simp add: finish_transition_def map_outcome_result_def)
  have "reachable dispatch (?s\<lparr>machine := ?m\<rparr>)"
    using step.request [OF h(1) _ p] m0(2) reach_step by (auto simp: internal_event_def)
  then obtain s1 where "ready_to_work dispatch READY RunWrapper s1" "fState (machine s1) = READY"
    using take_and_announce [of dispatch "?s\<lparr>machine := ?m\<rparr>" READY RunWrapper] m0 h by auto
  then show ?thesis by (auto simp: ready_to_work_def)
qed

end

section \<open>Properties\<close>

text \<open>
  C14. In every reachable interleaving of requests, worker and user code: \<open>fWorkActive\<close> says exactly
  whether the worker is inside a handler, available work has a handler to run, and whenever no
  request is inside a transition the state shown to clients is the one the transition machine is
  in.
\<close>

theorem reachable_consistent:
  assumes "msm_backend d" "reachable d s"
  shows "(fWorkActive (machine s) \<longleftrightarrow> busy (worker_at s)) \<and>
         (fWorkAvailable (machine s) \<longrightarrow> fWork (machine s) \<noteq> None) \<and>
         (held s = None \<longrightarrow> GetCurrentState (machine s) = shown_state (regions (machine s)))"
  using msm_backend.reachable_ok [OF assms] system_ok_work [of s]
  by (auto simp: system_ok_def machine_ok_def GetCurrentState_def work_ok_def)

theorem reachable_consistent_witness:
  "GetCurrentState (machine started) = shown_state (regions (machine started)) \<and>
   fWorkActive (machine started) = busy (worker_at started)"
  using reachable_consistent [OF rtc.msm_backend_axioms reach_start] by (simp add: started_def)





text \<open>
  C38. That halt is reachable: a \<open>STOP\<close> that arrives between the test for \<open>RUNNING\<close> at the end of
  \<open>RunWrapper\<close> and its request for \<open>internal_READY\<close> leaves both threads waiting for each other for
  ever.
\<close>

theorem STOP_at_run_end_deadlocks:
  assumes "msm_backend d"
  shows "\<exists>s. reachable d s \<and> held s = Some (STOP, 0, READY, StopFct) \<and> worker_at s = Checked \<and>
           (\<forall>l s'. \<not> step d s l s')"
  using assms by (rule msm_backend.reachable_deadlock)

theorem STOP_at_run_end_deadlocks_witness:
  "\<exists>s. reachable run_to_completion s \<and> worker_at s = Checked \<and> (\<forall>l s'. \<not> step run_to_completion s l s')"
  using STOP_at_run_end_deadlocks [OF rtc.msm_backend_axioms] by blast

text \<open>
  A \<open>STOP\<close> that arrives before the worker has taken up the work of a \<open>RUN\<close> returns at once and
  does not withdraw the work: \<open>RunWrapper\<close> then runs while the device shows \<open>READY\<close>.
\<close>

theorem RunWrapper_runs_in_READY:
  assumes "msm_backend d"
  shows "\<exists>s. reachable d s \<and> worker_at s = Working RunWrapper \<and> held s = None \<and>
           GetCurrentState (machine s) = READY"
  using msm_backend.reachable_run_in_READY [OF assms] by (simp add: GetCurrentState_def)

theorem RunWrapper_runs_in_READY_witness:
  "\<exists>s. reachable run_to_completion s \<and> worker_at s = Working RunWrapper \<and>
       GetCurrentState (machine s) = READY"
  using RunWrapper_runs_in_READY [OF rtc.msm_backend_axioms] by blast

end
