(* ===== verification/Event_Manager.thy ===== *)
theory Event_Manager
  imports FairMQ_Prelude
begin

text \<open>
  The event manager of \<open>fairmq/EventManager.h\<close>: callbacks registered per subscriber and event,
  and called when the event is emitted. A key of type \<open>'k\<close> stands for the pair of type indices
  that the templates compute from the event type and the callback signature; a callback is any
  value of type \<open>'c\<close>. A connection of \<open>boost::signals2\<close> is the signal it belongs to and a handle,
  and the handle of a new connection is chosen by the parameter \<open>fresh\<close>, of which only that it
  differs from the handles of the signal's connected slots is used.
\<close>

section \<open>The event manager\<close>

type_synonym 'c slots = "(nat \<times> 'c) list"

record ('k, 'c) EventManager =
  fSignals :: "'k \<rightharpoonup> 'c slots"
  fConnections :: "string \<times> 'k \<rightharpoonup> nat"

definition new_EventManager :: "('k, 'c) EventManager" where
  "new_EventManager = \<lparr>fSignals = Map.empty, fConnections = Map.empty\<rparr>"

definition GetSignal :: "'k \<Rightarrow> ('k, 'c) EventManager \<Rightarrow> 'c slots \<times> ('k, 'c) EventManager" where
  "GetSignal k m =
     (case fSignals m k of
        Some sig \<Rightarrow> (sig, m)
      | None \<Rightarrow> ([], m\<lparr>fSignals := (fSignals m)(k \<mapsto> [])\<rparr>))"

definition slots_of :: "('k, 'c) EventManager \<Rightarrow> 'k \<Rightarrow> 'c slots" where
  "slots_of m k = fst (GetSignal k m)"

definition disconnect :: "'k \<Rightarrow> nat \<Rightarrow> ('k, 'c) EventManager \<Rightarrow> ('k, 'c) EventManager" where
  "disconnect k c m =
     m\<lparr>fSignals := (fSignals m)(k \<mapsto> filter (\<lambda>slot. fst slot \<noteq> c) (slots_of m k))\<rparr>"

definition Subscribe ::
    "(nat list \<Rightarrow> nat) \<Rightarrow> 'k \<Rightarrow> string \<Rightarrow> 'c \<Rightarrow> ('k, 'c) EventManager \<Rightarrow> ('k, 'c) EventManager" where
  "Subscribe fresh k subscriber callback m =
     (let (sig, m1) = GetSignal k m;
          connection = fresh (map fst sig);
          m2 = m1\<lparr>fSignals := (fSignals m1)(k \<mapsto> sig @ [(connection, callback)])\<rparr>;
          m3 = (case fConnections m2 (subscriber, k) of
                  Some old \<Rightarrow>
                    (disconnect k old m2)\<lparr>fConnections := (fConnections m2)((subscriber, k) := None)\<rparr>
                | None \<Rightarrow> m2)
      in m3\<lparr>fConnections := (fConnections m3)((subscriber, k) \<mapsto> connection)\<rparr>)"

definition Unsubscribe ::
    "'k \<Rightarrow> string \<Rightarrow> ('k, 'c) EventManager \<Rightarrow> ('k, 'c) EventManager outcome" where
  "Unsubscribe k subscriber m =
     and_then (map_at (fConnections m) (subscriber, k))
       (\<lambda>c. Returns ((disconnect k c m)\<lparr>fConnections := (fConnections m)((subscriber, k) := None)\<rparr>))"

text \<open>The callbacks that an emission calls, in their order, and the manager afterwards.\<close>

definition Emit :: "'k \<Rightarrow> ('k, 'c) EventManager \<Rightarrow> 'c list \<times> ('k, 'c) EventManager" where
  "Emit k m = (let (sig, m1) = GetSignal k m in (map snd sig, m1))"

section \<open>The contract of a registry of subscriptions\<close>

text \<open>
  What the users of such a registry rely on: one callback per subscriber, the last one subscribed;
  an emission calls each of them once.
\<close>

locale subscription_registry =
  fixes ok :: "'m \<Rightarrow> bool"
    and subscribe :: "string \<Rightarrow> 'c \<Rightarrow> 'm \<Rightarrow> 'm"
    and unsubscribe :: "string \<Rightarrow> 'm \<Rightarrow> 'm outcome"
    and receivers :: "'m \<Rightarrow> 'c list"
    and subscribed :: "'m \<Rightarrow> string \<rightharpoonup> 'c"
  assumes ok_subscribe: "ok m \<Longrightarrow> ok (subscribe s c m)"
    and subscribed_subscribe: "ok m \<Longrightarrow> subscribed (subscribe s c m) = (subscribed m)(s \<mapsto> c)"
    and unsubscribe_Some:
      "ok m \<Longrightarrow> subscribed m s \<noteq> None \<Longrightarrow>
         \<exists>m'. unsubscribe s m = Returns m' \<and> ok m' \<and> subscribed m' = (subscribed m)(s := None)"
    and unsubscribe_None: "ok m \<Longrightarrow> subscribed m s = None \<Longrightarrow> unsubscribe s m = Throws OutOfRange"
    and receivers_set: "ok m \<Longrightarrow> set (receivers m) = ran (subscribed m)"
    and receivers_length: "ok m \<Longrightarrow> length (receivers m) = card (dom (subscribed m))"
begin

lemma receives_last: "ok m \<Longrightarrow> c \<in> set (receivers (subscribe s c m))"
  by (simp add: receivers_set ok_subscribe subscribed_subscribe ranI [of _ s])

lemma subscribe_twice_length:
  "ok m \<Longrightarrow> length (receivers (subscribe s c' (subscribe s c m))) = length (receivers (subscribe s c m))"
  by (simp add: receivers_length ok_subscribe subscribed_subscribe)

lemma subscribe_unsubscribe_silent:
  assumes "ok m" "subscribed m s = None"
  shows "\<exists>m'. unsubscribe s (subscribe s c m) = Returns m' \<and> subscribed m' = subscribed m \<and>
           length (receivers m') = length (receivers m)"
proof -
  have "subscribed (subscribe s c m) s \<noteq> None" using assms by (simp add: subscribed_subscribe)
  from unsubscribe_Some [OF ok_subscribe [OF assms(1)] this]
  obtain m' where m': "unsubscribe s (subscribe s c m) = Returns m'" "ok m'"
      "subscribed m' = (subscribed (subscribe s c m))(s := None)" by auto
  then have "subscribed m' = subscribed m" using assms by (auto simp: subscribed_subscribe)
  then show ?thesis using m' assms by (simp add: receivers_length)
qed

end

section \<open>The event manager keeps the contract\<close>

definition handles :: "('k, 'c) EventManager \<Rightarrow> 'k \<Rightarrow> nat list" where
  "handles m k = map fst (slots_of m k)"

text \<open>Every connected slot belongs to exactly one subscriber, and the other way round.\<close>

definition manager_ok :: "('k, 'c) EventManager \<Rightarrow> bool" where
  "manager_ok m \<longleftrightarrow>
     (\<forall>k. distinct (handles m k)) \<and>
     (\<forall>k c. c \<in> set (handles m k) \<longleftrightarrow> (\<exists>s. fConnections m (s, k) = Some c)) \<and>
     (\<forall>k s s' c. fConnections m (s, k) = Some c \<longrightarrow> fConnections m (s', k) = Some c \<longrightarrow> s = s')"

definition subscribed_callback :: "'k \<Rightarrow> ('k, 'c) EventManager \<Rightarrow> string \<rightharpoonup> 'c" where
  "subscribed_callback k m s =
     (case fConnections m (s, k) of None \<Rightarrow> None | Some c \<Rightarrow> map_of (slots_of m k) c)"

locale signals2 =
  fixes fresh :: "nat list \<Rightarrow> nat"
  assumes fresh_handle: "fresh cs \<notin> set cs"

definition next_handle :: "nat list \<Rightarrow> nat" where
  "next_handle cs = Suc (fold max cs 0)"

lemma fold_max_mono: "a \<le> fold max cs (a :: nat)"
  by (induction cs arbitrary: a) (auto intro: order_trans [OF max.cobounded2])

lemma fold_max_ge: "c \<in> set cs \<Longrightarrow> c \<le> fold max cs (a :: nat)"
proof (induction cs arbitrary: a)
  case (Cons d cs)
  then show ?case using fold_max_mono [of "max d a" cs] by (auto intro: order_trans [OF max.cobounded1])
qed simp

interpretation counting: signals2 next_handle
proof
  fix cs
  show "next_handle cs \<notin> set cs" using fold_max_ge [of "next_handle cs" cs 0] by (auto simp: next_handle_def)
qed

lemma new_EventManager_ok: "manager_ok new_EventManager"
  by (simp add: manager_ok_def new_EventManager_def handles_def slots_of_def GetSignal_def)

lemma slots_of_alt: "slots_of m k = (case fSignals m k of Some sig \<Rightarrow> sig | None \<Rightarrow> [])"
  by (simp add: slots_of_def GetSignal_def split: option.splits)

lemma slots_of_disconnect:
  "slots_of (disconnect k c m) k' = (if k' = k then filter (\<lambda>sl. fst sl \<noteq> c) (slots_of m k) else slots_of m k')"
  by (simp add: slots_of_alt disconnect_def)

lemma map_of_filter_fst:
  "map_of (filter (\<lambda>sl. fst sl \<noteq> c) xs) c' = (if c' = c then None else map_of xs c')"
  by (induction xs) auto

lemma filter_fst_fresh: "c \<notin> fst ` set xs \<Longrightarrow> filter (\<lambda>sl. fst sl \<noteq> c) xs = xs"
  by (induction xs) auto

lemma map_fst_filter: "map fst (filter (\<lambda>sl. fst sl \<noteq> c) xs) = filter (\<lambda>d. d \<noteq> c) (map fst xs)"
  by (induction xs) auto

text \<open>The slots and connections after a subscription and after its end.\<close>

lemma Subscribe_connections:
  "fConnections (Subscribe fresh k s cb m) =
     (fConnections m)((s, k) \<mapsto> fresh (handles m k))"
  by (auto simp: Subscribe_def GetSignal_def handles_def slots_of_alt Let_def disconnect_def
      split: option.splits prod.splits)

lemma Subscribe_slots:
  assumes "manager_ok m" "fresh (handles m k) \<notin> set (handles m k)"
  shows "slots_of (Subscribe fresh k s cb m) k' =
     (if k' = k
      then (case fConnections m (s, k) of
              Some old \<Rightarrow> filter (\<lambda>sl. fst sl \<noteq> old) (slots_of m k)
            | None \<Rightarrow> slots_of m k) @ [(fresh (handles m k), cb)]
      else slots_of m k')"
proof (cases "fConnections m (s, k)")
  case None
  then show ?thesis
    by (auto simp: Subscribe_def GetSignal_def handles_def slots_of_alt Let_def
        split: option.splits prod.splits)
next
  case (Some old)
  then have "old \<in> set (handles m k)" using assms(1) by (auto simp: manager_ok_def)
  then have "old \<noteq> fresh (handles m k)" using assms(2) by auto
  then show ?thesis using Some
    by (auto simp: Subscribe_def GetSignal_def handles_def slots_of_alt Let_def disconnect_def
        split: option.splits prod.splits)
qed

lemma Subscribe_handles:
  assumes "manager_ok m" "fresh (handles m k) \<notin> set (handles m k)"
  shows "handles (Subscribe fresh k s cb m) k' =
     (if k' = k
      then (case fConnections m (s, k) of
              Some old \<Rightarrow> filter (\<lambda>d. d \<noteq> old) (handles m k)
            | None \<Rightarrow> handles m k) @ [fresh (handles m k)]
      else handles m k')"
  using Subscribe_slots [where fresh = fresh and k = k, OF assms] by (auto simp: handles_def map_fst_filter split: option.splits)

lemma manager_okD:
  assumes "manager_ok m"
  shows "distinct (handles m k)"
    and "c \<in> set (handles m k) \<longleftrightarrow> (\<exists>s. fConnections m (s, k) = Some c)"
    and "fConnections m (s, k) = Some c \<Longrightarrow> fConnections m (s', k) = Some c \<Longrightarrow> s = s'"
  using assms by (auto simp: manager_ok_def)

lemma manager_okI:
  assumes "\<And>k. distinct (handles m k)"
    and "\<And>k c. c \<in> set (handles m k) \<longleftrightarrow> (\<exists>s. fConnections m (s, k) = Some c)"
    and "\<And>k s s' c. fConnections m (s, k) = Some c \<Longrightarrow> fConnections m (s', k) = Some c \<Longrightarrow> s = s'"
  shows "manager_ok m"
  using assms by (auto simp: manager_ok_def)

lemma Subscribe_ok:
  assumes m: "manager_ok m" and f: "fresh (handles m k) \<notin> set (handles m k)"
  shows "manager_ok (Subscribe fresh k s cb m)"
proof (rule manager_okI)
  note ok = manager_okD [OF m]
  note h = Subscribe_handles [where fresh = fresh and k = k, OF m f, of s cb] and c = Subscribe_connections [of fresh k s cb m]
  have nof: "fConnections m (s', k) \<noteq> Some (fresh (handles m k))" for s'
    using f ok(2) by blast
  show "distinct (handles (Subscribe fresh k s cb m) k')" for k'
    using ok(1) f by (auto simp: h split: option.splits)
  show "d \<in> set (handles (Subscribe fresh k s cb m) k') \<longleftrightarrow>
      (\<exists>s'. fConnections (Subscribe fresh k s cb m) (s', k') = Some d)" for d k'
  proof (cases "k' = k")
    case True
    have ex: "(\<exists>s'. fConnections (Subscribe fresh k s cb m) (s', k) = Some d) \<longleftrightarrow>
        d = fresh (handles m k) \<or> (\<exists>s'. s' \<noteq> s \<and> fConnections m (s', k) = Some d)"
      by (auto simp: c)
    have "d \<in> set (handles (Subscribe fresh k s cb m) k) \<longleftrightarrow>
        d = fresh (handles m k) \<or> d \<in> set (handles m k) \<and> fConnections m (s, k) \<noteq> Some d"
      by (cases "fConnections m (s, k)") (auto simp: h)
    moreover have "d \<in> set (handles m k) \<and> fConnections m (s, k) \<noteq> Some d \<longleftrightarrow>
        (\<exists>s'. s' \<noteq> s \<and> fConnections m (s', k) = Some d)"
      by (metis ok(2) ok(3))
    ultimately show ?thesis using True ex by blast
  qed (use ok(2) in \<open>simp add: h c\<close>)
  show "s1 = s2" if "fConnections (Subscribe fresh k s cb m) (s1, k') = Some d"
    "fConnections (Subscribe fresh k s cb m) (s2, k') = Some d" for k' s1 s2 d
    using that ok(3) [of s1 k' d s2] nof by (auto simp: c split: if_splits)
qed

lemma Subscribe_subscribed:
  assumes m: "manager_ok m" and f: "fresh (handles m k) \<notin> set (handles m k)"
  shows "subscribed_callback k (Subscribe fresh k s cb m) = (subscribed_callback k m)(s \<mapsto> cb)"
proof (rule ext)
  fix s'
  let ?c = "fresh (handles m k)"
  have none: "map_of (slots_of m k) ?c = None" using f by (simp add: handles_def map_of_eq_None_iff)
  show "subscribed_callback k (Subscribe fresh k s cb m) s' = ((subscribed_callback k m)(s \<mapsto> cb)) s'"
  proof (cases "s' = s")
    case True
    then show ?thesis using none
      by (auto simp: subscribed_callback_def Subscribe_connections Subscribe_slots [where fresh = fresh and k = k, OF m f]
          map_add_def map_of_filter_fst split: option.splits)
  next
    case False
    have "c \<noteq> ?c" if "fConnections m (s', k) = Some c" for c
      using that f manager_okD(2) [OF m] by auto
    moreover have "c \<noteq> old" if "fConnections m (s', k) = Some c" "fConnections m (s, k) = Some old" for c old
      using that False manager_okD(3) [OF m, of s k old s'] by auto
    ultimately show ?thesis using False
      by (auto simp: subscribed_callback_def Subscribe_connections Subscribe_slots [where fresh = fresh and k = k, OF m f]
          map_add_def map_of_filter_fst split: option.splits)
  qed
qed

lemma Unsubscribe_Some:
  assumes m: "manager_ok m" and c: "fConnections m (s, k) = Some c"
  shows "\<exists>m'. Unsubscribe k s m = Returns m' \<and> manager_ok m' \<and>
           subscribed_callback k m' = (subscribed_callback k m)(s := None) \<and>
           (\<forall>k'. k' \<noteq> k \<longrightarrow> slots_of m' k' = slots_of m k')"
proof -
  let ?m = "(disconnect k c m)\<lparr>fConnections := (fConnections m)((s, k) := None)\<rparr>"
  note ok = manager_okD [OF m]
  have sl: "slots_of ?m k' = (if k' = k then filter (\<lambda>sl. fst sl \<noteq> c) (slots_of m k) else slots_of m k')" for k'
    by (simp add: slots_of_alt disconnect_def)
  have h: "handles ?m k' = (if k' = k then filter (\<lambda>d. d \<noteq> c) (handles m k) else handles m k')" for k'
    by (auto simp: handles_def sl map_fst_filter)
  have "manager_ok ?m"
  proof (rule manager_okI)
    show "distinct (handles ?m k')" for k' using ok(1) by (simp add: h)
    show "d \<in> set (handles ?m k') \<longleftrightarrow> (\<exists>s'. fConnections ?m (s', k') = Some d)" for d k'
    proof (cases "k' = k")
      case True
      have "d \<in> set (handles m k) \<and> d \<noteq> c \<longleftrightarrow> (\<exists>s'. s' \<noteq> s \<and> fConnections m (s', k) = Some d)"
        by (metis ok(2) ok(3) c option.inject)
      then show ?thesis using True by (auto simp: h)
    next
      case False
      then show ?thesis using ok(2) by (simp add: h)
    qed
    show "s1 = s2" if "fConnections ?m (s1, k') = Some d" "fConnections ?m (s2, k') = Some d" for k' s1 s2 d
      using that ok(3) [of s1 k' d s2] by (auto split: if_splits)
  qed
  moreover have "subscribed_callback k ?m = (subscribed_callback k m)(s := None)"
  proof (rule ext)
    fix s'
    have "d \<noteq> c" if "fConnections m (s', k) = Some d" "s' \<noteq> s" for d
      using that ok(3) [of s' k d s] c by auto
    then show "subscribed_callback k ?m s' = ((subscribed_callback k m)(s := None)) s'"
      by (auto simp: subscribed_callback_def sl map_of_filter_fst split: option.splits)
  qed
  moreover have "Unsubscribe k s m = Returns ?m" using c by (simp add: Unsubscribe_def map_at_def)
  ultimately show ?thesis using sl by auto
qed

lemma Unsubscribe_None: "fConnections m (s, k) = None \<Longrightarrow> Unsubscribe k s m = Throws OutOfRange"
  by (simp add: Unsubscribe_def map_at_def)

lemma subscribed_iff:
  assumes "manager_ok m"
  shows "subscribed_callback k m s = None \<longleftrightarrow> fConnections m (s, k) = None"
proof (cases "fConnections m (s, k)")
  case (Some c)
  then have "c \<in> fst ` set (slots_of m k)" using manager_okD(2) [OF assms, of c k] by (auto simp: handles_def)
  then show ?thesis using Some by (simp add: subscribed_callback_def map_of_eq_None_iff)
qed (simp add: subscribed_callback_def)

lemma receivers_ran:
  assumes m: "manager_ok m"
  shows "set (fst (Emit k m)) = ran (subscribed_callback k m)"
proof -
  have d: "distinct (map fst (slots_of m k))" using manager_okD(1) [OF m, of k] by (simp add: handles_def)
  have e: "set (fst (Emit k m)) = snd ` set (slots_of m k)" by (auto simp: Emit_def slots_of_def Let_def split: prod.splits)
  show ?thesis
  proof (intro equalityI subsetI)
    fix cb assume "cb \<in> set (fst (Emit k m))"
    then obtain c where c: "(c, cb) \<in> set (slots_of m k)" using e by auto
    then have "c \<in> set (handles m k)" by (force simp: handles_def)
    then obtain s where "fConnections m (s, k) = Some c" using manager_okD(2) [OF m] by blast
    then show "cb \<in> ran (subscribed_callback k m)"
      using c d by (auto simp: subscribed_callback_def intro!: ranI [of _ s])
  next
    fix cb assume "cb \<in> ran (subscribed_callback k m)"
    then obtain c where "map_of (slots_of m k) c = Some cb"
      by (auto simp: ran_def subscribed_callback_def split: option.splits)
    then show "cb \<in> set (fst (Emit k m))" using e map_of_SomeD by force
  qed
qed

lemma receivers_card:
  assumes m: "manager_ok m"
  shows "length (fst (Emit k m)) = card (dom (subscribed_callback k m))"
proof -
  let ?f = "\<lambda>s. the (fConnections m (s, k))"
  have dom: "dom (subscribed_callback k m) = {s. fConnections m (s, k) \<noteq> None}"
    using subscribed_iff [OF m, of k] by (auto simp: dom_def)
  have "inj_on ?f (dom (subscribed_callback k m))"
    using manager_okD(3) [OF m] by (auto simp: dom inj_on_def)
  moreover have "?f ` dom (subscribed_callback k m) = set (handles m k)"
    using manager_okD(2) [OF m, of _ k] by (force simp: dom image_iff)
  ultimately have "card (dom (subscribed_callback k m)) = card (set (handles m k))"
    by (metis card_image)
  also have "\<dots> = length (handles m k)" using manager_okD(1) [OF m] by (rule distinct_card)
  also have "\<dots> = length (fst (Emit k m))"
    by (simp add: handles_def Emit_def slots_of_def Let_def split: prod.splits)
  finally show ?thesis ..
qed

sublocale signals2 \<subseteq> manager: subscription_registry manager_ok "Subscribe fresh k" "Unsubscribe k"
    "\<lambda>m. fst (Emit k m)" "subscribed_callback k" for k
proof (standard, goal_cases)
  case (1 m s c)
  then show ?case using fresh_handle by (rule Subscribe_ok)
next
  case (2 m s c)
  then show ?case using fresh_handle by (rule Subscribe_subscribed)
next
  case (3 m s)
  then show ?case using Unsubscribe_Some [of m s k] subscribed_iff [of m k s] by fastforce
next
  case (4 m s)
  then show ?case using subscribed_iff [of m k s] by (simp add: Unsubscribe_None)
next
  case (5 m)
  then show ?case by (rule receivers_ran)
next
  case (6 m)
  then show ?case by (rule receivers_card)
qed

section \<open>Properties\<close>

text \<open>
  C24. The event manager has no leaking subscriptions: subscribing makes the new callback the one
  callback of its subscriber, replacing an older one; unsubscribing removes it, and throws
  \<open>std::out_of_range\<close> where there is none; and an emission calls the current callback of each
  subscriber once.
\<close>

theorem EventManager_contract:
  assumes "signals2 fresh" "manager_ok m"
  shows "manager_ok (Subscribe fresh k s c m) \<and>
     subscribed_callback k (Subscribe fresh k s c m) = (subscribed_callback k m)(s \<mapsto> c) \<and>
     (case Unsubscribe k s m of
        Returns m' \<Rightarrow> subscribed_callback k m s \<noteq> None \<and> manager_ok m' \<and>
          subscribed_callback k m' = (subscribed_callback k m)(s := None)
      | Throws x \<Rightarrow> subscribed_callback k m s = None \<and> x = OutOfRange
      | _ \<Rightarrow> False) \<and>
     set (fst (Emit k m)) = ran (subscribed_callback k m) \<and>
     length (fst (Emit k m)) = card (dom (subscribed_callback k m))"
proof -
  have f: "fresh (handles m k) \<notin> set (handles m k)" using assms(1) by (rule signals2.fresh_handle)
  have "case Unsubscribe k s m of
        Returns m' \<Rightarrow> subscribed_callback k m s \<noteq> None \<and> manager_ok m' \<and>
          subscribed_callback k m' = (subscribed_callback k m)(s := None)
      | Throws x \<Rightarrow> subscribed_callback k m s = None \<and> x = OutOfRange
      | _ \<Rightarrow> False"
    using Unsubscribe_Some [OF assms(2), of s k] Unsubscribe_None [of m s k] subscribed_iff [OF assms(2), of k s]
    by (cases "fConnections m (s, k)") auto
  then show ?thesis
    using Subscribe_ok [where fresh = fresh and k = k, OF assms(2) f]
      Subscribe_subscribed [where fresh = fresh and k = k, OF assms(2) f] receivers_ran [OF assms(2)]
      receivers_card [OF assms(2)] by simp
qed

theorem EventManager_contract_witness:
  "subscribed_callback (0::nat) (Subscribe next_handle 0 ''plugin'' (7::nat) new_EventManager) ''plugin'' = Some 7 \<and>
   fst (Emit (0::nat) (Subscribe next_handle 0 ''plugin'' (8::nat)
      (Subscribe next_handle 0 ''plugin'' 7 new_EventManager))) = [8]"
  using EventManager_contract [OF counting.signals2_axioms new_EventManager_ok, of "0::nat" "''plugin''" "7::nat"]
  by (simp add: Subscribe_def Emit_def GetSignal_def new_EventManager_def next_handle_def disconnect_def
      slots_of_def)

end
