(* ===== verification/State_Machine.thy ===== *)
theory State_Machine
  imports Event_Manager
begin

text \<open>
  The queued state machine of \<open>fairmq/StateMachine.{h,cxx}\<close>. Clients queue states with
  \<open>ChangeState\<close>; one thread in \<open>Run\<close> takes them from the queue and announces them. Both hold
  \<open>fMutex\<close> while they work on the queue, so that an execution is a sequence of whole
  \<open>ChangeState\<close> calls and whole rounds of the loop in \<open>Run\<close>. The callbacks are in an event
  manager; \<open>delivered\<close> records what they were called with.
\<close>

section \<open>States, transitions and their names\<close>

datatype SMState =
    Ok
  | Error
  | Idle
  | InitializingDevice
  | DeviceReady
  | InitializingTask
  | Ready
  | Running
  | ResettingTask
  | ResettingDevice
  | Exiting

datatype StateTransition =
    InitDevice
  | InitTask
  | Run
  | Stop
  | ResetTask
  | ResetDevice
  | End
  | ErrorFound
  | Automatic

definition fkStateStrMap :: "(string \<times> SMState) list" where
  "fkStateStrMap =
    [(''OK'', Ok),
     (''ERROR'', Error),
     (''IDLE'', Idle),
     (''INITIALIZING DEVICE'', InitializingDevice),
     (''DEVICE READY'', DeviceReady),
     (''INITIALIZING TASK'', InitializingTask),
     (''READY'', Ready),
     (''RUNNING'', Running),
     (''RESETTING TASK'', ResettingTask),
     (''RESETTING DEVICE'', ResettingDevice),
     (''EXITING'', Exiting)]"

definition fkStrStateMap :: "(SMState \<times> string) list" where
  "fkStrStateMap =
    [(Ok, ''OK''),
     (Error, ''ERROR''),
     (Idle, ''IDLE''),
     (InitializingDevice, ''INITIALIZING DEVICE''),
     (DeviceReady, ''DEVICE READY''),
     (InitializingTask, ''INITIALIZING TASK''),
     (Ready, ''READY''),
     (Running, ''RUNNING''),
     (ResettingTask, ''RESETTING TASK''),
     (ResettingDevice, ''RESETTING DEVICE''),
     (Exiting, ''EXITING'')]"

definition fkStateTransitionStrMap :: "(string \<times> StateTransition) list" where
  "fkStateTransitionStrMap =
    [(''INIT DEVICE'', InitDevice),
     (''INIT TASK'', InitTask),
     (''RUN'', Run),
     (''STOP'', Stop),
     (''RESET TASK'', ResetTask),
     (''RESET DEVICE'', ResetDevice),
     (''END'', End),
     (''ERROR FOUND'', ErrorFound),
     (''AUTOMATIC'', Automatic)]"

definition fkStrStateTransitionMap :: "(StateTransition \<times> string) list" where
  "fkStrStateTransitionMap =
    [(InitDevice, ''INIT DEVICE''),
     (InitTask, ''INIT TASK''),
     (Run, ''RUN''),
     (Stop, ''STOP''),
     (ResetTask, ''RESET TASK''),
     (ResetDevice, ''RESET DEVICE''),
     (End, ''END''),
     (ErrorFound, ''ERROR FOUND''),
     (Automatic, ''AUTOMATIC'')]"

definition ToState :: "string \<Rightarrow> SMState outcome" where
  "ToState s = map_at (map_of fkStateStrMap) s"

definition ToStateTransition :: "string \<Rightarrow> StateTransition outcome" where
  "ToStateTransition s = map_at (map_of fkStateTransitionStrMap) s"

definition ToStr_state :: "SMState \<Rightarrow> string outcome" where
  "ToStr_state s = map_at (map_of fkStrStateMap) s"

definition ToStr_transition :: "StateTransition \<Rightarrow> string outcome" where
  "ToStr_transition t = map_at (map_of fkStrStateTransitionMap) t"

section \<open>The table\<close>

fun Transition :: "SMState \<Rightarrow> StateTransition \<Rightarrow> SMState outcome" where
  "Transition Idle t =
     (if t = InitDevice then Returns InitializingDevice
      else if t = End then Returns Exiting
      else Throws IllegalTransition)"
| "Transition InitializingDevice t =
     (if t = Automatic then Returns DeviceReady else Throws IllegalTransition)"
| "Transition DeviceReady t =
     (if t = InitTask then Returns InitializingTask
      else if t = ResetDevice then Returns ResettingDevice
      else Throws IllegalTransition)"
| "Transition InitializingTask t =
     (if t = Automatic then Returns Ready else Throws IllegalTransition)"
| "Transition Ready t =
     (if t = Run then Returns Running
      else if t = ResetTask then Returns ResettingTask
      else Throws IllegalTransition)"
| "Transition Running t =
     (if t = Stop then Returns Ready else Throws IllegalTransition)"
| "Transition ResettingTask t =
     (if t = Automatic then Returns DeviceReady else Throws IllegalTransition)"
| "Transition ResettingDevice t =
     (if t = Automatic then Returns Idle else Throws IllegalTransition)"
| "Transition Exiting t = Throws IllegalTransition"
| "Transition Ok t =
     (if t = ErrorFound then Returns Error else Throws IllegalTransition)"
| "Transition Error t = Throws IllegalTransition"

section \<open>The machine\<close>

datatype sm_event = StateChange | StateQueued

record 'c StateMachine =
  sm_fState :: SMState
  sm_fErrorState :: SMState
  sm_fNextStates :: "SMState list"
  sm_fCallbacks :: "(sm_event, 'c) EventManager"
  delivered :: "(sm_event \<times> 'c \<times> SMState \<times> SMState) list"

definition new_StateMachine :: "'c StateMachine" where
  "new_StateMachine =
     \<lparr>sm_fState = Idle, sm_fErrorState = Ok, sm_fNextStates = [],
      sm_fCallbacks = new_EventManager, delivered = []\<rparr>"

definition emit :: "sm_event \<Rightarrow> SMState \<Rightarrow> SMState \<Rightarrow> 'c StateMachine \<Rightarrow> 'c StateMachine" where
  "emit k new old m =
     (let (cbs, em) = Emit k (sm_fCallbacks m) in
      m\<lparr>sm_fCallbacks := em, delivered := delivered m @ map (\<lambda>cb. (k, cb, new, old)) cbs\<rparr>)"

definition SubscribeToStateChange_sm ::
    "(nat list \<Rightarrow> nat) \<Rightarrow> string \<Rightarrow> 'c \<Rightarrow> 'c StateMachine \<Rightarrow> 'c StateMachine" where
  "SubscribeToStateChange_sm fresh subscriber cb m =
     m\<lparr>sm_fCallbacks := Subscribe fresh StateChange subscriber cb (sm_fCallbacks m)\<rparr>"

definition UnsubscribeFromStateChange_sm :: "string \<Rightarrow> 'c StateMachine \<Rightarrow> 'c StateMachine outcome" where
  "UnsubscribeFromStateChange_sm subscriber m =
     map_outcome_result (\<lambda>em. m\<lparr>sm_fCallbacks := em\<rparr>) (Unsubscribe StateChange subscriber (sm_fCallbacks m))"

definition SubscribeToStateQueued ::
    "(nat list \<Rightarrow> nat) \<Rightarrow> string \<Rightarrow> 'c \<Rightarrow> 'c StateMachine \<Rightarrow> 'c StateMachine" where
  "SubscribeToStateQueued fresh subscriber cb m =
     m\<lparr>sm_fCallbacks := Subscribe fresh StateQueued subscriber cb (sm_fCallbacks m)\<rparr>"

definition UnsubscribeFromStateQueued :: "string \<Rightarrow> 'c StateMachine \<Rightarrow> 'c StateMachine outcome" where
  "UnsubscribeFromStateQueued subscriber m =
     map_outcome_result (\<lambda>em. m\<lparr>sm_fCallbacks := em\<rparr>) (Unsubscribe StateQueued subscriber (sm_fCallbacks m))"

definition ChangeState_sm :: "StateTransition \<Rightarrow> 'c StateMachine \<Rightarrow> 'c StateMachine outcome" where
  "ChangeState_sm transition m =
     (let lastState =
        (if transition = ErrorFound then sm_fErrorState m
         else if sm_fNextStates m = [] then sm_fState m
         else last (sm_fNextStates m))
      in and_then (Transition lastState transition)
           (\<lambda>nextState. Returns
              (emit StateQueued nextState lastState
                 (m\<lparr>sm_fNextStates := sm_fNextStates m @ [nextState]\<rparr>))))"

text \<open>
  One round of the loop in \<open>Run\<close>: \<open>None\<close> while the queue is empty and the thread waits; otherwise
  the machine after the callbacks and whether the loop is left.
\<close>

definition Run_round :: "'c StateMachine \<Rightarrow> ('c StateMachine \<times> bool) option" where
  "Run_round m =
     (case sm_fNextStates m of
        [] \<Rightarrow> None
      | s # ss \<Rightarrow>
          (let (lastState, m1) =
             (if s = Error
              then (sm_fErrorState m, m\<lparr>sm_fErrorState := s, sm_fNextStates := ss\<rparr>)
              else (sm_fState m, m\<lparr>sm_fState := s, sm_fNextStates := ss\<rparr>));
               m2 = emit StateChange (sm_fState m1) lastState m1
           in Some (m2, sm_fState m2 = Exiting \<or> sm_fErrorState m2 = Error)))"

definition Reset_sm :: "'c StateMachine \<Rightarrow> 'c StateMachine" where
  "Reset_sm m = m\<lparr>sm_fState := Idle, sm_fErrorState := Ok, sm_fNextStates := []\<rparr>"

definition NextStatePending :: "'c StateMachine \<Rightarrow> bool" where
  "NextStatePending m \<longleftrightarrow> length (sm_fNextStates m) > 0"

definition GetCurrentState_sm :: "'c StateMachine \<Rightarrow> SMState" where
  "GetCurrentState_sm m = sm_fState m"

definition GetCurrentErrorState :: "'c StateMachine \<Rightarrow> SMState" where
  "GetCurrentErrorState m = sm_fErrorState m"

text \<open>\<open>GetLastQueuedState\<close> reads the back of the queue, which has to be non-empty: \<open>None\<close> otherwise.\<close>

definition GetLastQueuedState :: "'c StateMachine \<Rightarrow> SMState option" where
  "GetLastQueuedState m = (if sm_fNextStates m = [] then None else Some (last (sm_fNextStates m)))"

text \<open>\<open>Run\<close> left to itself: it works through the queue and then leaves the loop or waits.\<close>

datatype 'c run_end = Left_loop "'c StateMachine" | Waits "'c StateMachine"

lemma emit_simps [simp]:
  "sm_fState (emit k n l m) = sm_fState m"
  "sm_fErrorState (emit k n l m) = sm_fErrorState m"
  "sm_fNextStates (emit k n l m) = sm_fNextStates m"
  by (simp_all add: emit_def split: prod.splits)

lemma Run_round_shorter: "Run_round m = Some (m', b) \<Longrightarrow> length (sm_fNextStates m') < length (sm_fNextStates m)"
  by (auto simp: Run_round_def Let_def split: list.splits if_splits prod.splits)

function Run_sm :: "'c StateMachine \<Rightarrow> 'c run_end" where
  "Run_sm m =
     (case Run_round m of
        None \<Rightarrow> Waits m
      | Some (m', True) \<Rightarrow> Left_loop m'
      | Some (m', False) \<Rightarrow> Run_sm m')"
  by auto
termination by (relation "measure (\<lambda>m. length (sm_fNextStates m))") (auto dest: Run_round_shorter)

declare Run_sm.simps [simp del]

section \<open>The queue holds a path of the table\<close>

fun legal_path :: "SMState \<Rightarrow> SMState list \<Rightarrow> bool" where
  "legal_path s [] = True"
| "legal_path s (t # ts) = ((\<exists>tr. tr \<noteq> ErrorFound \<and> Transition s tr = Returns t) \<and> legal_path t ts)"

definition regular :: "SMState \<Rightarrow> bool" where
  "regular s \<longleftrightarrow> s \<noteq> Ok \<and> s \<noteq> Error"

text \<open>
  The queue is a path of the table from the current state, followed by requests to enter the error
  state.
\<close>

definition sm_ok :: "'c StateMachine \<Rightarrow> bool" where
  "sm_ok m \<longleftrightarrow>
     regular (sm_fState m) \<and> (sm_fErrorState m = Ok \<or> sm_fErrorState m = Error) \<and>
     (\<exists>ss n. sm_fNextStates m = ss @ replicate n Error \<and> legal_path (sm_fState m) ss)"

lemma Transition_regular:
  "Transition s t = Returns s' \<Longrightarrow> t \<noteq> ErrorFound \<Longrightarrow> regular s'"
  by (cases s) (auto simp: regular_def split: if_splits)

lemma Transition_ErrorFound: "Transition s ErrorFound = Returns s' \<longleftrightarrow> s = Ok \<and> s' = Error"
  by (cases s) auto

lemma Transition_cases: "(\<exists>s'. Transition s t = Returns s') \<or> Transition s t = Throws IllegalTransition"
  by (cases s) auto

lemma legal_path_regular: "legal_path s ss \<Longrightarrow> x \<in> set ss \<Longrightarrow> regular x"
  by (induction ss arbitrary: s) (auto dest: Transition_regular)

lemma legal_path_snoc:
  "legal_path s (ss @ [t]) \<longleftrightarrow>
     legal_path s ss \<and> (\<exists>tr. tr \<noteq> ErrorFound \<and> Transition (last (s # ss)) tr = Returns t)"
  by (induction ss arbitrary: s) auto

lemma new_StateMachine_ok: "sm_ok new_StateMachine"
  by (auto simp: sm_ok_def new_StateMachine_def regular_def)

lemma Reset_sm_ok: "sm_ok (Reset_sm m)"
  by (auto simp: sm_ok_def Reset_sm_def regular_def)

lemma emit_ok [simp]: "sm_ok (emit k n l m) \<longleftrightarrow> sm_ok m"
  by (simp add: sm_ok_def)

lemma ChangeState_sm_ok:
  assumes m: "sm_ok m" and c: "ChangeState_sm t m = Returns m'"
  shows "sm_ok m'"
proof -
  obtain ss n where q: "sm_fNextStates m = ss @ replicate n Error" "legal_path (sm_fState m) ss"
    and r: "regular (sm_fState m)" "sm_fErrorState m = Ok \<or> sm_fErrorState m = Error"
    using m by (auto simp: sm_ok_def)
  define l where
    "l = (if t = ErrorFound then sm_fErrorState m
          else if sm_fNextStates m = [] then sm_fState m else last (sm_fNextStates m))"
  obtain s where s: "Transition l t = Returns s"
    and m': "m' = emit StateQueued s l (m\<lparr>sm_fNextStates := sm_fNextStates m @ [s]\<rparr>)"
    using c by (auto simp: ChangeState_sm_def l_def Let_def outcome_simps)
  show ?thesis
  proof (cases "t = ErrorFound")
    case True
    then have "s = Error" using s by (simp add: Transition_ErrorFound)
    then have "sm_fNextStates m @ [s] = ss @ replicate (Suc n) Error" using q by (simp add: replicate_append_same)
    then have "\<exists>ss' n'. sm_fNextStates m @ [s] = ss' @ replicate n' Error \<and> legal_path (sm_fState m) ss'"
      using q(2) by blast
    then show ?thesis using m' r by (simp add: sm_ok_def)
  next
    case False
    have "n = 0"
    proof (rule ccontr)
      assume "n \<noteq> 0"
      then have "l = Error" using q False by (cases n) (auto simp: l_def replicate_append_same [symmetric])
      then show False using s by simp
    qed
    then have "l = last (sm_fState m # ss)" using q False by (simp add: l_def)
    then have "legal_path (sm_fState m) (ss @ [s])" using q s False by (auto simp: legal_path_snoc)
    moreover have "sm_fNextStates m @ [s] = (ss @ [s]) @ replicate 0 Error" using q \<open>n = 0\<close> by simp
    ultimately have "\<exists>ss' n'. sm_fNextStates m @ [s] = ss' @ replicate n' Error \<and> legal_path (sm_fState m) ss'"
      by blast
    then show ?thesis using m' r by (simp add: sm_ok_def)
  qed
qed

text \<open>A round of \<open>Run\<close> moves the machine along the table, or enters the error state.\<close>

lemma Run_round_ok:
  assumes m: "sm_ok m" and r: "Run_round m = Some (m', b)"
  shows "sm_ok m' \<and>
    (sm_fErrorState m' = sm_fErrorState m \<and>
       (\<exists>tr. tr \<noteq> ErrorFound \<and> Transition (sm_fState m) tr = Returns (sm_fState m')) \<or>
     sm_fErrorState m' = Error \<and> sm_fState m' = sm_fState m)"
proof -
  obtain ss n where q: "sm_fNextStates m = ss @ replicate n Error" "legal_path (sm_fState m) ss"
    using m unfolding sm_ok_def by blast
  show ?thesis
  proof (cases ss)
    case Nil
    then obtain n' where n: "n = Suc n'" using q r by (cases n) (auto simp: Run_round_def)
    then have "sm_fNextStates m = Error # replicate n' Error" using q Nil by simp
    moreover have "\<exists>ss' k. replicate n' Error = ss' @ replicate k Error \<and> legal_path s ss'" for s
      by (rule exI [of _ "[]"]) auto
    ultimately show ?thesis using m r by (auto simp: Run_round_def sm_ok_def)
  next
    case (Cons s ss')
    then have "s \<noteq> Error" "regular s" using legal_path_regular [OF q(2)] by (auto simp: regular_def)
    moreover have "\<exists>ts k. ss' @ replicate n Error = ts @ replicate k Error \<and> legal_path s ts"
      using q(2) Cons by auto
    moreover have "sm_fErrorState m = Ok \<or> sm_fErrorState m = Error" using m by (simp add: sm_ok_def)
    moreover have "sm_fState m' = s" "sm_fErrorState m' = sm_fErrorState m"
      "sm_fNextStates m' = ss' @ replicate n Error"
      using r q(1) Cons \<open>s \<noteq> Error\<close> by (auto simp: Run_round_def)
    ultimately show ?thesis using q(2) Cons by (simp add: sm_ok_def)
  qed
qed

section \<open>Accepted requests are carried out in their order\<close>

fun path_end :: "SMState \<Rightarrow> StateTransition list \<Rightarrow> SMState outcome" where
  "path_end s [] = Returns s"
| "path_end s (t # ts) = and_then (Transition s t) (\<lambda>s'. path_end s' ts)"

fun ChangeStates :: "StateTransition list \<Rightarrow> 'c StateMachine \<Rightarrow> 'c StateMachine outcome" where
  "ChangeStates [] m = Returns m"
| "ChangeStates (t # ts) m = and_then (ChangeState_sm t m) (ChangeStates ts)"

definition planned_state :: "'c StateMachine \<Rightarrow> SMState" where
  "planned_state m = last (sm_fState m # sm_fNextStates m)"

lemma ChangeState_sm_planned:
  assumes "t \<noteq> ErrorFound"
  shows "ChangeState_sm t m =
    and_then (Transition (planned_state m) t)
      (\<lambda>s. Returns (emit StateQueued s (planned_state m) (m\<lparr>sm_fNextStates := sm_fNextStates m @ [s]\<rparr>)))"
  using assms by (simp add: ChangeState_sm_def planned_state_def Let_def)

lemma ChangeStates_path:
  assumes "ErrorFound \<notin> set ts"
  shows "(case path_end (planned_state m) ts of
            Returns s \<Rightarrow> \<exists>m'. ChangeStates ts m = Returns m' \<and> planned_state m' = s \<and>
                          sm_fState m' = sm_fState m \<and> sm_fErrorState m' = sm_fErrorState m
          | Throws x \<Rightarrow> ChangeStates ts m = Throws x
          | _ \<Rightarrow> False)"
  using assms
proof (induction ts arbitrary: m)
  case (Cons t ts)
  show ?case
  proof (cases "Transition (planned_state m) t")
    case (Returns s)
    let ?m = "emit StateQueued s (planned_state m) (m\<lparr>sm_fNextStates := sm_fNextStates m @ [s]\<rparr>)"
    have "planned_state ?m = s" by (simp add: planned_state_def)
    then show ?thesis using Cons.IH [of ?m] Cons.prems Returns
      by (auto simp: ChangeState_sm_planned split: outcome.splits)
  next
    case (Throws x)
    then show ?thesis using Cons.prems by (auto simp: ChangeState_sm_planned)
  next
    case Exits
    then show ?thesis using Transition_cases [of "planned_state m" t] by auto
  next
    case Undefined
    then show ?thesis using Transition_cases [of "planned_state m" t] by auto
  qed
qed simp

lemma no_error_queued:
  "ChangeStates ts m = Returns m' \<Longrightarrow> ErrorFound \<notin> set ts \<Longrightarrow> Error \<notin> set (sm_fNextStates m) \<Longrightarrow>
     Error \<notin> set (sm_fNextStates m')"
proof (induction ts arbitrary: m)
  case (Cons t ts)
  then obtain m1 where m1: "ChangeState_sm t m = Returns m1" "ChangeStates ts m1 = Returns m'"
    by (auto simp: outcome_simps)
  then have "Error \<notin> set (sm_fNextStates m1)"
    using Cons.prems Transition_regular [of "planned_state m" t]
    by (auto simp: ChangeState_sm_planned outcome_simps regular_def)
  then show ?case using Cons.IH [OF m1(2)] Cons.prems by simp
qed simp

lemma Exiting_final: "legal_path Exiting ss \<longleftrightarrow> ss = []"
  by (cases ss) auto

text \<open>\<open>Run\<close> works through a queue without error requests and stops at its last state.\<close>

lemma Run_sm_drains:
  assumes "legal_path (sm_fState m) (sm_fNextStates m)" "sm_fErrorState m = Ok"
    and "sm_fState m = Exiting \<Longrightarrow> sm_fNextStates m \<noteq> []"
  shows "\<exists>m'. Run_sm m = (if planned_state m = Exiting then Left_loop m' else Waits m') \<and>
           sm_fState m' = planned_state m \<and> sm_fNextStates m' = [] \<and> sm_fErrorState m' = Ok"
  using assms
proof (induction "sm_fNextStates m" arbitrary: m)
  case Nil
  then show ?case by (subst Run_sm.simps) (auto simp: Run_round_def planned_state_def)
next
  case (Cons s ss)
  note q = Cons.hyps(2) [symmetric]
  have s: "s \<noteq> Error" using legal_path_regular [OF Cons.prems(1), of s] q by (simp add: regular_def)
  let ?m = "emit StateChange s (sm_fState m) (m\<lparr>sm_fState := s, sm_fNextStates := ss\<rparr>)"
  have r: "Run_round m = Some (?m, s = Exiting)"
    using s q Cons.prems(2) by (simp add: Run_round_def)
  have p: "planned_state ?m = planned_state m" using q by (simp add: planned_state_def)
  have l: "legal_path s ss" using Cons.prems(1) q by simp
  show ?case
  proof (cases "s = Exiting")
    case True
    then have "ss = []" using l Exiting_final by simp
    then show ?thesis using True r q Cons.prems by (subst Run_sm.simps) (auto simp: planned_state_def)
  next
    case False
    have "Run_sm m = Run_sm ?m" using r False by (subst Run_sm.simps) simp
    moreover have "ss = sm_fNextStates ?m" "legal_path (sm_fState ?m) (sm_fNextStates ?m)"
      "sm_fErrorState ?m = Ok" "sm_fState ?m = Exiting \<Longrightarrow> sm_fNextStates ?m \<noteq> []"
      using l Cons.prems False by auto
    ultimately show ?thesis using Cons.hyps(1) [of ?m] p by metis
  qed
qed

section \<open>Executions\<close>

text \<open>Any sequence of client calls and rounds of \<open>Run\<close>. A call that throws changes nothing.\<close>

inductive sm_reachable :: "(nat list \<Rightarrow> nat) \<Rightarrow> 'c StateMachine \<Rightarrow> bool" for fresh where
  sm_start: "sm_reachable fresh new_StateMachine"
| sm_change: "sm_reachable fresh m \<Longrightarrow> ChangeState_sm t m = Returns m' \<Longrightarrow> sm_reachable fresh m'"
| sm_round: "sm_reachable fresh m \<Longrightarrow> Run_round m = Some (m', b) \<Longrightarrow> sm_reachable fresh m'"
| sm_reset: "sm_reachable fresh m \<Longrightarrow> sm_reachable fresh (Reset_sm m)"
| sm_subscribe: "sm_reachable fresh m \<Longrightarrow> sm_reachable fresh (SubscribeToStateChange_sm fresh s cb m)"
| sm_unsubscribe: "sm_reachable fresh m \<Longrightarrow> UnsubscribeFromStateChange_sm s m = Returns m' \<Longrightarrow> sm_reachable fresh m'"
| sm_subscribe_queued: "sm_reachable fresh m \<Longrightarrow> sm_reachable fresh (SubscribeToStateQueued fresh s cb m)"
| sm_unsubscribe_queued: "sm_reachable fresh m \<Longrightarrow> UnsubscribeFromStateQueued s m = Returns m' \<Longrightarrow> sm_reachable fresh m'"

fun legal_delivery :: "sm_event \<times> 'c \<times> SMState \<times> SMState \<Rightarrow> bool" where
  "legal_delivery (StateQueued, cb, new, old) \<longleftrightarrow> (\<exists>tr. Transition old tr = Returns new)"
| "legal_delivery (StateChange, cb, new, old) \<longleftrightarrow>
     regular new \<and> (\<not> regular old \<or> (\<exists>tr. Transition old tr = Returns new))"

lemma emit_delivered:
  "set (delivered (emit k new old m)) \<subseteq> set (delivered m) \<union> {(k, cb, new, old) | cb. True}"
  by (auto simp: emit_def split: prod.splits)

lemma emit_legal:
  fixes m :: "'c StateMachine"
  assumes "\<forall>x \<in> set (delivered m). legal_delivery x" "\<And>cb :: 'c. legal_delivery (k, cb, new, old)"
  shows "\<forall>x \<in> set (delivered (emit k new old m)). legal_delivery x"
proof
  fix x assume "x \<in> set (delivered (emit k new old m))"
  then consider "x \<in> set (delivered m)" | cb where "x = (k, cb, new, old)"
    using emit_delivered [of k new old m] by auto
  then show "legal_delivery x" using assms by cases auto
qed

lemma ChangeState_sm_legal:
  fixes m :: "'c StateMachine"
  assumes "ChangeState_sm t m = Returns m'" "\<forall>x \<in> set (delivered m). legal_delivery x"
  shows "\<forall>x \<in> set (delivered m'). legal_delivery x"
proof -
  define l where
    "l = (if t = ErrorFound then sm_fErrorState m
          else if sm_fNextStates m = [] then sm_fState m else last (sm_fNextStates m))"
  obtain s where "Transition l t = Returns s"
    "m' = emit StateQueued s l (m\<lparr>sm_fNextStates := sm_fNextStates m @ [s]\<rparr>)"
    using assms(1) by (auto simp: ChangeState_sm_def l_def Let_def outcome_simps)
  note s = this
  have "\<forall>x \<in> set (delivered (emit StateQueued s l (m\<lparr>sm_fNextStates := sm_fNextStates m @ [s]\<rparr>))). legal_delivery x"
  proof (rule emit_legal)
    show "legal_delivery (StateQueued, cb, s, l)" for cb :: 'c
      unfolding legal_delivery.simps using s(1) by (rule exI)
  qed (simp add: assms(2))
  then show ?thesis unfolding s(2) .
qed

lemma Run_round_legal:
  assumes "sm_ok m" "Run_round m = Some (m', b)" "\<forall>x \<in> set (delivered m). legal_delivery x"
  shows "\<forall>x \<in> set (delivered m'). legal_delivery x"
proof -
  obtain s ss where q: "sm_fNextStates m = s # ss" using assms(2) by (auto simp: Run_round_def split: list.splits)
  show ?thesis
  proof (cases "s = Error")
    case True
    then have "m' = emit StateChange (sm_fState m) (sm_fErrorState m)
        (m\<lparr>sm_fErrorState := s, sm_fNextStates := ss\<rparr>)"
      using assms(2) q by (auto simp: Run_round_def)
    moreover have "regular (sm_fState m)" "\<not> regular (sm_fErrorState m)"
      using assms(1) by (auto simp: sm_ok_def regular_def)
    ultimately show ?thesis using assms(3) by (simp only:) (rule emit_legal, auto)
  next
    case False
    then have m': "m' = emit StateChange s (sm_fState m) (m\<lparr>sm_fState := s, sm_fNextStates := ss\<rparr>)"
      using assms(2) q by (auto simp: Run_round_def)
    obtain ts n where ts: "sm_fNextStates m = ts @ replicate n Error" "legal_path (sm_fState m) ts"
      using assms(1) unfolding sm_ok_def by blast
    then obtain ts' where "ts = s # ts'" using q False by (cases ts; cases n) auto
    then have "\<exists>tr. tr \<noteq> ErrorFound \<and> Transition (sm_fState m) tr = Returns s" using ts by simp
    then have "regular s \<and> (\<exists>tr. Transition (sm_fState m) tr = Returns s)"
      using Transition_regular by blast
    then show ?thesis using assms(3) unfolding m' by (intro emit_legal) auto
  qed
qed

lemma subscriptions_keep:
  "sm_ok m \<Longrightarrow> sm_ok (m\<lparr>sm_fCallbacks := em\<rparr>)"
  by (simp add: sm_ok_def)

lemma sm_reachable_ok:
  "sm_reachable fresh m \<Longrightarrow> sm_ok m \<and> (\<forall>x \<in> set (delivered m). legal_delivery x)"
proof (induction rule: sm_reachable.induct)
  case sm_start
  show ?case using new_StateMachine_ok by (simp add: new_StateMachine_def)
next
  case (sm_change m t m')
  then show ?case using ChangeState_sm_ok ChangeState_sm_legal by blast
next
  case (sm_round m m' b)
  then show ?case using Run_round_ok Run_round_legal by blast
next
  case (sm_reset m)
  then show ?case using Reset_sm_ok by (simp add: Reset_sm_def)
qed (auto simp: SubscribeToStateChange_sm_def UnsubscribeFromStateChange_sm_def SubscribeToStateQueued_def
    UnsubscribeFromStateQueued_def map_outcome_result_def outcome_simps intro: subscriptions_keep)

lemma state_names_inverse: "inverse_tables fkStateStrMap fkStrStateMap"
  by (simp add: inverse_tables_def fkStateStrMap_def fkStrStateMap_def)

lemma transition_names_inverse: "inverse_tables fkStateTransitionStrMap fkStrStateTransitionMap"
  by (simp add: inverse_tables_def fkStateTransitionStrMap_def fkStrStateTransitionMap_def)

section \<open>Properties\<close>



text \<open>
  In every execution, of any number of clients and one thread in \<open>Run\<close>, a round of \<open>Run\<close> either
  moves the device state by one step of the table and leaves the error state alone, or enters the
  error state and leaves the device state alone; and the queue stays a path of the table.
\<close>

theorem Run_moves_along_table:
  assumes "sm_reachable fresh m" "Run_round m = Some (m', leave)"
  shows "sm_ok m' \<and>
    (GetCurrentErrorState m' = GetCurrentErrorState m \<and>
       (\<exists>tr. tr \<noteq> ErrorFound \<and> Transition (GetCurrentState_sm m) tr = Returns (GetCurrentState_sm m')) \<or>
     GetCurrentErrorState m' = Error \<and> GetCurrentState_sm m' = GetCurrentState_sm m)"
  using Run_round_ok [OF _ assms(2)] sm_reachable_ok [OF assms(1)]
  by (simp add: GetCurrentErrorState_def GetCurrentState_sm_def)

text \<open>A machine with one subscriber on which an error was requested.\<close>

definition failed_machine :: "nat StateMachine" where
  "failed_machine =
     (SubscribeToStateChange_sm next_handle ''control'' 7 new_StateMachine)\<lparr>sm_fNextStates := [Error],
       sm_fCallbacks := snd (Emit StateQueued (sm_fCallbacks
          (SubscribeToStateChange_sm next_handle ''control'' 7 new_StateMachine)))\<rparr>"

lemma failed_machine_reachable: "sm_reachable next_handle failed_machine"
proof -
  have "ChangeState_sm ErrorFound (SubscribeToStateChange_sm next_handle ''control'' 7 new_StateMachine) =
    Returns failed_machine"
    by (simp add: ChangeState_sm_def failed_machine_def SubscribeToStateChange_sm_def new_StateMachine_def
        emit_def Emit_def GetSignal_def Subscribe_def new_EventManager_def Let_def)
  then show ?thesis using sm_change sm_subscribe sm_start by metis
qed

lemma failed_machine_round:
  "Run_round failed_machine =
     Some (emit StateChange Idle Ok (failed_machine\<lparr>sm_fErrorState := Error, sm_fNextStates := []\<rparr>), True)"
  by (simp add: Run_round_def failed_machine_def SubscribeToStateChange_sm_def new_StateMachine_def)

theorem Run_moves_along_table_witness:
  "sm_ok (emit StateChange Idle Ok (failed_machine\<lparr>sm_fErrorState := Error, sm_fNextStates := []\<rparr>)) \<and>
   GetCurrentErrorState (emit StateChange Idle Ok (failed_machine\<lparr>sm_fErrorState := Error, sm_fNextStates := []\<rparr>)) = Error"
  using Run_moves_along_table [OF failed_machine_reachable failed_machine_round]
  by (simp add: GetCurrentErrorState_def)

text \<open>
  Subscribers to state changes are called for every step of the table with the states before and
  after it. They are never told of the error state: when \<open>Run\<close> enters it, they are called with the
  unchanged device state as the new state.
\<close>

theorem state_changes_announced:
  assumes "sm_reachable fresh m" "(StateChange, cb, new, old) \<in> set (delivered m)"
  shows "new \<noteq> Error \<and> ((\<exists>tr. Transition old tr = Returns new) \<or> old = Ok \<or> old = Error)"
  using sm_reachable_ok [OF assms(1)] assms(2) by (auto simp: regular_def)

theorem state_changes_announced_witness:
  "\<exists>m. sm_reachable next_handle m \<and> GetCurrentErrorState m = Error \<and>
     delivered m = [(StateChange, 7::nat, Idle, Ok)] \<and> Idle \<noteq> Error"
proof -
  let ?m = "emit StateChange Idle Ok (failed_machine\<lparr>sm_fErrorState := Error, sm_fNextStates := []\<rparr>)"
  have r: "sm_reachable next_handle ?m"
    using sm_round [OF failed_machine_reachable failed_machine_round] .
  have d: "delivered ?m = [(StateChange, 7, Idle, Ok)]"
    by (simp add: emit_def Emit_def GetSignal_def failed_machine_def SubscribeToStateChange_sm_def
        Subscribe_def new_EventManager_def new_StateMachine_def Let_def)
  then have "Idle \<noteq> Error" using state_changes_announced [OF r] by force
  then show ?thesis using r d by (intro exI [of _ ?m]) (simp add: GetCurrentErrorState_def)
qed

text \<open>
  The names of states and of transitions can be read back: converting a string to a state (or a
  transition) succeeds exactly for the name of that state, and any other string throws
  \<open>std::out_of_range\<close>.
\<close>

theorem state_name_roundtrip:
  "(ToState n = Returns s \<longleftrightarrow> ToStr_state s = Returns n) \<and>
   (ToStateTransition n = Returns t \<longleftrightarrow> ToStr_transition t = Returns n) \<and>
   (\<exists>n. ToStr_state s = Returns n) \<and> (\<exists>n. ToStr_transition t = Returns n)"
proof (intro conjI)
  show "ToState n = Returns s \<longleftrightarrow> ToStr_state s = Returns n"
    using inverse_tables_iff [OF state_names_inverse]
    by (simp add: ToState_def ToStr_state_def outcome_simps)
  show "ToStateTransition n = Returns t \<longleftrightarrow> ToStr_transition t = Returns n"
    using inverse_tables_iff [OF transition_names_inverse]
    by (simp add: ToStateTransition_def ToStr_transition_def outcome_simps)
  show "\<exists>n. ToStr_state s = Returns n"
    by (cases s) (simp_all add: ToStr_state_def fkStrStateMap_def map_at_def)
  show "\<exists>n. ToStr_transition t = Returns n"
    by (cases t) (simp_all add: ToStr_transition_def fkStrStateTransitionMap_def map_at_def)
qed

end
