(* ===== verification/Transports.thy ===== *)
theory Transports
  imports FairMQ_Prelude
begin

text \<open>
  The transports of \<open>fairmq/Transports.h\<close> and the choice of a transport factory in
  \<open>fairmq/FairMQTransportFactory.cxx\<close>. A factory is represented by what the rest of the
  sources asks of it: its transport and its identifier. The two optional transports are
  compiled in or not; the flags \<open>nanomsg\<close> and \<open>ofi\<close> stand for the preprocessor symbols
  \<open>BUILD_NANOMSG_TRANSPORT\<close> and \<open>BUILD_OFI_TRANSPORT\<close>, and \<open>uuid\<close> for the generated identifier.
\<close>

datatype Transport = DEFAULT | ZMQ | NN | SHM | OFI

definition TransportTypes :: "(string \<times> Transport) list" where
  "TransportTypes =
    [(''default'', DEFAULT),
     (''zeromq'', ZMQ),
     (''nanomsg'', NN),
     (''shmem'', SHM),
     (''ofi'', OFI)]"

definition TransportNames :: "(Transport \<times> string) list" where
  "TransportNames =
    [(DEFAULT, ''default''),
     (ZMQ, ''zeromq''),
     (NN, ''nanomsg''),
     (SHM, ''shmem''),
     (OFI, ''ofi'')]"

definition TransportType_at :: "string \<Rightarrow> Transport outcome" where
  "TransportType_at s = map_at (map_of TransportTypes) s"

definition TransportName_at :: "Transport \<Rightarrow> string outcome" where
  "TransportName_at t = map_at (map_of TransportNames) t"

record factory =
  fTransportType_of :: Transport
  fkId :: string

definition CreateTransportFactory ::
    "bool \<Rightarrow> bool \<Rightarrow> string \<Rightarrow> string \<Rightarrow> string \<Rightarrow> factory outcome" where
  "CreateTransportFactory nanomsg ofi uuid type ident =
     (let finalId = (if ident = '''' then uuid else ident) in
      if type = ''zeromq'' then Returns \<lparr>fTransportType_of = ZMQ, fkId = finalId\<rparr>
      else if type = ''shmem'' then Returns \<lparr>fTransportType_of = SHM, fkId = finalId\<rparr>
      else if nanomsg \<and> type = ''nanomsg'' then Returns \<lparr>fTransportType_of = NN, fkId = finalId\<rparr>
      else if ofi \<and> type = ''ofi'' then Returns \<lparr>fTransportType_of = OFI, fkId = finalId\<rparr>
      else Exits)"

lemma transport_tables_inverse: "inverse_tables TransportTypes TransportNames"
  by (simp add: inverse_tables_def TransportTypes_def TransportNames_def)

lemma TransportName_total: "\<exists>s. TransportName_at t = Returns s"
  by (cases t) (simp_all add: TransportName_at_def TransportNames_def map_at_def)

lemma TransportName_literal:
  "TransportName_at t = Returns s \<longleftrightarrow>
     s = (case t of DEFAULT \<Rightarrow> ''default'' | ZMQ \<Rightarrow> ''zeromq'' | NN \<Rightarrow> ''nanomsg''
            | SHM \<Rightarrow> ''shmem'' | OFI \<Rightarrow> ''ofi'')"
  by (cases t) (auto simp: TransportName_at_def TransportNames_def map_at_def)

lemma TransportName_not_Throws [simp]: "TransportName_at t \<noteq> Throws e"
  using TransportName_total [of t] by auto

lemma transport_name_roundtrip:
  "TransportType_at s = Returns t \<longleftrightarrow> TransportName_at t = Returns s"
  using inverse_tables_iff [OF transport_tables_inverse]
  by (simp add: TransportType_at_def TransportName_at_def outcome_simps)

lemma factory_of_named_transport:
  assumes "TransportName_at t = Returns s" and "CreateTransportFactory nn ofi u s i = Returns f"
  shows "fTransportType_of f = t"
  using assms
  by (cases t) (auto simp: TransportName_literal CreateTransportFactory_def split: if_splits)

lemma factory_never_default: "CreateTransportFactory nn ofi u s i = Returns f \<Longrightarrow> fTransportType_of f \<noteq> DEFAULT"
  by (auto simp: CreateTransportFactory_def Let_def split: if_splits)

lemma default_transport_exits:
  "TransportName_at DEFAULT = Returns s \<Longrightarrow> CreateTransportFactory nn ofi u s i = Exits"
  by (simp add: TransportName_literal CreateTransportFactory_def)

section \<open>Properties\<close>

text \<open>
  The two transport tables are inverse to each other, and a factory created for the name of a
  transport is a factory of that transport. The name of \<open>DEFAULT\<close> is in the tables but no factory
  exists for it: asking for one ends the process.
\<close>

theorem transport_names:
  "(TransportType_at s = Returns t \<longleftrightarrow> TransportName_at t = Returns s) \<and>
   (TransportName_at t = Returns s \<longrightarrow>
      (case CreateTransportFactory nn ofi u s i of
         Returns f \<Rightarrow> fTransportType_of f = t \<and> t \<noteq> DEFAULT
       | Throws x \<Rightarrow> False
       | Exits \<Rightarrow> t = DEFAULT \<or> t = NN \<and> \<not> nn \<or> t = OFI \<and> \<not> ofi
       | Undefined \<Rightarrow> False))"
proof
  show "TransportType_at s = Returns t \<longleftrightarrow> TransportName_at t = Returns s"
    by (rule transport_name_roundtrip)
  show "TransportName_at t = Returns s \<longrightarrow>
      (case CreateTransportFactory nn ofi u s i of
         Returns f \<Rightarrow> fTransportType_of f = t \<and> t \<noteq> DEFAULT
       | Throws x \<Rightarrow> False
       | Exits \<Rightarrow> t = DEFAULT \<or> t = NN \<and> \<not> nn \<or> t = OFI \<and> \<not> ofi
       | Undefined \<Rightarrow> False)"
    using TransportName_literal [of t s]
    by (cases t) (simp_all add: CreateTransportFactory_def)
qed

theorem transport_names_witness:
  "TransportType_at ''shmem'' = Returns SHM \<and>
   (case CreateTransportFactory False False ''uuid'' ''shmem'' '''' of
      Returns f \<Rightarrow> fTransportType_of f = SHM
    | Throws x \<Rightarrow> False
    | _ \<Rightarrow> False)"
  using transport_names [of "''shmem''" SHM False False "''uuid''" "''''"]
  by (simp add: TransportName_at_def TransportNames_def map_at_def CreateTransportFactory_def)

end
