(* ===== verification/Messages.thy ===== *)
theory Messages
  imports Transports
begin

text \<open>
  Messages and multipart messages as the transport-independent code sees them
  (\<open>fairmq/FairMQMessage.h\<close>, \<open>fairmq/FairMQParts.h\<close>) and the message constructors of
  \<open>fairmq/FairMQTransportFactory.h\<close>. A message is its transport and its bytes; a message that wraps
  the buffer of another one, to be sent over a different transport, also has that other message,
  which its free function deletes.
\<close>

type_synonym byte = "8 word"

datatype message = Message (mType: Transport) (mData: "byte list") (mWraps: "message option")

definition GetSize :: "message \<Rightarrow> nat" where
  "GetSize m = length (mData m)"

definition string_bytes :: "string \<Rightarrow> byte list" where
  "string_bytes s = map of_char s"

section \<open>Creating messages\<close>

definition CreateMessage_empty :: "factory \<Rightarrow> message" where
  "CreateMessage_empty f = Message (fTransportType_of f) [] None"

text \<open>A message around a given buffer, whose free function deletes the message \<open>w\<close>, if any.\<close>

definition CreateMessage_data :: "factory \<Rightarrow> byte list \<Rightarrow> message option \<Rightarrow> message" where
  "CreateMessage_data f bs w = Message (fTransportType_of f) bs w"

definition NewSimpleMessage_str :: "factory \<Rightarrow> string \<Rightarrow> message" where
  "NewSimpleMessage_str f s = CreateMessage_data f (string_bytes s) None"

definition NewStaticMessage_str :: "factory \<Rightarrow> string \<Rightarrow> message" where
  "NewStaticMessage_str f s = CreateMessage_data f (string_bytes s) None"

section \<open>Multipart messages\<close>

type_synonym FairMQParts = "message list"

definition AddPart :: "message \<Rightarrow> FairMQParts \<Rightarrow> FairMQParts" where
  "AddPart m parts = parts @ [m]"

text \<open>
  The checked access converts its index to an unsigned number, so that a negative index is past
  the end; the unchecked one has undefined behaviour there.
\<close>

definition At :: "FairMQParts \<Rightarrow> int \<Rightarrow> message outcome" where
  "At parts i = (if i < 0 then Throws OutOfRange else vector_at parts (nat i))"

definition Part :: "FairMQParts \<Rightarrow> int \<Rightarrow> message outcome" where
  "Part parts i = (if 0 \<le> i \<and> nat i < length parts then Returns (parts ! nat i) else Undefined)"

definition Size :: "FairMQParts \<Rightarrow> int" where
  "Size parts = int (length parts)"

lemma At_AddPart:
  "At (AddPart m parts) i =
     (if i = Size parts then Returns m else At parts i)"
  by (auto simp: At_def AddPart_def Size_def vector_at_def nth_append)

lemma Part_At: "Part parts i = (case At parts i of Returns m \<Rightarrow> Returns m | _ \<Rightarrow> Undefined)"
  by (auto simp: At_def Part_def vector_at_def)

lemma Size_AddPart [simp]: "Size (AddPart m parts) = Size parts + 1"
  by (simp add: Size_def AddPart_def)

section \<open>The socket interface\<close>

text \<open>
  The virtual functions of \<open>fairmq/FairMQSocket.h\<close> that channels call, over sockets of type \<open>'s\<close>:
  each returns its result, the message or messages as the call leaves them, and the socket.
\<close>

record 's FairMQSocket =
  vBind :: "string \<Rightarrow> 's \<Rightarrow> bool \<times> 's"
  vConnect :: "string \<Rightarrow> 's \<Rightarrow> 's"
  vSetOption :: "string \<Rightarrow> int \<Rightarrow> 's \<Rightarrow> 's"
  vSend :: "message \<Rightarrow> int \<Rightarrow> 's \<Rightarrow> int \<times> message \<times> 's"
  vReceive :: "message \<Rightarrow> int \<Rightarrow> 's \<Rightarrow> int \<times> message \<times> 's"
  vSend_parts :: "message list \<Rightarrow> int \<Rightarrow> 's \<Rightarrow> int \<times> message list \<times> 's"
  vReceive_parts :: "message list \<Rightarrow> int \<Rightarrow> 's \<Rightarrow> int \<times> message list \<times> 's"
  vTrySend :: "message \<Rightarrow> 's \<Rightarrow> int \<times> message \<times> 's"
  vTryReceive :: "message \<Rightarrow> 's \<Rightarrow> int \<times> message \<times> 's"
  vTrySend_parts :: "message list \<Rightarrow> 's \<Rightarrow> int \<times> message list \<times> 's"
  vTryReceive_parts :: "message list \<Rightarrow> 's \<Rightarrow> int \<times> message list \<times> 's"
  vGetBytesTx :: "'s \<Rightarrow> uint64"
  vGetBytesRx :: "'s \<Rightarrow> uint64"
  vGetMessagesTx :: "'s \<Rightarrow> uint64"
  vGetMessagesRx :: "'s \<Rightarrow> uint64"

end
