(* ===== verification/Channel.thy ===== *)
theory Channel
  imports Messages
begin

text \<open>
  A channel of a device, \<open>fairmq/FairMQChannel.{h,cxx}\<close>: its configuration and the accessors, the
  validation of the configuration, and the transfer operations, which adapt messages of another
  transport and hand them to the channel's socket. The socket is a value of type \<open>'s\<close> with the
  virtual functions of the record \<open>FairMQSocket\<close>. The mutex of the class serialises the accessors;
  each of them is one step. The buffer sizes are \<open>int\<close>s that the class stores and compares with
  zero, and are represented by mathematical integers.
\<close>

section \<open>The channel\<close>

record 's FairMQChannel =
  fSocket :: "'s option"
  fType :: string
  fMethod :: string
  fAddress :: string
  fTransportType :: Transport
  fSndBufSize :: int
  fRcvBufSize :: int
  fSndKernelSize :: int
  fRcvKernelSize :: int
  fRateLogging :: int
  fName :: string
  fIsValid :: bool
  fTransportFactory :: "factory option"
  fMultipart :: bool
  fModified :: bool
  fReset :: bool

definition FairMQChannel_configured :: "string \<Rightarrow> string \<Rightarrow> string \<Rightarrow> 's FairMQChannel" where
  "FairMQChannel_configured type method address =
     \<lparr>fSocket = None,
      fType = type,
      fMethod = method,
      fAddress = address,
      fTransportType = DEFAULT,
      fSndBufSize = 1000,
      fRcvBufSize = 1000,
      fSndKernelSize = 0,
      fRcvKernelSize = 0,
      fRateLogging = 1,
      fName = '''',
      fIsValid = False,
      fTransportFactory = None,
      fMultipart = False,
      fModified = True,
      fReset = False\<rparr>"

definition FairMQChannel_default :: "'s FairMQChannel" where
  "FairMQChannel_default =
     \<lparr>fSocket = None,
      fType = ''unspecified'',
      fMethod = ''unspecified'',
      fAddress = ''unspecified'',
      fTransportType = DEFAULT,
      fSndBufSize = 1000,
      fRcvBufSize = 1000,
      fSndKernelSize = 0,
      fRcvKernelSize = 0,
      fRateLogging = 1,
      fName = '''',
      fIsValid = False,
      fTransportFactory = None,
      fMultipart = False,
      fModified = True,
      fReset = False\<rparr>"

text \<open>\<open>create\<close> is the factory's virtual \<open>CreateSocket\<close>.\<close>

definition FairMQChannel_with_factory ::
    "(factory \<Rightarrow> string \<Rightarrow> string \<Rightarrow> 's) \<Rightarrow> string \<Rightarrow> string \<Rightarrow> factory \<Rightarrow> 's FairMQChannel" where
  "FairMQChannel_with_factory create name type f =
     \<lparr>fSocket = Some (create f type name),
      fType = type,
      fMethod = ''unspecified'',
      fAddress = ''unspecified'',
      fTransportType = fTransportType_of f,
      fSndBufSize = 1000,
      fRcvBufSize = 1000,
      fSndKernelSize = 0,
      fRcvKernelSize = 0,
      fRateLogging = 1,
      fName = name,
      fIsValid = False,
      fTransportFactory = Some f,
      fMultipart = False,
      fModified = True,
      fReset = False\<rparr>"

definition FairMQChannel_copy :: "'s FairMQChannel \<Rightarrow> 's FairMQChannel" where
  "FairMQChannel_copy chan =
     \<lparr>fSocket = None,
      fType = fType chan,
      fMethod = fMethod chan,
      fAddress = fAddress chan,
      fTransportType = fTransportType chan,
      fSndBufSize = fSndBufSize chan,
      fRcvBufSize = fRcvBufSize chan,
      fSndKernelSize = fSndKernelSize chan,
      fRcvKernelSize = fRcvKernelSize chan,
      fRateLogging = fRateLogging chan,
      fName = fName chan,
      fIsValid = False,
      fTransportFactory = None,
      fMultipart = fMultipart chan,
      fModified = fModified chan,
      fReset = False\<rparr>"

definition FairMQChannel_assign :: "'s FairMQChannel \<Rightarrow> 's FairMQChannel \<Rightarrow> 's FairMQChannel" where
  "FairMQChannel_assign chan this =
     this\<lparr>fSocket := None,
      fType := fType chan,
      fMethod := fMethod chan,
      fAddress := fAddress chan,
      fTransportType := fTransportType chan,
      fSndBufSize := fSndBufSize chan,
      fRcvBufSize := fRcvBufSize chan,
      fSndKernelSize := fSndKernelSize chan,
      fRcvKernelSize := fRcvKernelSize chan,
      fRateLogging := fRateLogging chan,
      fName := fName chan,
      fIsValid := False,
      fTransportFactory := None,
      fMultipart := fMultipart chan,
      fModified := fModified chan,
      fReset := False\<rparr>"

section \<open>Accessors\<close>

definition GetChannelName :: "'s FairMQChannel \<Rightarrow> string" where
  "GetChannelName c = fName c"

definition GetChannelPrefix :: "'s FairMQChannel \<Rightarrow> string outcome" where
  "GetChannelPrefix c = erase_from (str_rfind CHR ''['' (fName c)) (fName c)"

text \<open>Without a bracket \<open>rfind\<close> gives \<open>npos\<close>, and \<open>npos + 1\<close> wraps around to zero.\<close>

definition GetChannelIndex :: "'s FairMQChannel \<Rightarrow> string outcome" where
  "GetChannelIndex c =
     and_then (erase_from (str_rfind CHR '']'' (fName c)) (fName c))
       (\<lambda>s. Returns (case str_rfind CHR ''['' s of None \<Rightarrow> s | Some i \<Rightarrow> drop (i + 1) s))"

definition GetType :: "'s FairMQChannel \<Rightarrow> string" where
  "GetType c = fType c"

definition GetMethod :: "'s FairMQChannel \<Rightarrow> string" where
  "GetMethod c = fMethod c"

definition GetAddress :: "'s FairMQChannel \<Rightarrow> string" where
  "GetAddress c = fAddress c"

definition GetTransportName :: "'s FairMQChannel \<Rightarrow> string outcome" where
  "GetTransportName c = exit_on_exception (TransportName_at (fTransportType c))"

definition GetSndBufSize :: "'s FairMQChannel \<Rightarrow> int" where
  "GetSndBufSize c = fSndBufSize c"

definition GetRcvBufSize :: "'s FairMQChannel \<Rightarrow> int" where
  "GetRcvBufSize c = fRcvBufSize c"

definition GetSndKernelSize :: "'s FairMQChannel \<Rightarrow> int" where
  "GetSndKernelSize c = fSndKernelSize c"

definition GetRcvKernelSize :: "'s FairMQChannel \<Rightarrow> int" where
  "GetRcvKernelSize c = fRcvKernelSize c"

definition GetRateLogging :: "'s FairMQChannel \<Rightarrow> int" where
  "GetRateLogging c = fRateLogging c"

definition UpdateType :: "string \<Rightarrow> 's FairMQChannel \<Rightarrow> 's FairMQChannel" where
  "UpdateType type c = c\<lparr>fIsValid := False, fType := type, fModified := True\<rparr>"

definition UpdateMethod :: "string \<Rightarrow> 's FairMQChannel \<Rightarrow> 's FairMQChannel" where
  "UpdateMethod method c = c\<lparr>fIsValid := False, fMethod := method, fModified := True\<rparr>"

definition UpdateAddress :: "string \<Rightarrow> 's FairMQChannel \<Rightarrow> 's FairMQChannel" where
  "UpdateAddress address c = c\<lparr>fIsValid := False, fAddress := address, fModified := True\<rparr>"

definition UpdateTransport :: "string \<Rightarrow> 's FairMQChannel \<Rightarrow> 's FairMQChannel outcome" where
  "UpdateTransport transport c =
     exit_on_exception
       (and_then (TransportType_at transport)
          (\<lambda>t. Returns (c\<lparr>fIsValid := False, fTransportType := t, fModified := True\<rparr>)))"

definition UpdateSndBufSize :: "int \<Rightarrow> 's FairMQChannel \<Rightarrow> 's FairMQChannel" where
  "UpdateSndBufSize n c = c\<lparr>fIsValid := False, fSndBufSize := n, fModified := True\<rparr>"

definition UpdateRcvBufSize :: "int \<Rightarrow> 's FairMQChannel \<Rightarrow> 's FairMQChannel" where
  "UpdateRcvBufSize n c = c\<lparr>fIsValid := False, fRcvBufSize := n, fModified := True\<rparr>"

definition UpdateSndKernelSize :: "int \<Rightarrow> 's FairMQChannel \<Rightarrow> 's FairMQChannel" where
  "UpdateSndKernelSize n c = c\<lparr>fIsValid := False, fSndKernelSize := n, fModified := True\<rparr>"

definition UpdateRcvKernelSize :: "int \<Rightarrow> 's FairMQChannel \<Rightarrow> 's FairMQChannel" where
  "UpdateRcvKernelSize n c = c\<lparr>fIsValid := False, fRcvKernelSize := n, fModified := True\<rparr>"

definition UpdateRateLogging :: "int \<Rightarrow> 's FairMQChannel \<Rightarrow> 's FairMQChannel" where
  "UpdateRateLogging n c = c\<lparr>fIsValid := False, fRateLogging := n, fModified := True\<rparr>"

definition SetModified :: "bool \<Rightarrow> 's FairMQChannel \<Rightarrow> 's FairMQChannel" where
  "SetModified modified c = c\<lparr>fModified := modified\<rparr>"

definition UpdateChannelName :: "string \<Rightarrow> 's FairMQChannel \<Rightarrow> 's FairMQChannel" where
  "UpdateChannelName name c = c\<lparr>fIsValid := False, fName := name, fModified := True\<rparr>"

definition IsValid :: "'s FairMQChannel \<Rightarrow> bool" where
  "IsValid c = fIsValid c"

definition InitTransport :: "factory \<Rightarrow> 's FairMQChannel \<Rightarrow> 's FairMQChannel" where
  "InitTransport f c = c\<lparr>fTransportFactory := Some f, fTransportType := fTransportType_of f\<rparr>"

definition ResetChannel :: "'s FairMQChannel \<Rightarrow> 's FairMQChannel" where
  "ResetChannel c = c\<lparr>fIsValid := False\<rparr>"

section \<open>Validation\<close>

definition socketTypeNames :: "string list" where
  "socketTypeNames =
     [''sub'', ''pub'', ''pull'', ''push'', ''req'', ''rep'', ''xsub'', ''xpub'', ''dealer'',
      ''router'', ''pair'']"

definition socketMethodNames :: "string list" where
  "socketMethodNames = [''bind'', ''connect'']"

text \<open>Reading \<open>endpoint[0]\<close> of an empty string gives the terminating zero, no modifier.\<close>

definition has_modifier :: "string \<Rightarrow> bool" where
  "has_modifier endpoint \<longleftrightarrow> endpoint \<noteq> [] \<and> hd endpoint \<in> {CHR ''@'', CHR ''+'', CHR ''>''}"

definition check_address :: "string \<Rightarrow> bool outcome" where
  "check_address address =
     (if starts_with 6 ''tcp://'' address
      then and_then (substr_from 6 address) (\<lambda>s. Returns (str_find CHR '':'' s \<noteq> None))
      else if starts_with 6 ''ipc://'' address
      then and_then (substr_from 6 address) (\<lambda>s. Returns (s \<noteq> ''''))
      else if starts_with 9 ''inproc://'' address
      then and_then (substr_from 9 address) (\<lambda>s. Returns (s \<noteq> ''''))
      else if starts_with 8 ''verbs://'' address
      then and_then (substr_from 9 address) (\<lambda>s. Returns (s \<noteq> ''''))
      else Returns False)"

definition check_endpoint :: "string \<Rightarrow> string \<Rightarrow> bool outcome" where
  "check_endpoint method endpoint =
     (if has_modifier endpoint
      then and_then (substr_from 1 endpoint) check_address
      else if method \<notin> set socketMethodNames then Exits
      else check_address endpoint)"

fun check_endpoints :: "string \<Rightarrow> string list \<Rightarrow> bool outcome" where
  "check_endpoints method [] = Returns True"
| "check_endpoints method (e # es) =
     and_then (check_endpoint method e)
       (\<lambda>valid. if valid then check_endpoints method es else Returns False)"

definition ValidateChannel :: "'s FairMQChannel \<Rightarrow> (bool \<times> 's FairMQChannel) outcome" where
  "ValidateChannel c =
     exit_on_exception
       (if fIsValid c then Returns (True, c)
        else if fType c \<notin> set socketTypeNames then Exits
        else if fAddress c = ''unspecified'' \<or> fAddress c = '''' then Returns (False, c)
        else and_then (check_endpoints (fMethod c) (split_any '';'' (fAddress c)))
          (\<lambda>valid.
             if \<not> valid then Returns (False, c)
             else if fSndBufSize c < 0 then Exits
             else if fRcvBufSize c < 0 then Exits
             else if fSndKernelSize c < 0 then Exits
             else if fRcvKernelSize c < 0 then Exits
             else if fRateLogging c < 0 then Exits
             else Returns (True, c\<lparr>fIsValid := True\<rparr>)))"

section \<open>Binding and connecting\<close>

definition Bind :: "'s FairMQSocket \<Rightarrow> string \<Rightarrow> 's FairMQChannel \<Rightarrow> (bool \<times> 's FairMQChannel) outcome" where
  "Bind v address c =
     (let c1 = c\<lparr>fMethod := ''bind'', fAddress := address\<rparr> in
      case fSocket c1 of
        None \<Rightarrow> Undefined
      | Some s \<Rightarrow> (let (b, s') = vBind v address s in Returns (b, c1\<lparr>fSocket := Some s'\<rparr>)))"

definition Connect :: "'s FairMQSocket \<Rightarrow> string \<Rightarrow> 's FairMQChannel \<Rightarrow> 's FairMQChannel outcome" where
  "Connect v address c =
     (let c1 = c\<lparr>fMethod := ''connect'', fAddress := address\<rparr> in
      case fSocket c1 of
        None \<Rightarrow> Undefined
      | Some s \<Rightarrow> Returns (c1\<lparr>fSocket := Some (vConnect v address s)\<rparr>))"

section \<open>Transfer\<close>

definition NewMessage :: "'s FairMQChannel \<Rightarrow> message outcome" where
  "NewMessage c =
     (case fTransportFactory c of None \<Rightarrow> Undefined | Some f \<Rightarrow> Returns (CreateMessage_empty f))"

definition NewMessage_wrapping :: "'s FairMQChannel \<Rightarrow> message \<Rightarrow> message outcome" where
  "NewMessage_wrapping c msg =
     (case fTransportFactory c of
        None \<Rightarrow> Undefined
      | Some f \<Rightarrow> Returns (CreateMessage_data f (mData msg) (Some msg)))"

definition CheckSendCompatibility :: "'s FairMQChannel \<Rightarrow> message \<Rightarrow> message outcome" where
  "CheckSendCompatibility c msg =
     (if fTransportType c \<noteq> mType msg then NewMessage_wrapping c msg else Returns msg)"

fun CheckSendCompatibility_vec :: "'s FairMQChannel \<Rightarrow> message list \<Rightarrow> message list outcome" where
  "CheckSendCompatibility_vec c [] = Returns []"
| "CheckSendCompatibility_vec c (msg # msgs) =
     and_then (if fTransportType c \<noteq> mType msg then NewMessage_wrapping c msg else Returns msg)
       (\<lambda>msg'. and_then (CheckSendCompatibility_vec c msgs) (\<lambda>msgs'. Returns (msg' # msgs')))"

definition CheckReceiveCompatibility :: "'s FairMQChannel \<Rightarrow> message \<Rightarrow> message outcome" where
  "CheckReceiveCompatibility c msg =
     (if fTransportType c \<noteq> mType msg then NewMessage c else Returns msg)"

fun CheckReceiveCompatibility_vec :: "'s FairMQChannel \<Rightarrow> message list \<Rightarrow> message list outcome" where
  "CheckReceiveCompatibility_vec c [] = Returns []"
| "CheckReceiveCompatibility_vec c (msg # msgs) =
     and_then (if fTransportType c \<noteq> mType msg then NewMessage c else Returns msg)
       (\<lambda>msg'. and_then (CheckReceiveCompatibility_vec c msgs) (\<lambda>msgs'. Returns (msg' # msgs')))"

text \<open>Calling a virtual function of the socket; a channel without a socket has undefined behaviour.\<close>

definition on_socket ::
    "('s \<Rightarrow> int \<times> 'm \<times> 's) \<Rightarrow> 's FairMQChannel \<Rightarrow> (int \<times> 'm \<times> 's FairMQChannel) outcome" where
  "on_socket call c =
     (case fSocket c of
        None \<Rightarrow> Undefined
      | Some s \<Rightarrow> (let (n, m, s') = call s in Returns (n, m, c\<lparr>fSocket := Some s'\<rparr>)))"

definition Send ::
    "'s FairMQSocket \<Rightarrow> message \<Rightarrow> 's FairMQChannel \<Rightarrow> (int \<times> message \<times> 's FairMQChannel) outcome" where
  "Send v msg c = and_then (CheckSendCompatibility c msg) (\<lambda>m. on_socket (vSend v m 0) c)"

definition Receive ::
    "'s FairMQSocket \<Rightarrow> message \<Rightarrow> 's FairMQChannel \<Rightarrow> (int \<times> message \<times> 's FairMQChannel) outcome" where
  "Receive v msg c = and_then (CheckReceiveCompatibility c msg) (\<lambda>m. on_socket (vReceive v m 0) c)"

definition Send_timeout ::
    "'s FairMQSocket \<Rightarrow> message \<Rightarrow> int \<Rightarrow> 's FairMQChannel \<Rightarrow> (int \<times> message \<times> 's FairMQChannel) outcome" where
  "Send_timeout v msg sndTimeoutInMs c = on_socket (vSend v msg sndTimeoutInMs) c"

definition Receive_timeout ::
    "'s FairMQSocket \<Rightarrow> message \<Rightarrow> int \<Rightarrow> 's FairMQChannel \<Rightarrow> (int \<times> message \<times> 's FairMQChannel) outcome" where
  "Receive_timeout v msg rcvTimeoutInMs c = on_socket (vReceive v msg rcvTimeoutInMs) c"

definition SendAsync ::
    "'s FairMQSocket \<Rightarrow> message \<Rightarrow> 's FairMQChannel \<Rightarrow> (int \<times> message \<times> 's FairMQChannel) outcome" where
  "SendAsync v msg c = and_then (CheckSendCompatibility c msg) (\<lambda>m. on_socket (vTrySend v m) c)"

definition ReceiveAsync ::
    "'s FairMQSocket \<Rightarrow> message \<Rightarrow> 's FairMQChannel \<Rightarrow> (int \<times> message \<times> 's FairMQChannel) outcome" where
  "ReceiveAsync v msg c = and_then (CheckReceiveCompatibility c msg) (\<lambda>m. on_socket (vTryReceive v m) c)"

definition Send_vec ::
    "'s FairMQSocket \<Rightarrow> message list \<Rightarrow> 's FairMQChannel \<Rightarrow> (int \<times> message list \<times> 's FairMQChannel) outcome" where
  "Send_vec v msgVec c = and_then (CheckSendCompatibility_vec c msgVec) (\<lambda>ms. on_socket (vSend_parts v ms 0) c)"

definition Receive_vec ::
    "'s FairMQSocket \<Rightarrow> message list \<Rightarrow> 's FairMQChannel \<Rightarrow> (int \<times> message list \<times> 's FairMQChannel) outcome" where
  "Receive_vec v msgVec c =
     and_then (CheckReceiveCompatibility_vec c msgVec) (\<lambda>ms. on_socket (vReceive_parts v ms 0) c)"

definition Send_vec_timeout ::
    "'s FairMQSocket \<Rightarrow> message list \<Rightarrow> int \<Rightarrow> 's FairMQChannel \<Rightarrow> (int \<times> message list \<times> 's FairMQChannel) outcome" where
  "Send_vec_timeout v msgVec sndTimeoutInMs c = on_socket (vSend_parts v msgVec sndTimeoutInMs) c"

definition Receive_vec_timeout ::
    "'s FairMQSocket \<Rightarrow> message list \<Rightarrow> int \<Rightarrow> 's FairMQChannel \<Rightarrow> (int \<times> message list \<times> 's FairMQChannel) outcome" where
  "Receive_vec_timeout v msgVec rcvTimeoutInMs c = on_socket (vReceive_parts v msgVec rcvTimeoutInMs) c"

definition SendAsync_vec ::
    "'s FairMQSocket \<Rightarrow> message list \<Rightarrow> 's FairMQChannel \<Rightarrow> (int \<times> message list \<times> 's FairMQChannel) outcome" where
  "SendAsync_vec v msgVec c = and_then (CheckSendCompatibility_vec c msgVec) (\<lambda>ms. on_socket (vTrySend_parts v ms) c)"

definition ReceiveAsync_vec ::
    "'s FairMQSocket \<Rightarrow> message list \<Rightarrow> 's FairMQChannel \<Rightarrow> (int \<times> message list \<times> 's FairMQChannel) outcome" where
  "ReceiveAsync_vec v msgVec c =
     and_then (CheckReceiveCompatibility_vec c msgVec) (\<lambda>ms. on_socket (vTryReceive_parts v ms) c)"

definition counter_of_socket :: "('s \<Rightarrow> uint64) \<Rightarrow> 's FairMQChannel \<Rightarrow> uint64 outcome" where
  "counter_of_socket get c = (case fSocket c of None \<Rightarrow> Undefined | Some s \<Rightarrow> Returns (get s))"

definition GetBytesTx :: "'s FairMQSocket \<Rightarrow> 's FairMQChannel \<Rightarrow> uint64 outcome" where
  "GetBytesTx v = counter_of_socket (vGetBytesTx v)"

definition GetBytesRx :: "'s FairMQSocket \<Rightarrow> 's FairMQChannel \<Rightarrow> uint64 outcome" where
  "GetBytesRx v = counter_of_socket (vGetBytesRx v)"

definition GetMessagesTx :: "'s FairMQSocket \<Rightarrow> 's FairMQChannel \<Rightarrow> uint64 outcome" where
  "GetMessagesTx v = counter_of_socket (vGetMessagesTx v)"

definition GetMessagesRx :: "'s FairMQSocket \<Rightarrow> 's FairMQChannel \<Rightarrow> uint64 outcome" where
  "GetMessagesRx v = counter_of_socket (vGetMessagesRx v)"

section \<open>What validation accepts\<close>

text \<open>The addresses and endpoints that validation accepts, stated without the order of its tests.\<close>

definition address_ok :: "string \<Rightarrow> bool" where
  "address_ok a \<longleftrightarrow>
     (\<exists>s. a = ''tcp://'' @ s \<and> CHR '':'' \<in> set s) \<or>
     (\<exists>s. a = ''ipc://'' @ s \<and> s \<noteq> []) \<or>
     (\<exists>s. a = ''inproc://'' @ s \<and> s \<noteq> []) \<or>
     (\<exists>s. a = ''verbs://'' @ s \<and> 2 \<le> length s)"

definition endpoint_ok :: "string \<Rightarrow> string \<Rightarrow> bool" where
  "endpoint_ok method e \<longleftrightarrow>
     (if has_modifier e then address_ok (tl e) else method \<in> set socketMethodNames \<and> address_ok e)"

definition config_ok :: "'s FairMQChannel \<Rightarrow> bool" where
  "config_ok c \<longleftrightarrow>
     fType c \<in> set socketTypeNames \<and>
     fAddress c \<noteq> ''unspecified'' \<and> fAddress c \<noteq> '''' \<and>
     (\<forall>e \<in> set (split_any '';'' (fAddress c)). endpoint_ok (fMethod c) e) \<and>
     0 \<le> fSndBufSize c \<and> 0 \<le> fRcvBufSize c \<and> 0 \<le> fSndKernelSize c \<and> 0 \<le> fRcvKernelSize c \<and>
     0 \<le> fRateLogging c"

lemma starts_with_iff: "length lit = n \<Longrightarrow> starts_with n lit s \<longleftrightarrow> (\<exists>t. s = lit @ t)"
  by (auto simp: starts_with_def) (metis append_take_drop_id)

lemma protocols_differ:
  "''ipc://'' @ s \<noteq> ''tcp://'' @ t" "''inproc://'' @ s \<noteq> ''tcp://'' @ t" "''verbs://'' @ s \<noteq> ''tcp://'' @ t"
  "''inproc://'' @ s \<noteq> ''ipc://'' @ t" "''verbs://'' @ s \<noteq> ''ipc://'' @ t" "''verbs://'' @ s \<noteq> ''inproc://'' @ t"
  by simp_all

lemma check_address_cases:
  fixes a :: string
  obtains (tcp) s where "a = ''tcp://'' @ s" | (ipc) s where "a = ''ipc://'' @ s"
    | (inproc) s where "a = ''inproc://'' @ s" | (verbs) s where "a = ''verbs://'' @ s"
    | (other) "\<nexists>s. a = ''tcp://'' @ s" "\<nexists>s. a = ''ipc://'' @ s" "\<nexists>s. a = ''inproc://'' @ s"
        "\<nexists>s. a = ''verbs://'' @ s"
  by blast

lemma check_address_tcp: "check_address (''tcp://'' @ s) = Returns (CHR '':'' \<in> set s)"
  by (simp add: check_address_def starts_with_def substr_from_def str_find_None_iff)

lemma check_address_ipc: "check_address (''ipc://'' @ s) = Returns (s \<noteq> [])"
  by (simp add: check_address_def starts_with_def substr_from_def)

lemma check_address_inproc: "check_address (''inproc://'' @ s) = Returns (s \<noteq> [])"
  by (simp add: check_address_def starts_with_def substr_from_def)

lemma check_address_verbs:
  "check_address (''verbs://'' @ s) = (if s = [] then Throws OutOfRange else Returns (2 \<le> length s))"
  by (cases s) (auto simp: check_address_def starts_with_def substr_from_def Suc_le_eq)

lemma check_address_other:
  assumes "\<nexists>s. a = ''tcp://'' @ s" "\<nexists>s. a = ''ipc://'' @ s" "\<nexists>s. a = ''inproc://'' @ s"
    "\<nexists>s. a = ''verbs://'' @ s"
  shows "check_address a = Returns False"
proof -
  have "\<not> starts_with 6 ''tcp://'' a" "\<not> starts_with 6 ''ipc://'' a" "\<not> starts_with 9 ''inproc://'' a"
    "\<not> starts_with 8 ''verbs://'' a"
    using assms by (simp_all add: starts_with_iff)
  then show ?thesis by (simp add: check_address_def)
qed

lemma address_ok_simps:
  "address_ok (''tcp://'' @ s) \<longleftrightarrow> CHR '':'' \<in> set s"
  "address_ok (''ipc://'' @ s) \<longleftrightarrow> s \<noteq> []"
  "address_ok (''inproc://'' @ s) \<longleftrightarrow> s \<noteq> []"
  "address_ok (''verbs://'' @ s) \<longleftrightarrow> 2 \<le> length s"
  by (simp_all add: address_ok_def)

lemma check_address_True_iff: "check_address a = Returns True \<longleftrightarrow> address_ok a"
proof (cases a rule: check_address_cases)
  case other
  then show ?thesis using check_address_other [OF other] by (auto simp: address_ok_def)
qed (simp_all only: check_address_tcp check_address_ipc check_address_inproc check_address_verbs address_ok_simps,
    auto)

lemma check_address_Throws_iff: "check_address a = Throws x \<longleftrightarrow> a = ''verbs://'' \<and> x = OutOfRange"
proof (cases a rule: check_address_cases)
  case (verbs s)
  then show ?thesis by (simp only: check_address_verbs) auto
next
  case other
  then show ?thesis using check_address_other [OF other] by auto
qed (simp_all only: check_address_tcp check_address_ipc check_address_inproc, simp_all)

lemma check_address_not_Exits [simp]: "check_address a \<noteq> Exits" "check_address a \<noteq> Undefined"
  by (simp_all add: check_address_def substr_from_def)

lemma substr_from_1: "e \<noteq> [] \<Longrightarrow> substr_from (Suc 0) e = Returns (tl e)"
  by (cases e) (simp_all add: substr_from_def)

lemma check_endpoint_True_iff: "check_endpoint m e = Returns True \<longleftrightarrow> endpoint_ok m e"
  by (auto simp: check_endpoint_def endpoint_ok_def has_modifier_def substr_from_1 check_address_True_iff)

lemma check_endpoints_True_iff: "check_endpoints m es = Returns True \<longleftrightarrow> (\<forall>e \<in> set es. endpoint_ok m e)"
proof (induction es)
  case (Cons e es)
  have "check_endpoints m (e # es) = Returns True \<longleftrightarrow>
      check_endpoint m e = Returns True \<and> check_endpoints m es = Returns True"
    by (auto simp: outcome_simps split: if_splits)
  then show ?case using Cons by (simp add: check_endpoint_True_iff)
qed simp

lemma check_endpoint_defined: "check_endpoint m e \<noteq> Undefined"
  by (auto simp: check_endpoint_def has_modifier_def substr_from_1)

lemma check_endpoints_defined: "check_endpoints m es \<noteq> Undefined"
  by (induction es) (auto simp: outcome_simps check_endpoint_defined split: if_splits)

lemma ValidateChannel_True_iff:
  "ValidateChannel c = Returns (True, c') \<longleftrightarrow> c' = c\<lparr>fIsValid := True\<rparr> \<and> (fIsValid c \<or> config_ok c)"
  by (auto simp: ValidateChannel_def outcome_simps config_ok_def check_endpoints_True_iff split: if_splits)

lemma ValidateChannel_False:
  assumes "ValidateChannel c = Returns (False, c')"
  shows "c' = c \<and> \<not> fIsValid c \<and> \<not> config_ok c"
proof -
  have v: "\<not> fIsValid c" "c' = c" using assms
    by (auto simp: ValidateChannel_def outcome_simps split: if_splits)
  moreover have "\<not> config_ok c"
  proof
    assume "config_ok c"
    then have "ValidateChannel c = Returns (True, c\<lparr>fIsValid := True\<rparr>)" by (simp add: ValidateChannel_True_iff)
    then show False using assms by simp
  qed
  ultimately show ?thesis by simp
qed

section \<open>Channels that were only configured\<close>

text \<open>The channels that the constructors and the configuration interface of the class produce.\<close>

inductive configured :: "'s FairMQChannel \<Rightarrow> bool" where
  new: "configured FairMQChannel_default"
| new_configured: "configured (FairMQChannel_configured t m a)"
| new_with_factory: "configured (FairMQChannel_with_factory create n t f)"
| copied: "configured c \<Longrightarrow> configured (FairMQChannel_copy c)"
| assigned: "configured c \<Longrightarrow> configured d \<Longrightarrow> configured (FairMQChannel_assign c d)"
| type_updated: "configured c \<Longrightarrow> configured (UpdateType s c)"
| method_updated: "configured c \<Longrightarrow> configured (UpdateMethod s c)"
| address_updated: "configured c \<Longrightarrow> configured (UpdateAddress s c)"
| transport_updated: "configured c \<Longrightarrow> UpdateTransport s c = Returns d \<Longrightarrow> configured d"
| snd_buf_updated: "configured c \<Longrightarrow> configured (UpdateSndBufSize n c)"
| rcv_buf_updated: "configured c \<Longrightarrow> configured (UpdateRcvBufSize n c)"
| snd_kernel_updated: "configured c \<Longrightarrow> configured (UpdateSndKernelSize n c)"
| rcv_kernel_updated: "configured c \<Longrightarrow> configured (UpdateRcvKernelSize n c)"
| rate_logging_updated: "configured c \<Longrightarrow> configured (UpdateRateLogging n c)"
| name_updated: "configured c \<Longrightarrow> configured (UpdateChannelName s c)"
| modified_set: "configured c \<Longrightarrow> configured (SetModified b c)"
| validated: "configured c \<Longrightarrow> ValidateChannel c = Returns (b, d) \<Longrightarrow> configured d"
| transport_initialised: "configured c \<Longrightarrow> configured (InitTransport f c)"
| reset: "configured c \<Longrightarrow> configured (ResetChannel c)"

lemma config_ok_update [simp]:
  "config_ok (c\<lparr>fIsValid := b\<rparr>) = config_ok c"
  "config_ok (c\<lparr>fModified := b\<rparr>) = config_ok c"
  "config_ok (c\<lparr>fTransportFactory := f\<rparr>) = config_ok c"
  "config_ok (c\<lparr>fTransportType := t\<rparr>) = config_ok c"
  "config_ok (c\<lparr>fSocket := s\<rparr>) = config_ok c"
  by (simp_all add: config_ok_def)

lemmas channel_updates = UpdateType_def UpdateMethod_def UpdateAddress_def UpdateSndBufSize_def
  UpdateRcvBufSize_def UpdateSndKernelSize_def UpdateRcvKernelSize_def UpdateRateLogging_def
  UpdateChannelName_def SetModified_def ResetChannel_def InitTransport_def

lemmas channel_constructors = FairMQChannel_default_def FairMQChannel_configured_def
  FairMQChannel_with_factory_def FairMQChannel_copy_def FairMQChannel_assign_def

lemma configured_valid: "configured c \<Longrightarrow> fIsValid c \<Longrightarrow> config_ok c"
proof (induction rule: configured.induct)
  case (validated c b d)
  then show ?case
    by (cases b) (auto simp: ValidateChannel_True_iff dest: ValidateChannel_False)
qed (auto simp: channel_updates channel_constructors UpdateTransport_def outcome_simps)

section \<open>Names of subchannels\<close>

text \<open>The name that a device gives to the subchannel \<open>i\<close> of a channel.\<close>

definition subchannel_name :: "string \<Rightarrow> nat \<Rightarrow> string" where
  "subchannel_name prefix i = prefix @ ''['' @ nat_to_string i @ '']''"

lemma GetChannelPrefix_subchannel:
  "fName c = subchannel_name p i \<Longrightarrow> GetChannelPrefix c = Returns p"
  using str_rfind_split [of "CHR ''[''" "nat_to_string i @ '']''" p]
  by (simp add: GetChannelPrefix_def subchannel_name_def erase_from_def)

lemma GetChannelIndex_subchannel:
  "fName c = subchannel_name p i \<Longrightarrow> GetChannelIndex c = Returns (nat_to_string i)"
  using str_rfind_split [of "CHR '']''" "[]" "p @ ''['' @ nat_to_string i"]
    str_rfind_split [of "CHR ''[''" "nat_to_string i" p]
  by (simp add: GetChannelIndex_def subchannel_name_def erase_from_def)

section \<open>Adapting messages\<close>

lemma CheckSendCompatibility_vec_map:
  assumes "fTransportFactory c = Some f"
  shows "CheckSendCompatibility_vec c ms =
    Returns (map (\<lambda>m. if fTransportType c \<noteq> mType m
      then Message (fTransportType_of f) (mData m) (Some m) else m) ms)"
  by (induction ms) (auto simp: NewMessage_wrapping_def CreateMessage_data_def assms)

lemma CheckReceiveCompatibility_vec_map:
  assumes "fTransportFactory c = Some f"
  shows "CheckReceiveCompatibility_vec c ms =
    Returns (map (\<lambda>m. if fTransportType c \<noteq> mType m then Message (fTransportType_of f) [] None else m) ms)"
  by (induction ms) (auto simp: NewMessage_def CreateMessage_empty_def assms)

text \<open>A channel whose transport was initialised, so that factory and transport agree.\<close>

definition transport_ready :: "'s FairMQChannel \<Rightarrow> bool" where
  "transport_ready c \<longleftrightarrow>
     (case fTransportFactory c of None \<Rightarrow> False | Some f \<Rightarrow> fTransportType_of f = fTransportType c) \<and>
     fSocket c \<noteq> None"

section \<open>Properties\<close>



text \<open>
  C34. A channel that reports to be valid has an acceptable configuration, whatever sequence of
  constructions, copies, updates, validations and resets produced it: every update of the
  configuration withdraws the validation.
\<close>

theorem valid_channel_config_ok:
  assumes "configured c" "IsValid c"
  shows "config_ok c"
  using configured_valid assms by (auto simp: IsValid_def)

theorem valid_channel_config_ok_witness:
  "config_ok ((FairMQChannel_configured ''pull'' ''connect'' ''ipc://data'' :: nat FairMQChannel)\<lparr>fIsValid := True\<rparr>)"
proof -
  let ?c = "FairMQChannel_configured ''pull'' ''connect'' ''ipc://data'' :: nat FairMQChannel"
  have "address_ok (''ipc://'' @ ''data'')" by (simp only: address_ok_simps) simp
  then have "config_ok ?c"
    by (simp add: config_ok_def FairMQChannel_configured_def socketTypeNames_def endpoint_ok_def
        has_modifier_def socketMethodNames_def)
  then have "ValidateChannel ?c = Returns (True, ?c\<lparr>fIsValid := True\<rparr>)" by (simp add: ValidateChannel_True_iff)
  then have "configured (?c\<lparr>fIsValid := True\<rparr>)" using validated new_configured by blast
  then show ?thesis using valid_channel_config_ok [of "?c\<lparr>fIsValid := True\<rparr>"] by (simp add: IsValid_def)
qed

text \<open>
  \<open>Bind\<close> replaces the method and the address of a channel without withdrawing its validation: a
  channel that was validated and is then bound to an unacceptable address still reports to be valid.
\<close>

theorem Bind_keeps_stale_validation:
  assumes "IsValid c" "fSocket c = Some s" "\<not> endpoint_ok ''bind'' a" "set a \<inter> {CHR '';''} = {}"
  shows "\<exists>b c'. Bind v a c = Returns (b, c') \<and> IsValid c' \<and> \<not> config_ok c'"
proof -
  have "split_any '';'' a = [a]" using assms(4) by (simp add: split_any_no_sep)
  then show ?thesis using assms
    by (auto simp: Bind_def IsValid_def config_ok_def split: prod.splits)
qed

text \<open>A socket that accepts everything and counts the calls.\<close>

definition counting_socket :: "nat FairMQSocket" where
  "counting_socket =
     \<lparr>vBind = \<lambda>_ n. (True, Suc n), vConnect = \<lambda>_ n. Suc n, vSetOption = \<lambda>_ _ n. n,
      vSend = \<lambda>m _ n. (int (GetSize m), m, Suc n), vReceive = \<lambda>m _ n. (int (GetSize m), m, Suc n),
      vSend_parts = \<lambda>ms _ n. (int (sum_list (map GetSize ms)), ms, Suc n),
      vReceive_parts = \<lambda>ms _ n. (int (sum_list (map GetSize ms)), ms, Suc n),
      vTrySend = \<lambda>m n. (int (GetSize m), m, Suc n), vTryReceive = \<lambda>m n. (int (GetSize m), m, Suc n),
      vTrySend_parts = \<lambda>ms n. (int (sum_list (map GetSize ms)), ms, Suc n),
      vTryReceive_parts = \<lambda>ms n. (int (sum_list (map GetSize ms)), ms, Suc n),
      vGetBytesTx = \<lambda>n. 0, vGetBytesRx = \<lambda>n. 0, vGetMessagesTx = \<lambda>n. of_nat n, vGetMessagesRx = \<lambda>n. 0\<rparr>"

theorem Bind_keeps_stale_validation_witness:
  "\<exists>b c'. Bind counting_socket ''nowhere''
      ((FairMQChannel_configured ''push'' ''bind'' ''tcp://*:5555'')\<lparr>fIsValid := True, fSocket := Some 0\<rparr>) =
      Returns (b, c') \<and> IsValid c' \<and> \<not> config_ok c'"
proof (rule Bind_keeps_stale_validation)
  show "\<not> endpoint_ok ''bind'' ''nowhere''"
    by (simp add: endpoint_ok_def has_modifier_def address_ok_def)
qed (auto simp: IsValid_def)

text \<open>
  The parts of a subchannel's name can be read back: for the name \<open>prefix[i]\<close> that devices give
  their subchannels, \<open>GetChannelPrefix\<close> returns the prefix, even one with brackets, and
  \<open>GetChannelIndex\<close> the decimal index. Distinct subchannels have distinct names. A name without an
  opening bracket makes \<open>GetChannelPrefix\<close> throw.
\<close>

theorem subchannel_name_roundtrip:
  "(fName c = subchannel_name p i \<longrightarrow>
      GetChannelPrefix c = Returns p \<and> GetChannelIndex c = Returns (nat_to_string i)) \<and>
   (CHR ''['' \<notin> set (fName c) \<longrightarrow> GetChannelPrefix c = Throws OutOfRange) \<and>
   (subchannel_name p i = subchannel_name q j \<longleftrightarrow> p = q \<and> i = j)"
proof (intro conjI)
  show "fName c = subchannel_name p i \<longrightarrow>
      GetChannelPrefix c = Returns p \<and> GetChannelIndex c = Returns (nat_to_string i)"
    using GetChannelPrefix_subchannel GetChannelIndex_subchannel by blast
  show "CHR ''['' \<notin> set (fName c) \<longrightarrow> GetChannelPrefix c = Throws OutOfRange"
    by (auto simp: GetChannelPrefix_def erase_from_def str_rfind_None_iff [THEN iffD2])
  have "p = q \<and> i = j" if eq: "subchannel_name p i = subchannel_name q j"
  proof -
    let ?c = "UpdateChannelName (subchannel_name p i) FairMQChannel_default :: nat FairMQChannel"
    have n: "fName ?c = subchannel_name p i" "fName ?c = subchannel_name q j"
      using eq by (simp_all add: UpdateChannelName_def)
    show ?thesis
      using GetChannelPrefix_subchannel [OF n(1)] GetChannelPrefix_subchannel [OF n(2)]
        GetChannelIndex_subchannel [OF n(1)] GetChannelIndex_subchannel [OF n(2)] by simp
  qed
  then show "subchannel_name p i = subchannel_name q j \<longleftrightarrow> p = q \<and> i = j" by auto
qed

theorem subchannel_name_roundtrip_witness:
  "GetChannelPrefix (UpdateChannelName (subchannel_name ''data'' 3) FairMQChannel_default :: nat FairMQChannel) =
     Returns ''data'' \<and>
   GetChannelPrefix (UpdateChannelName ''data'' FairMQChannel_default :: nat FairMQChannel) = Throws OutOfRange"
  using subchannel_name_roundtrip
      [of "UpdateChannelName (subchannel_name ''data'' 3) FairMQChannel_default :: nat FairMQChannel" "''data''" 3]
    subchannel_name_roundtrip [of "UpdateChannelName ''data'' FairMQChannel_default :: nat FairMQChannel"]
  by (simp add: UpdateChannelName_def)


definition shm_channel :: "nat FairMQChannel" where
  "shm_channel =
     InitTransport \<lparr>fTransportType_of = SHM, fkId = ''id''\<rparr>
       ((FairMQChannel_configured ''push'' ''bind'' ''ipc://x'')\<lparr>fSocket := Some 0\<rparr>)"


text \<open>
  The timed transfers skip this step: whatever the transport of the message, they hand it to the
  socket as it is.
\<close>

theorem timed_transfers_do_not_adapt:
  assumes "fSocket c = Some s"
  shows "\<exists>n m' s'. vSend v m t s = (n, m', s') \<and> Send_timeout v m t c = Returns (n, m', c\<lparr>fSocket := Some s'\<rparr>)"
  using assms by (cases "vSend v m t s") (simp add: Send_timeout_def on_socket_def)

theorem timed_transfers_do_not_adapt_witness:
  "fTransportType shm_channel \<noteq> ZMQ \<and>
   Send_timeout counting_socket (Message ZMQ [7] None) 100 shm_channel =
     Returns (1, Message ZMQ [7] None, shm_channel\<lparr>fSocket := Some 1\<rparr>)"
  using timed_transfers_do_not_adapt [of shm_channel 0 counting_socket "Message ZMQ [7] None" 100]
  by (auto simp: shm_channel_def InitTransport_def counting_socket_def GetSize_def)

end
