(* ===== verification/Config_Parser.thy ===== *)
theory Config_Parser
  imports Channel
begin

text \<open>
  The readers of channel configurations: \<open>fairmq/options/FairMQParser.cxx\<close>, which turns a property
  tree into a map of channels, and \<open>fairmq/options/FairMQSuboptParser.{h,cxx}\<close>, which builds such a
  tree from \<open>key=value\<close> lists on the command line. \<open>boost::property_tree\<close> is a parameter: the record
  \<open>ptree\<close> has its operations over trees of type \<open>'t\<close>, and the locale \<open>property_tree\<close> states what of
  their documentation is used. \<open>getsubopt\<close> of the C library is modelled.
\<close>

section \<open>Property trees\<close>

text \<open>
  The children in their order, the value at a one-component path as a string or as an \<open>int\<close> (\<open>None\<close>
  where there is none or it cannot be converted), the subtree at a path, and the constructions.
\<close>

record 't ptree =
  pt_children :: "'t \<Rightarrow> (string \<times> 't) list"
  pt_get_string :: "'t \<Rightarrow> string \<Rightarrow> string option"
  pt_get_int :: "'t \<Rightarrow> string \<Rightarrow> int option"
  pt_get_child :: "'t \<Rightarrow> string \<Rightarrow> 't option"
  pt_new :: 't
  pt_put :: "string \<Rightarrow> string \<Rightarrow> 't \<Rightarrow> 't"
  pt_push_back :: "'t \<Rightarrow> 't \<Rightarrow> 't"
  pt_add_child :: "string \<Rightarrow> 't \<Rightarrow> 't \<Rightarrow> 't"

definition get_default :: "'a option \<Rightarrow> 'a \<Rightarrow> 'a" where
  "get_default x d = (case x of None \<Rightarrow> d | Some v \<Rightarrow> v)"

definition get_required :: "'a option \<Rightarrow> 'a outcome" where
  "get_required x = (case x of None \<Rightarrow> Throws PTreeError | Some v \<Rightarrow> Returns v)"

section \<open>Reading channels from a tree\<close>

type_synonym 's channel_map = "(string \<times> 's FairMQChannel list) list"

text \<open>The nine updates that \<open>ChannelParser\<close> and \<open>SocketParser\<close> apply from the settings of a node.\<close>

definition apply_settings :: "'t ptree \<Rightarrow> 't \<Rightarrow> 's FairMQChannel \<Rightarrow> 's FairMQChannel outcome" where
  "apply_settings P t c =
     (let c1 = UpdateType (get_default (pt_get_string P t ''type'') (GetType c)) c;
          c2 = UpdateMethod (get_default (pt_get_string P t ''method'') (GetMethod c1)) c1;
          c3 = UpdateAddress (get_default (pt_get_string P t ''address'') (GetAddress c2)) c2
      in and_then (GetTransportName c3)
        (\<lambda>n. and_then (UpdateTransport (get_default (pt_get_string P t ''transport'') n) c3)
        (\<lambda>c4. let c5 = UpdateSndBufSize (get_default (pt_get_int P t ''sndBufSize'') (GetSndBufSize c4)) c4;
                  c6 = UpdateRcvBufSize (get_default (pt_get_int P t ''rcvBufSize'') (GetRcvBufSize c5)) c5;
                  c7 = UpdateSndKernelSize (get_default (pt_get_int P t ''sndKernelSize'') (GetSndKernelSize c6)) c6;
                  c8 = UpdateRcvKernelSize (get_default (pt_get_int P t ''rcvKernelSize'') (GetRcvKernelSize c7)) c7;
                  c9 = UpdateRateLogging (get_default (pt_get_int P t ''rateLogging'') (GetRateLogging c8)) c8
              in Returns c9)))"

definition SocketParser ::
    "'t ptree \<Rightarrow> 't \<Rightarrow> 's FairMQChannel \<Rightarrow> 's FairMQChannel list outcome" where
  "SocketParser P tree commonChannel =
     and_then
       (fold_outcome
          (\<lambda>(k, p) channelList.
             if k = ''sockets''
             then fold_outcome
               (\<lambda>(_, q) channelList.
                  and_then (apply_settings P q (FairMQChannel_copy commonChannel))
                    (\<lambda>channel. Returns (channelList @ [FairMQChannel_copy channel])))
               (pt_children P p) channelList
             else Returns channelList)
          (pt_children P tree) [])
       (\<lambda>channelList.
          if channelList \<noteq> [] then Returns channelList
          else Returns [FairMQChannel_copy (FairMQChannel_copy commonChannel)])"

definition channel_entry ::
    "'t ptree \<Rightarrow> 't \<Rightarrow> 's channel_map \<Rightarrow> 's channel_map outcome" where
  "channel_entry P q channelMap =
     and_then (get_required (pt_get_string P q ''name''))
       (\<lambda>channelKey.
          let numSockets = get_default (pt_get_int P q ''numSockets'') 0
          in and_then (apply_settings P q FairMQChannel_default)
            (\<lambda>commonChannel. and_then
               (if numSockets > 0
                then Returns (replicate (nat numSockets) (FairMQChannel_copy (FairMQChannel_copy commonChannel)))
                else SocketParser P q commonChannel)
               (\<lambda>channelList. Returns (map_insert channelKey channelList channelMap))))"

definition ChannelParser :: "'t ptree \<Rightarrow> 't \<Rightarrow> 's channel_map \<Rightarrow> 's channel_map outcome" where
  "ChannelParser P tree channelMap =
     fold_outcome
       (\<lambda>(k, p) m.
          if k = ''channels'' then fold_outcome (\<lambda>(_, q). channel_entry P q) (pt_children P p) m
          else Returns m)
       (pt_children P tree) channelMap"

text \<open>The name under which a device is listed: its key, or its id where it has no key.\<close>

definition device_key :: "'t ptree \<Rightarrow> 't \<Rightarrow> string outcome" where
  "device_key P q =
     (let key = get_default (pt_get_string P q ''key'') '''' in
      if key \<noteq> '''' then Returns key else get_required (pt_get_string P q ''id''))"

definition DeviceParser ::
    "'t ptree \<Rightarrow> 't \<Rightarrow> string \<Rightarrow> 's channel_map \<Rightarrow> 's channel_map outcome" where
  "DeviceParser P tree deviceId channelMap =
     fold_outcome
       (\<lambda>(k, p) m.
          if k = ''devices''
          then fold_outcome
            (\<lambda>(_, q) m. and_then (device_key P q)
               (\<lambda>deviceIdKey. if deviceId \<noteq> deviceIdKey then Returns m else ChannelParser P q m))
            (pt_children P p) m
          else Returns m)
       (pt_children P tree) channelMap"

text \<open>The names that \<open>PrintDeviceList\<close> logs.\<close>

definition PrintDeviceList :: "'t ptree \<Rightarrow> 't \<Rightarrow> string list outcome" where
  "PrintDeviceList P tree =
     fold_outcome
       (\<lambda>(k, p) names.
          if k = ''devices''
          then fold_outcome
            (\<lambda>(_, q) names. and_then (device_key P q) (\<lambda>n. Returns (names @ [n])))
            (pt_children P p) names
          else Returns names)
       (pt_children P tree) []"

definition ptreeToMQMap :: "'t ptree \<Rightarrow> 't \<Rightarrow> string \<Rightarrow> string \<Rightarrow> 's channel_map outcome" where
  "ptreeToMQMap P pt ident rootNode =
     (if ident = '''' then Throws ParserError
      else and_then (get_required (pt_get_child P pt rootNode))
        (\<lambda>node. DeviceParser P node ident []))"

text \<open>\<open>read_json\<close> is the library's reader: the tree in a file, or an exception.\<close>

definition JSON_UserParser ::
    "'t ptree \<Rightarrow> (string \<Rightarrow> 't outcome) \<Rightarrow> string \<Rightarrow> string \<Rightarrow> string \<Rightarrow> 's channel_map outcome" where
  "JSON_UserParser P read_json filename deviceId rootNode =
     and_then (read_json filename) (\<lambda>pt. ptreeToMQMap P pt deviceId rootNode)"

section \<open>Reading channels from the command line\<close>

datatype channelOptionKeyId =
    NAME
  | SOCKTYPE
  | METHOD
  | ADDRESS
  | TRANSPORT
  | SNDBUFSIZE
  | RCVBUFSIZE
  | SNDKERNELSIZE
  | RCVKERNELSIZE
  | RATELOGGING
  | NUMSOCKETS

definition channelOptionKeys :: "(string \<times> channelOptionKeyId) list" where
  "channelOptionKeys =
    [(''name'', NAME),
     (''type'', SOCKTYPE),
     (''method'', METHOD),
     (''address'', ADDRESS),
     (''transport'', TRANSPORT),
     (''sndBufSize'', SNDBUFSIZE),
     (''rcvBufSize'', RCVBUFSIZE),
     (''sndKernelSize'', SNDKERNELSIZE),
     (''rcvKernelSize'', RCVKERNELSIZE),
     (''rateLogging'', RATELOGGING),
     (''numSockets'', NUMSOCKETS)]"

text \<open>
  One call of \<open>getsubopt\<close>: the suboption up to the next comma is split at its first equality sign;
  the result is the key found in the table (\<open>None\<close> for \<open>-1\<close>), the text after the sign (\<open>None\<close> for a
  null pointer; the whole suboption where the key is unknown), and what is left to parse.
\<close>

definition getsubopt :: "string \<Rightarrow> (channelOptionKeyId option \<times> string option) \<times> string" where
  "getsubopt s =
     (let token = takeWhile (\<lambda>c. c \<noteq> CHR '','') s;
          rest = drop (Suc (length token)) s;
          key = takeWhile (\<lambda>c. c \<noteq> CHR ''='') token;
          val = (if CHR ''='' \<in> set token then Some (drop (Suc (length key)) token) else None)
      in case map_of channelOptionKeys key of
           Some k \<Rightarrow> ((Some k, val), rest)
         | None \<Rightarrow> ((None, Some token), rest))"

record 't subopt_state =
  so_channelName :: string
  so_channelProperties :: 't
  so_socketsArray :: 't

definition key_name :: "channelOptionKeyId \<Rightarrow> string" where
  "key_name k = (case find (\<lambda>(n, k'). k' = k) channelOptionKeys of Some (n, _) \<Rightarrow> n | None \<Rightarrow> '''')"

definition subopt_step ::
    "'t ptree \<Rightarrow> channelOptionKeyId option \<times> string option \<Rightarrow> 't subopt_state \<Rightarrow> 't subopt_state outcome" where
  "subopt_step P opt st =
     (case opt of
        (Some NAME, Some v) \<Rightarrow>
          Returns (st\<lparr>so_channelName := v, so_channelProperties := pt_put P ''name'' v (so_channelProperties st)\<rparr>)
      | (Some NAME, None) \<Rightarrow> Undefined
      | (Some ADDRESS, Some v) \<Rightarrow>
          Returns (st\<lparr>so_socketsArray := pt_push_back P (pt_put P (key_name ADDRESS) v (pt_new P)) (so_socketsArray st)\<rparr>)
      | (Some ADDRESS, None) \<Rightarrow> Undefined
      | (Some k, Some v) \<Rightarrow>
          Returns (st\<lparr>so_channelProperties := pt_put P (key_name k) v (so_channelProperties st)\<rparr>)
      | (Some k, None) \<Rightarrow> Returns st
      | (None, v) \<Rightarrow> Returns st)"

function subopt_loop :: "'t ptree \<Rightarrow> string \<Rightarrow> 't subopt_state \<Rightarrow> 't subopt_state outcome" where
  "subopt_loop P subopts st =
     (if subopts = [] \<or> hd subopts = CHR '' '' then Returns st
      else and_then (subopt_step P (fst (getsubopt subopts)) st) (subopt_loop P (snd (getsubopt subopts))))"
  by auto
termination
  by (relation "measure (\<lambda>(P, s, st). length s)")
    (auto simp: getsubopt_def Let_def split: option.splits)

declare subopt_loop.simps [simp del]

definition subopt_channel :: "'t ptree \<Rightarrow> string \<Rightarrow> 't outcome" where
  "subopt_channel P token =
     and_then
       (subopt_loop P token
          \<lparr>so_channelName = '''', so_channelProperties = pt_new P, so_socketsArray = pt_new P\<rparr>)
       (\<lambda>st. Returns
          (if so_channelName st \<noteq> ''''
           then pt_add_child P ''sockets'' (so_socketsArray st) (so_channelProperties st)
           else so_channelProperties st))"

definition SUBOPT_UserParser ::
    "'t ptree \<Rightarrow> string list \<Rightarrow> string \<Rightarrow> string \<Rightarrow> 's channel_map outcome" where
  "SUBOPT_UserParser P channelConfig deviceId rootNode =
     and_then
       (fold_outcome
          (\<lambda>token channelsArray. and_then (subopt_channel P token)
             (\<lambda>c. Returns (pt_push_back P c channelsArray)))
          channelConfig (pt_new P))
       (\<lambda>channelsArray.
          let deviceProperties = pt_add_child P ''channels'' channelsArray (pt_put P ''id'' deviceId (pt_new P));
              devicesArray = pt_push_back P deviceProperties (pt_new P);
              pt = pt_add_child P ''fairMQOptions.devices'' devicesArray (pt_new P)
          in ptreeToMQMap P pt deviceId rootNode)"

section \<open>What is used of property trees\<close>

definition simple_key :: "string \<Rightarrow> bool" where
  "simple_key k \<longleftrightarrow> k \<noteq> [] \<and> CHR ''.'' \<notin> set k"

definition named :: "string \<Rightarrow> (string \<times> 't) list \<Rightarrow> 't list" where
  "named k xs = map snd (filter (\<lambda>(k', _). k' = k) xs)"

locale property_tree =
  fixes P :: "'t ptree" and to_int :: "string \<Rightarrow> int option"
  assumes children_new: "pt_children P (pt_new P) = []"
    and get_new: "simple_key k \<Longrightarrow> pt_get_string P (pt_new P) k = None"
    and get_put: "simple_key k \<Longrightarrow> simple_key k' \<Longrightarrow>
        pt_get_string P (pt_put P k v t) k' = (if k' = k then Some v else pt_get_string P t k')"
    and children_put: "simple_key k \<Longrightarrow> k' \<noteq> k \<Longrightarrow>
        named k' (pt_children P (pt_put P k v t)) = named k' (pt_children P t)"
    and children_push_back: "pt_children P (pt_push_back P c t) = pt_children P t @ [('''', c)]"
    and children_add_child: "simple_key k \<Longrightarrow> pt_children P (pt_add_child P k c t) = pt_children P t @ [(k, c)]"
    and get_add_child: "simple_key k \<Longrightarrow> simple_key k' \<Longrightarrow> k' \<noteq> k \<Longrightarrow>
        pt_get_string P (pt_add_child P k c t) k' = pt_get_string P t k'"
    and get_child_add_child: "simple_key a \<Longrightarrow> simple_key b \<Longrightarrow>
        \<exists>t. pt_get_child P (pt_add_child P (a @ ''.'' @ b) c (pt_new P)) a = Some t \<and>
            pt_children P t = [(b, c)]"
    and get_int: "pt_get_int P t k = Option.bind (pt_get_string P t k) to_int"

lemma fold_outcome_named:
  "fold_outcome (\<lambda>(k, p) b. if k = x then f p b else Returns b) xs = fold_outcome f (named x xs)"
proof (induction xs)
  case Nil
  show ?case by (rule ext) (simp add: named_def)
next
  case (Cons y xs)
  show ?case by (rule ext, cases y) (simp add: named_def Cons.IH [unfolded named_def])
qed

lemma fold_outcome_snd: "fold_outcome (\<lambda>(_, q). f q) xs = fold_outcome f (map snd xs)"
  by (simp add: fold_outcome_map case_prod_unfold)

lemma named_append [simp]: "named k (xs @ ys) = named k xs @ named k ys"
  by (simp add: named_def)

lemma named_Nil [simp]: "named k [] = []"
  by (simp add: named_def)

lemma named_single [simp]: "named k [(k', t)] = (if k' = k then [t] else [])"
  by (simp add: named_def)

lemma and_then_fold_Nil [simp]: "and_then x (fold_outcome f []) = x"
  by (cases x) simp_all

text \<open>The readers as loops over the named nodes.\<close>

lemma ChannelParser_alt:
  "ChannelParser P tree m =
     fold_outcome (\<lambda>p. fold_outcome (channel_entry P) (map snd (pt_children P p)))
       (named ''channels'' (pt_children P tree)) m"
  unfolding ChannelParser_def fold_outcome_named fold_outcome_snd ..

lemma SocketParser_alt:
  "SocketParser P tree c =
     and_then
       (fold_outcome
          (\<lambda>p. fold_outcome
             (\<lambda>q l. and_then (apply_settings P q (FairMQChannel_copy c))
                (\<lambda>d. Returns (l @ [FairMQChannel_copy d])))
             (map snd (pt_children P p)))
          (named ''sockets'' (pt_children P tree)) [])
       (\<lambda>l. if l \<noteq> [] then Returns l else Returns [FairMQChannel_copy (FairMQChannel_copy c)])"
  unfolding SocketParser_def fold_outcome_named by (simp add: fold_outcome_map case_prod_unfold)

section \<open>Settings of a channel\<close>

lemma FairMQChannel_copy_idem [simp]: "FairMQChannel_copy (FairMQChannel_copy c) = FairMQChannel_copy c"
  by (simp add: FairMQChannel_copy_def)

text \<open>What the settings of one node make of a channel, where its transport is known.\<close>

definition with_settings ::
    "'t ptree \<Rightarrow> 't \<Rightarrow> Transport \<Rightarrow> 's FairMQChannel \<Rightarrow> 's FairMQChannel" where
  "with_settings P t tt c =
     c\<lparr>fType := get_default (pt_get_string P t ''type'') (fType c),
       fMethod := get_default (pt_get_string P t ''method'') (fMethod c),
       fAddress := get_default (pt_get_string P t ''address'') (fAddress c),
       fTransportType := tt,
       fSndBufSize := get_default (pt_get_int P t ''sndBufSize'') (fSndBufSize c),
       fRcvBufSize := get_default (pt_get_int P t ''rcvBufSize'') (fRcvBufSize c),
       fSndKernelSize := get_default (pt_get_int P t ''sndKernelSize'') (fSndKernelSize c),
       fRcvKernelSize := get_default (pt_get_int P t ''rcvKernelSize'') (fRcvKernelSize c),
       fRateLogging := get_default (pt_get_int P t ''rateLogging'') (fRateLogging c),
       fIsValid := False, fModified := True\<rparr>"

definition transport_setting :: "string option \<Rightarrow> Transport \<Rightarrow> Transport outcome" where
  "transport_setting s d = (case s of None \<Rightarrow> Returns d | Some n \<Rightarrow> TransportType_at n)"

lemma get_default_simps [simp]: "get_default None d = d" "get_default (Some v) d = v"
  by (simp_all add: get_default_def)

lemma TransportName_exit [simp]: "exit_on_exception (TransportName_at t) = TransportName_at t"
  using TransportName_total [of t] by auto

lemma apply_settings_Returns:
  "apply_settings P t c =
     exit_on_exception (map_outcome_result (\<lambda>tt. with_settings P t tt c)
       (transport_setting (pt_get_string P t ''transport'') (fTransportType c)))"
proof -
  obtain n where n: "TransportName_at (fTransportType c) = Returns n" using TransportName_total by blast
  then have known: "TransportType_at n = Returns (fTransportType c)" by (simp add: transport_name_roundtrip)
  show ?thesis
  proof (cases "pt_get_string P t ''transport''")
    case None
    then show ?thesis using n known
      by (cases c) (simp add: apply_settings_def GetTransportName_def UpdateTransport_def transport_setting_def
          channel_updates with_settings_def map_outcome_result_def Let_def
          GetType_def GetMethod_def GetAddress_def GetSndBufSize_def GetRcvBufSize_def
          GetSndKernelSize_def GetRcvKernelSize_def GetRateLogging_def)
  next
    case (Some m)
    then show ?thesis using n
      by (cases c; cases "TransportType_at m")
        (simp_all add: apply_settings_def GetTransportName_def UpdateTransport_def transport_setting_def
          channel_updates with_settings_def map_outcome_result_def Let_def
          GetType_def GetMethod_def GetAddress_def GetSndBufSize_def GetRcvBufSize_def
          GetSndKernelSize_def GetRcvKernelSize_def GetRateLogging_def)
  qed
qed

section \<open>Suboptions can be read back\<close>

type_synonym settings = "(channelOptionKeyId \<times> string) list"

definition render :: "channelOptionKeyId \<times> string \<Rightarrow> string" where
  "render s = key_name (fst s) @ ''='' @ snd s"

definition render_all :: "settings \<Rightarrow> string" where
  "render_all ss = join_str '','' (map render ss)"

definition renderable :: "settings \<Rightarrow> bool" where
  "renderable ss \<longleftrightarrow> (\<forall>(k, v) \<in> set ss. CHR '','' \<notin> set v)"

lemma key_name_simps [simp]:
  "key_name NAME = ''name''" "key_name SOCKTYPE = ''type''" "key_name METHOD = ''method''"
  "key_name ADDRESS = ''address''" "key_name TRANSPORT = ''transport''"
  "key_name SNDBUFSIZE = ''sndBufSize''" "key_name RCVBUFSIZE = ''rcvBufSize''"
  "key_name SNDKERNELSIZE = ''sndKernelSize''" "key_name RCVKERNELSIZE = ''rcvKernelSize''"
  "key_name RATELOGGING = ''rateLogging''" "key_name NUMSOCKETS = ''numSockets''"
  by (simp_all add: key_name_def channelOptionKeys_def)

lemma key_name_plain: "set (key_name k) \<inter> {CHR '','', CHR ''='', CHR ''.'', CHR '' ''} = {}"
  by (cases k) simp_all

lemma key_name_inject [simp]: "key_name k = key_name k' \<longleftrightarrow> k = k'"
  by (cases k; cases k') simp_all

lemma lookup_key_name [simp]: "map_of channelOptionKeys (key_name k) = Some k"
  by (cases k) (simp_all add: channelOptionKeys_def)

lemma key_name_hd: "key_name k \<noteq> [] \<and> hd (key_name k) \<noteq> CHR '' ''"
  by (cases k) simp_all

lemma key_name_simple [simp]: "simple_key (key_name k)"
  using key_name_plain [of k] key_name_hd [of k] by (auto simp: simple_key_def)

lemma takeWhile_stop: "c \<notin> set xs \<Longrightarrow> takeWhile (\<lambda>d. d \<noteq> c) (xs @ c # ys) = xs"
  by (induction xs) auto

lemma takeWhile_all: "c \<notin> set xs \<Longrightarrow> takeWhile (\<lambda>d. d \<noteq> c) xs = xs"
  by (induction xs) auto

lemma getsubopt_token:
  assumes "CHR '','' \<notin> set v" "s = [] \<or> (\<exists>r. s = CHR '','' # r)"
  shows "getsubopt (render (k, v) @ s) = ((Some k, Some v), tl s)"
proof -
  have k: "CHR '','' \<notin> set (key_name k)" "CHR ''='' \<notin> set (key_name k)" using key_name_plain [of k] by auto
  then have "CHR '','' \<notin> set (render (k, v))" using assms(1) by (simp add: render_def)
  then have t: "takeWhile (\<lambda>c. c \<noteq> CHR '','') (render (k, v) @ s) = render (k, v)"
    using assms(2) takeWhile_stop takeWhile_all by (metis append_Nil2)
  have e: "takeWhile (\<lambda>c. c \<noteq> CHR ''='') (render (k, v)) = key_name k"
    unfolding render_def fst_conv snd_conv append_Cons append_Nil by (rule takeWhile_stop [OF k(2)])
  have "drop (Suc (length (render (k, v)))) (render (k, v) @ s) = tl s"
    using assms(2) by auto
  moreover have "drop (Suc (length (key_name k))) (render (k, v)) = v" "CHR ''='' \<in> set (render (k, v))"
    by (simp_all add: render_def)
  ultimately show ?thesis unfolding getsubopt_def t e Let_def by simp
qed

lemma render_hd: "render (k, v) \<noteq> [] \<and> hd (render (k, v)) \<noteq> CHR '' ''"
  using key_name_hd [of k] by (simp add: render_def)

lemma subopt_loop_render:
  assumes "renderable ss"
  shows "subopt_loop P (render_all ss) st =
    fold_outcome (subopt_step P) (map (\<lambda>(k, v). (Some k, Some v)) ss) st"
  using assms
proof (induction ss arbitrary: st)
  case Nil
  show ?case by (subst subopt_loop.simps) (simp add: render_all_def)
next
  case (Cons s ss)
  obtain k v where s: "s = (k, v)" by (cases s)
  have v: "CHR '','' \<notin> set v" and ss: "renderable ss" using Cons.prems s by (auto simp: renderable_def)
  define r where "r = (if ss = [] then [] else CHR '','' # render_all ss)"
  have all: "render_all (s # ss) = render (k, v) @ r"
    by (cases ss) (simp_all add: render_all_def r_def s join_str_Cons)
  have g: "getsubopt (render (k, v) @ r) = ((Some k, Some v), tl r)"
    by (rule getsubopt_token [OF v]) (simp add: r_def)
  have tl: "tl r = render_all ss" by (simp add: r_def render_all_def)
  have nsp: "render (k, v) @ r \<noteq> [] \<and> hd (render (k, v) @ r) \<noteq> CHR '' ''"
    using render_hd [of k v] by simp
  have "subopt_loop P (render_all (s # ss)) st =
      and_then (subopt_step P (Some k, Some v) st) (subopt_loop P (render_all ss))"
    unfolding all using nsp render_hd [of k v] by (subst subopt_loop.simps) (simp add: g tl)
  also have "subopt_loop P (render_all ss) =
      fold_outcome (subopt_step P) (map (\<lambda>(k, v). (Some k, Some v)) ss)"
    using Cons.IH [OF ss] by (rule ext)
  finally show ?case by (simp add: s)
qed

section \<open>The tree of a command line\<close>

definition setting :: "channelOptionKeyId \<Rightarrow> settings \<Rightarrow> string option" where
  "setting k ss = map_of (rev ss) k"

definition addresses :: "settings \<Rightarrow> string list" where
  "addresses ss = map snd (filter (\<lambda>(k, v). k = ADDRESS) ss)"

lemma setting_snoc: "setting k (ss @ [(k', v)]) = (if k' = k then Some v else setting k ss)"
  by (simp add: setting_def)

definition subopt_ok :: "'t ptree \<Rightarrow> settings \<Rightarrow> 't subopt_state \<Rightarrow> bool" where
  "subopt_ok P ss st \<longleftrightarrow>
     so_channelName st = get_default (setting NAME ss) '''' \<and>
     (\<forall>k. k \<noteq> ADDRESS \<longrightarrow> pt_get_string P (so_channelProperties st) (key_name k) = setting k ss) \<and>
     pt_get_string P (so_channelProperties st) ''address'' = None \<and>
     named ''sockets'' (pt_children P (so_channelProperties st)) = [] \<and>
     map snd (pt_children P (so_socketsArray st)) =
       map (\<lambda>a. pt_put P ''address'' a (pt_new P)) (addresses ss)"

context property_tree
begin

lemma simple_keys [simp]: "simple_key ''address''" "simple_key ''sockets''" "simple_key ''name''"
    "simple_key ''id''" "simple_key ''key''" "simple_key ''channels''" "simple_key ''devices''"
    "simple_key ''fairMQOptions''"
  by (simp_all add: simple_key_def)

lemma key_name_not_sockets [simp]: "key_name k \<noteq> ''sockets''" "''sockets'' \<noteq> key_name k"
  by (cases k; simp)+

lemma key_name_address: "key_name k = ''address'' \<longleftrightarrow> k = ADDRESS"
  by (cases k) simp_all

lemma subopt_step_plain:
  assumes "k \<noteq> ADDRESS"
  shows "subopt_step P (Some k, Some v) st =
    Returns (st\<lparr>so_channelName := (if k = NAME then v else so_channelName st),
                so_channelProperties := pt_put P (key_name k) v (so_channelProperties st)\<rparr>)"
  using assms by (cases k) (simp_all add: subopt_step_def)

lemma subopt_step_ok:
  assumes "subopt_ok P ss st"
  shows "\<exists>st'. subopt_step P (Some k, Some v) st = Returns st' \<and> subopt_ok P (ss @ [(k, v)]) st'"
proof (cases "k = ADDRESS")
  case True
  then show ?thesis using assms
    by (auto simp: subopt_step_def subopt_ok_def setting_snoc addresses_def children_push_back)
next
  case False
  have "pt_get_string P (pt_put P (key_name k) v t) ''address'' = pt_get_string P t ''address''" for t
    using get_put [of "key_name k" "''address''"] False key_name_address [of k] by auto
  then show ?thesis using assms False
    by (auto simp: subopt_step_plain subopt_ok_def setting_snoc addresses_def get_put children_put)
qed

lemma subopt_fold_ok:
  assumes "subopt_ok P ss0 st"
  shows "\<exists>st'. fold_outcome (subopt_step P) (map (\<lambda>(k, v). (Some k, Some v)) ss) st = Returns st' \<and>
           subopt_ok P (ss0 @ ss) st'"
  using assms
proof (induction ss arbitrary: ss0 st)
  case (Cons s ss)
  obtain k v where s: "s = (k, v)" by (cases s)
  from subopt_step_ok [OF Cons.prems, of k v] obtain st1 where
    st1: "subopt_step P (Some k, Some v) st = Returns st1" "subopt_ok P (ss0 @ [(k, v)]) st1" by auto
  from Cons.IH [OF st1(2)] show ?case using st1(1) s by simp
qed simp

lemma subopt_start: "subopt_ok P [] \<lparr>so_channelName = '''', so_channelProperties = pt_new P, so_socketsArray = pt_new P\<rparr>"
  by (simp add: subopt_ok_def setting_def addresses_def get_new children_new)

end

text \<open>The channels that a list of settings describes, without \<open>numSockets\<close>.\<close>

definition described_channel ::
    "(string \<Rightarrow> int option) \<Rightarrow> settings \<Rightarrow> Transport \<Rightarrow> string option \<Rightarrow> 's FairMQChannel \<Rightarrow> bool" where
  "described_channel to_int ss tt a c \<longleftrightarrow>
     GetType c = get_default (setting SOCKTYPE ss) ''unspecified'' \<and>
     GetMethod c = get_default (setting METHOD ss) ''unspecified'' \<and>
     GetAddress c = get_default a ''unspecified'' \<and>
     fTransportType c = tt \<and>
     GetSndBufSize c = get_default (Option.bind (setting SNDBUFSIZE ss) to_int) 1000 \<and>
     GetRcvBufSize c = get_default (Option.bind (setting RCVBUFSIZE ss) to_int) 1000 \<and>
     GetSndKernelSize c = get_default (Option.bind (setting SNDKERNELSIZE ss) to_int) 0 \<and>
     GetRcvKernelSize c = get_default (Option.bind (setting RCVKERNELSIZE ss) to_int) 0 \<and>
     GetRateLogging c = get_default (Option.bind (setting RATELOGGING ss) to_int) 1 \<and>
     \<not> IsValid c"

context property_tree
begin

lemma subopt_channel_node:
  assumes "renderable ss" "setting NAME ss = Some n" "n \<noteq> ''''"
  shows "\<exists>q. subopt_channel P (render_all ss) = Returns q \<and>
     (\<forall>k. k \<noteq> ADDRESS \<longrightarrow> pt_get_string P q (key_name k) = setting k ss) \<and>
     pt_get_string P q ''address'' = None \<and>
     (\<exists>sa. named ''sockets'' (pt_children P q) = [sa] \<and>
        map snd (pt_children P sa) = map (\<lambda>a. pt_put P ''address'' a (pt_new P)) (addresses ss))"
proof -
  from subopt_fold_ok [OF subopt_start, of ss] obtain st where
    st: "fold_outcome (subopt_step P) (map (\<lambda>(k, v). (Some k, Some v)) ss)
       \<lparr>so_channelName = '''', so_channelProperties = pt_new P, so_socketsArray = pt_new P\<rparr> = Returns st"
      "subopt_ok P ss st" by auto
  let ?q = "pt_add_child P ''sockets'' (so_socketsArray st) (so_channelProperties st)"
  have "so_channelName st \<noteq> ''''" using st(2) assms by (simp add: subopt_ok_def)
  then have "subopt_channel P (render_all ss) = Returns ?q"
    by (simp add: subopt_channel_def subopt_loop_render [OF assms(1)] st(1))
  then show ?thesis using st(2)
    by (auto simp: subopt_ok_def get_add_child children_add_child)
qed

lemma with_settings_described:
  assumes "\<forall>k. k \<noteq> ADDRESS \<longrightarrow> pt_get_string P q (key_name k) = setting k ss" "pt_get_string P q ''address'' = None"
  shows "described_channel to_int ss tt None (with_settings P q tt FairMQChannel_default)"
proof -
  note k = assms(1) [rule_format]
  show ?thesis
    using k [of SOCKTYPE] k [of METHOD] k [of SNDBUFSIZE] k [of RCVBUFSIZE] k [of SNDKERNELSIZE]
      k [of RCVKERNELSIZE] k [of RATELOGGING] assms(2)
    by (simp add: described_channel_def with_settings_def get_int FairMQChannel_default_def GetType_def
        GetMethod_def GetAddress_def GetSndBufSize_def GetRcvBufSize_def GetSndKernelSize_def
        GetRcvKernelSize_def GetRateLogging_def IsValid_def)
qed

lemma address_node_settings:
  "apply_settings P (pt_put P ''address'' a (pt_new P)) c =
     Returns (c\<lparr>fAddress := a, fIsValid := False, fModified := True\<rparr>)"
proof -
  have "pt_get_string P (pt_put P ''address'' a (pt_new P)) (key_name k) =
      (if k = ADDRESS then Some a else None)" for k
    using get_put [of "''address''" "key_name k"] by (simp add: get_new key_name_address)
  note g = this [of SOCKTYPE] this [of METHOD] this [of ADDRESS] this [of TRANSPORT] this [of SNDBUFSIZE]
    this [of RCVBUFSIZE] this [of SNDKERNELSIZE] this [of RCVKERNELSIZE] this [of RATELOGGING]
  show ?thesis using g
    by (cases c) (simp add: apply_settings_Returns transport_setting_def map_outcome_result_def
        with_settings_def get_int)
qed

lemma sockets_loop:
  "fold_outcome (\<lambda>q l. and_then (apply_settings P q (FairMQChannel_copy c)) (\<lambda>d. Returns (l @ [FairMQChannel_copy d])))
     (map (\<lambda>a. pt_put P ''address'' a (pt_new P)) as) l =
   Returns (l @ map (\<lambda>a. FairMQChannel_copy (FairMQChannel_copy c\<lparr>fAddress := a, fIsValid := False, fModified := True\<rparr>)) as)"
  by (induction as arbitrary: l) (simp_all add: address_node_settings)

lemma described_copy:
  "described_channel to_int ss tt a (FairMQChannel_copy c) \<longleftrightarrow> described_channel to_int ss tt a (c\<lparr>fIsValid := False\<rparr>)"
  by (simp add: described_channel_def FairMQChannel_copy_def GetType_def
        GetMethod_def GetAddress_def GetSndBufSize_def GetRcvBufSize_def GetSndKernelSize_def
        GetRcvKernelSize_def GetRateLogging_def IsValid_def)

lemma described_address:
  "described_channel to_int ss tt None c \<Longrightarrow>
   described_channel to_int ss tt (Some a)
     (FairMQChannel_copy (FairMQChannel_copy c\<lparr>fAddress := a, fIsValid := False, fModified := True\<rparr>))"
  by (simp add: described_channel_def FairMQChannel_copy_def GetType_def
        GetMethod_def GetAddress_def GetSndBufSize_def GetRcvBufSize_def GetSndKernelSize_def
        GetRcvKernelSize_def GetRateLogging_def IsValid_def)

lemma described_copies:
  "described_channel to_int ss tt None c \<Longrightarrow> described_channel to_int ss tt None (FairMQChannel_copy c)"
  by (simp add: described_channel_def FairMQChannel_copy_def GetType_def
        GetMethod_def GetAddress_def GetSndBufSize_def GetRcvBufSize_def GetSndKernelSize_def
        GetRcvKernelSize_def GetRateLogging_def IsValid_def)

lemma SocketParser_described:
  assumes "named ''sockets'' (pt_children P q) = [sa]"
    and "map snd (pt_children P sa) = map (\<lambda>a. pt_put P ''address'' a (pt_new P)) as"
  shows "SocketParser P q c = Returns
    (if as = [] then [FairMQChannel_copy c]
     else map (\<lambda>a. FairMQChannel_copy (FairMQChannel_copy c\<lparr>fAddress := a, fIsValid := False, fModified := True\<rparr>)) as)"
  by (simp add: SocketParser_alt assms sockets_loop)

end

text \<open>A list of settings that describes a channel: its name, its transport, and no \<open>numSockets\<close>.\<close>

definition well_described :: "(string \<Rightarrow> int option) \<Rightarrow> settings \<Rightarrow> string \<Rightarrow> Transport \<Rightarrow> bool" where
  "well_described to_int ss n tt \<longleftrightarrow>
     renderable ss \<and> setting NAME ss = Some n \<and> n \<noteq> '''' \<and>
     transport_setting (setting TRANSPORT ss) DEFAULT = Returns tt \<and>
     get_default (Option.bind (setting NUMSOCKETS ss) to_int) 0 \<le> 0"

definition described_channels ::
    "(string \<Rightarrow> int option) \<Rightarrow> settings \<Rightarrow> Transport \<Rightarrow> 's FairMQChannel list \<Rightarrow> bool" where
  "described_channels to_int ss tt cs \<longleftrightarrow>
     list_all2 (described_channel to_int ss tt)
       (if addresses ss = [] then [None] else map Some (addresses ss)) cs"

context property_tree
begin

lemma channel_entry_described:
  assumes "well_described to_int ss n tt" and q: "subopt_channel P (render_all ss) = Returns q"
  shows "\<exists>cs :: 's FairMQChannel list. (\<forall>m. channel_entry P q m = Returns (map_insert n cs m)) \<and> described_channels to_int ss tt cs"
proof -
  have ss: "renderable ss" "setting NAME ss = Some n" "n \<noteq> ''''"
    "transport_setting (setting TRANSPORT ss) DEFAULT = Returns tt"
    "get_default (Option.bind (setting NUMSOCKETS ss) to_int) 0 \<le> 0"
    using assms(1) by (simp_all add: well_described_def)
  from subopt_channel_node [OF ss(1-3)] q obtain sa where
    keys: "\<forall>k. k \<noteq> ADDRESS \<longrightarrow> pt_get_string P q (key_name k) = setting k ss"
      "pt_get_string P q ''address'' = None"
    and sa: "named ''sockets'' (pt_children P q) = [sa]"
      "map snd (pt_children P sa) = map (\<lambda>a. pt_put P ''address'' a (pt_new P)) (addresses ss)" by auto
  let ?c = "with_settings P q tt (FairMQChannel_default :: 's FairMQChannel)"
  let ?cs = "if addresses ss = [] then [FairMQChannel_copy ?c]
     else map (\<lambda>a. FairMQChannel_copy (FairMQChannel_copy ?c\<lparr>fAddress := a, fIsValid := False, fModified := True\<rparr>)) (addresses ss)"
  have k: "pt_get_string P q ''name'' = Some n" "pt_get_string P q ''transport'' = setting TRANSPORT ss"
    "pt_get_string P q ''numSockets'' = setting NUMSOCKETS ss"
    using keys(1) [rule_format, of NAME] keys(1) [rule_format, of TRANSPORT]
      keys(1) [rule_format, of NUMSOCKETS] ss(2) by simp_all
  have "apply_settings P q (FairMQChannel_default :: 's FairMQChannel) = Returns ?c"
    unfolding apply_settings_Returns k using ss(4)
    by (simp add: FairMQChannel_default_def map_outcome_result_def)
  moreover have "\<not> 0 < get_default (pt_get_int P q ''numSockets'') 0"
    using ss(5) by (simp add: get_int k)
  ultimately have "channel_entry P q m = Returns (map_insert n ?cs m)" for m
    by (simp add: channel_entry_def k get_required_def SocketParser_described [OF sa] Let_def)
  moreover have d: "described_channel to_int ss tt None ?c" by (rule with_settings_described [OF keys])
  then have "described_channels to_int ss tt ?cs"
    using d by (auto simp: described_channels_def list_all2_conv_all_nth described_copies described_address)
  ultimately show ?thesis by blast
qed

lemma SUBOPT_tree:
  assumes "deviceId \<noteq> ''''"
    and "fold_outcome (\<lambda>token arr. and_then (subopt_channel P token) (\<lambda>c. Returns (pt_push_back P c arr)))
           tokens (pt_new P) = Returns arr"
  shows "SUBOPT_UserParser P tokens deviceId ''fairMQOptions'' =
    fold_outcome (channel_entry P) (map snd (pt_children P arr)) []"
proof -
  let ?d = "pt_add_child P ''channels'' arr (pt_put P ''id'' deviceId (pt_new P))"
  from get_child_add_child [of "''fairMQOptions''" "''devices''" "pt_push_back P ?d (pt_new P)"] obtain t where
    t: "pt_get_child P (pt_add_child P ''fairMQOptions.devices'' (pt_push_back P ?d (pt_new P)) (pt_new P))
         ''fairMQOptions'' = Some t" "pt_children P t = [(''devices'', pt_push_back P ?d (pt_new P))]"
    by auto
  have "device_key P ?d = Returns deviceId"
    by (simp add: device_key_def get_add_child get_put get_new get_required_def)
  moreover have "named ''channels'' (pt_children P ?d) = [arr]"
    by (simp add: children_add_child children_put children_new)
  ultimately have "DeviceParser P t deviceId m = fold_outcome (channel_entry P) (map snd (pt_children P arr)) m" for m
    by (simp add: DeviceParser_def t(2) children_push_back children_new ChannelParser_alt)
  then show ?thesis
    unfolding SUBOPT_UserParser_def assms(2) and_then.simps Let_def ptreeToMQMap_def t(1)
    using assms(1) by (simp add: get_required_def)
qed

lemma subopt_channels_fold:
  assumes "list_all2 (\<lambda>tok q. subopt_channel P tok = Returns q) toks qs"
  shows "\<exists>arr'. fold_outcome (\<lambda>token arr. and_then (subopt_channel P token) (\<lambda>c. Returns (pt_push_back P c arr)))
           toks arr = Returns arr' \<and> map snd (pt_children P arr') = map snd (pt_children P arr) @ qs"
  using assms
proof (induction arbitrary: arr rule: list_all2_induct)
  case (Cons tok toks q qs)
  show ?case using Cons.IH [of "pt_push_back P q arr"] Cons.hyps by (auto simp: children_push_back)
qed simp

lemma channel_entries_fold:
  assumes "list_all2 (\<lambda>q (n, cs). \<forall>m. channel_entry P q m = Returns (map_insert n cs m)) qs es"
    and "distinct (map fst (m @ es))"
  shows "fold_outcome (channel_entry P) qs m = Returns (m @ es)"
  using assms
proof (induction arbitrary: m rule: list_all2_induct)
  case (Cons q qs e es)
  obtain n cs where e: "e = (n, cs)" by (cases e)
  have "channel_entry P q m = Returns (m @ [e])" using Cons.hyps(1) Cons.prems e by (auto simp: map_insert_def)
  then show ?case using Cons.IH [of "m @ [e]"] Cons.prems by simp
qed simp

lemma SUBOPT_UserParser_reads:
  assumes "list_all2 (\<lambda>ss (n, tt). well_described to_int ss n tt) sss nts"
    and "distinct (map fst nts)" "deviceId \<noteq> ''''"
  shows "\<exists>m :: 's channel_map. SUBOPT_UserParser P (map render_all sss) deviceId ''fairMQOptions'' = Returns m \<and>
    map fst m = map fst nts \<and>
    list_all2 (\<lambda>(ss, (n, tt)) (n', cs). described_channels to_int ss tt cs) (zip sss nts) m"
proof -
  have len: "length sss = length nts" using assms(1) by (rule list_all2_lengthD)
  have wd: "well_described to_int (sss ! i) (fst (nts ! i)) (snd (nts ! i))" if "i < length sss" for i
    using list_all2_nthD [OF assms(1) that] by (simp add: case_prod_unfold)
  have "\<exists>q. subopt_channel P (render_all (sss ! i)) = Returns q" if "i < length sss" for i
    using subopt_channel_node [of "sss ! i" "fst (nts ! i)"] wd [OF that] unfolding well_described_def by blast
  then obtain q where q: "\<And>i. i < length sss \<Longrightarrow> subopt_channel P (render_all (sss ! i)) = Returns (q i)" by metis
  have "\<exists>cs :: 's FairMQChannel list. (\<forall>m. channel_entry P (q i) m = Returns (map_insert (fst (nts ! i)) cs m)) \<and>
      described_channels to_int (sss ! i) (snd (nts ! i)) cs" if "i < length sss" for i
    by (rule channel_entry_described [OF wd q]) (rule that)+
  then obtain cs :: "nat \<Rightarrow> 's FairMQChannel list" where cs: "\<And>i m. i < length sss \<Longrightarrow> channel_entry P (q i) m = Returns (map_insert (fst (nts ! i)) (cs i) m)"
      "\<And>i. i < length sss \<Longrightarrow> described_channels to_int (sss ! i) (snd (nts ! i)) (cs i)"
    by metis
  let ?qs = "map q [0..<length sss]" and ?es = "map (\<lambda>i. (fst (nts ! i), cs i)) [0..<length sss]"
  have names: "map fst ?es = map fst nts" using len by (intro nth_equalityI) simp_all
  have "list_all2 (\<lambda>tok q. subopt_channel P tok = Returns q) (map render_all sss) ?qs"
    by (rule list_all2_all_nthI) (simp_all add: q)
  from subopt_channels_fold [OF this, of "pt_new P"] obtain arr where
    arr: "fold_outcome (\<lambda>token arr. and_then (subopt_channel P token) (\<lambda>c. Returns (pt_push_back P c arr)))
           (map render_all sss) (pt_new P) = Returns arr" "map snd (pt_children P arr) = ?qs"
    unfolding children_new list.map append_Nil by blast
  have "list_all2 (\<lambda>q (n, cs). \<forall>m. channel_entry P q m = Returns (map_insert n cs m)) ?qs ?es"
    by (rule list_all2_all_nthI) (simp_all add: cs(1))
  moreover have "distinct (map fst ([] @ ?es))" unfolding append_Nil names by (rule assms(2))
  ultimately have "fold_outcome (channel_entry P) ?qs [] = Returns ([] @ ?es)" by (rule channel_entries_fold)
  then have "SUBOPT_UserParser P (map render_all sss) deviceId ''fairMQOptions'' = Returns ?es"
    unfolding SUBOPT_tree [OF assms(3) arr(1)] arr(2) append_Nil .
  moreover have "list_all2 (\<lambda>(ss, (n, tt)) (n', cs). described_channels to_int ss tt cs) (zip sss nts) ?es"
    by (rule list_all2_all_nthI) (use cs(2) len in \<open>simp_all add: case_prod_unfold\<close>)
  ultimately show ?thesis using names by blast
qed

end

section \<open>A property tree\<close>

text \<open>
  Ordered trees with data at each node, addressed by paths of keys separated by full stops, satisfy
  what is used of \<open>boost::property_tree\<close>.
\<close>

datatype tree = Node (data: string) (kids: "(string \<times> tree) list")

definition path_keys :: "string \<Rightarrow> string list" where
  "path_keys p = (if p = '''' then [] else split_any [CHR ''.''] p)"

primrec walk :: "string list \<Rightarrow> tree \<Rightarrow> tree option" where
  "walk [] t = Some t"
| "walk (k # ks) t = Option.bind (map_of (kids t) k) (walk ks)"

fun upd_first :: "string \<Rightarrow> (tree \<Rightarrow> tree) \<Rightarrow> (string \<times> tree) list \<Rightarrow> (string \<times> tree) list" where
  "upd_first k f [] = [(k, f (Node '''' []))]"
| "upd_first k f ((k', c) # cs) = (if k' = k then (k', f c) # cs else (k', c) # upd_first k f cs)"

primrec at_path :: "string list \<Rightarrow> (tree \<Rightarrow> tree) \<Rightarrow> tree \<Rightarrow> tree" where
  "at_path [] f t = f t"
| "at_path (k # ks) f t = Node (data t) (upd_first k (at_path ks f) (kids t))"

definition add_last :: "string \<Rightarrow> tree \<Rightarrow> tree \<Rightarrow> tree" where
  "add_last k c t = Node (data t) (kids t @ [(k, c)])"

definition decimal :: "string \<Rightarrow> int option" where
  "decimal s =
     (if s \<noteq> '''' \<and> list_all (\<lambda>c. of_char c \<in> {48..57 :: nat}) s
      then Some (foldl (\<lambda>n c. 10 * n + (of_char c - 48)) 0 s) else None)"

definition tree_ptree :: "tree ptree" where
  "tree_ptree =
    \<lparr>pt_children = kids,
     pt_get_string = (\<lambda>t p. map_option data (walk (path_keys p) t)),
     pt_get_int = (\<lambda>t p. Option.bind (map_option data (walk (path_keys p) t)) decimal),
     pt_get_child = (\<lambda>t p. walk (path_keys p) t),
     pt_new = Node '''' [],
     pt_put = (\<lambda>p v. at_path (path_keys p) (\<lambda>t. Node v (kids t))),
     pt_push_back = add_last '''',
     pt_add_child = (\<lambda>p c. at_path (butlast (path_keys p)) (add_last (last (path_keys p)) c))\<rparr>"

lemma path_keys_simple: "simple_key k \<Longrightarrow> path_keys k = [k]"
  by (simp add: path_keys_def simple_key_def split_any_no_sep)

lemma path_keys_two: "simple_key a \<Longrightarrow> simple_key b \<Longrightarrow> path_keys (a @ CHR ''.'' # b) = [a, b]"
  by (simp add: path_keys_def simple_key_def split_any_no_sep split_any_append_sep)

lemma map_of_upd_first:
  "map_of (upd_first k f cs) k' =
     (if k' = k then Some (f (get_default (map_of cs k) (Node '''' []))) else map_of cs k')"
  by (induction cs) auto

lemma named_upd_first: "k' \<noteq> k \<Longrightarrow> named k' (upd_first k f cs) = named k' cs"
  by (induction cs) (auto simp: named_def)

interpretation trees: property_tree tree_ptree decimal
proof (unfold_locales, goal_cases)
  case (3 k k' v t)
  then show ?case by (auto simp: tree_ptree_def path_keys_simple map_of_upd_first)
next
  case (7 k k' c t)
  then show ?case by (auto simp: tree_ptree_def path_keys_simple add_last_def map_add_def split: option.splits)
next
  case (8 a b c)
  then show ?case
    by (auto simp: tree_ptree_def path_keys_two path_keys_simple add_last_def)
qed (simp_all add: tree_ptree_def path_keys_simple named_upd_first add_last_def)

section \<open>Properties\<close>

text \<open>
  The maps of channels that a configuration yields: no name twice, no empty list of sub-channels, and
  no channel taken for validated.
\<close>

definition parsed_ok :: "'s channel_map \<Rightarrow> bool" where
  "parsed_ok m \<longleftrightarrow> distinct (map fst m) \<and> (\<forall>(n, cs) \<in> set m. cs \<noteq> [] \<and> (\<forall>c \<in> set cs. \<not> IsValid c))"

lemma fresh_copy [simp]: "\<not> IsValid (FairMQChannel_copy c)"
  by (simp add: IsValid_def FairMQChannel_copy_def)

lemma fold_outcome_keeps:
  assumes "fold_outcome f xs b = Returns b'" "I b"
    and "\<And>x b b'. f x b = Returns b' \<Longrightarrow> I b \<Longrightarrow> I b'"
  shows "I b'"
  using assms(1,2) by (induction xs arbitrary: b) (auto simp: and_then_Returns_iff intro: assms(3))

lemma SocketParser_fresh:
  assumes "SocketParser P t c = Returns cs"
  shows "cs \<noteq> [] \<and> (\<forall>c \<in> set cs. \<not> IsValid c)"
proof -
  let ?I = "\<lambda>l :: 'a FairMQChannel list. \<forall>c \<in> set l. \<not> IsValid c"
  let ?s = "\<lambda>p. fold_outcome
             (\<lambda>q l. and_then (apply_settings P q (FairMQChannel_copy c))
                (\<lambda>d. Returns (l @ [FairMQChannel_copy d]))) (map snd (pt_children P p))"
  have s: "?s p l = Returns l' \<Longrightarrow> ?I l \<Longrightarrow> ?I l'" for p l l'
    by (erule fold_outcome_keeps) (auto simp: and_then_Returns_iff)
  from assms obtain l where l: "fold_outcome ?s (named ''sockets'' (pt_children P t)) [] = Returns l"
    "(if l \<noteq> [] then Returns l else Returns [FairMQChannel_copy (FairMQChannel_copy c)]) = Returns cs"
    unfolding SocketParser_alt and_then_Returns_iff by blast
  have "?I l" by (rule fold_outcome_keeps [OF l(1), where I = ?I]) (simp, rule s)
  then show ?thesis using l(2) by (cases l) auto
qed

lemma map_insert_keeps:
  "parsed_ok m \<Longrightarrow> cs \<noteq> [] \<and> (\<forall>c \<in> set cs. \<not> IsValid c) \<Longrightarrow> parsed_ok (map_insert n cs m)"
  by (auto simp: parsed_ok_def map_insert_def)

lemma channel_entry_keeps: "channel_entry P q m = Returns m' \<Longrightarrow> parsed_ok m \<Longrightarrow> parsed_ok m'"
  by (auto simp: channel_entry_def and_then_Returns_iff Let_def
      intro!: map_insert_keeps dest: SocketParser_fresh split: if_splits)

lemma ChannelParser_keeps: "ChannelParser P t m = Returns m' \<Longrightarrow> parsed_ok m \<Longrightarrow> parsed_ok m'"
  unfolding ChannelParser_alt
  by (erule fold_outcome_keeps, assumption, erule fold_outcome_keeps, assumption, rule channel_entry_keeps)

lemma DeviceParser_keeps: "DeviceParser P t i m = Returns m' \<Longrightarrow> parsed_ok m \<Longrightarrow> parsed_ok m'"
  unfolding DeviceParser_def fold_outcome_named
  by (erule fold_outcome_keeps, assumption, erule fold_outcome_keeps, assumption)
    (auto simp: and_then_Returns_iff split: if_splits intro: ChannelParser_keeps)

text \<open>
  C13: Writing channels as \<open>key=value\<close> lists on the command line and reading them back gives the channels
  described. For lists of settings with distinct non-empty names, whose values have no comma, whose
  transports are known and which do not ask for \<open>numSockets\<close>, \<open>SUBOPT\<close> returns a map with one entry
  for each list, under its name and in the given order, holding one sub-channel for each address (one
  with the unspecified address where there is none), each with the last value given for every
  setting, the defaults of \<open>FairMQChannel\<close> for the others, and not validated.
\<close>

theorem SUBOPT_reads_back:
  assumes "property_tree P to_int"
    and "list_all2 (\<lambda>ss (n, tt). well_described to_int ss n tt) sss nts"
    and "distinct (map fst nts)" "deviceId \<noteq> ''''"
  shows "\<exists>m :: 's channel_map. SUBOPT_UserParser P (map render_all sss) deviceId ''fairMQOptions'' = Returns m \<and>
    map fst m = map fst nts \<and>
    list_all2 (\<lambda>(ss, (n, tt)) (n', cs). described_channels to_int ss tt cs) (zip sss nts) m"
  by (rule property_tree.SUBOPT_UserParser_reads [OF assms])

definition data_in :: settings where
  "data_in = [(NAME, ''data''), (SOCKTYPE, ''pull''), (METHOD, ''connect''), (RATELOGGING, ''0''),
     (ADDRESS, ''tcp://a:5555''), (ADDRESS, ''tcp://b:5556'')]"

theorem SUBOPT_reads_back_witness:
  "well_described decimal data_in ''data'' DEFAULT \<and>
   (\<exists>m :: nat channel_map. SUBOPT_UserParser tree_ptree [render_all data_in] ''sink'' ''fairMQOptions'' = Returns m \<and>
     map fst m = [''data''] \<and> map (map GetAddress \<circ> snd) m = [[''tcp://a:5555'', ''tcp://b:5556'']])"
proof -
  have w: "well_described decimal data_in ''data'' DEFAULT"
    by (simp add: well_described_def data_in_def renderable_def setting_def transport_setting_def)
  have "\<exists>m :: nat channel_map. SUBOPT_UserParser tree_ptree (map render_all [data_in]) ''sink'' ''fairMQOptions'' = Returns m \<and>
    map fst m = map fst [(''data'', DEFAULT)] \<and>
    list_all2 (\<lambda>(ss, (n, tt)) (n', cs). described_channels decimal ss tt cs) (zip [data_in] [(''data'', DEFAULT)]) m"
    by (rule SUBOPT_reads_back [OF trees.property_tree_axioms]) (simp_all add: w)
  moreover have "addresses data_in = [''tcp://a:5555'', ''tcp://b:5556'']" by (simp add: addresses_def data_in_def)
  ultimately show ?thesis using w
    by (auto simp: list_all2_Cons1 described_channels_def described_channel_def)
qed

text \<open>
  Whatever tree is read, a map of channels returned by the parser has every name once, no empty
  list of sub-channels, and only channels that still have to be validated.
\<close>

theorem parsed_channels_ok: "ptreeToMQMap P pt ident rootNode = Returns m \<Longrightarrow> parsed_ok m"
  by (auto simp: ptreeToMQMap_def and_then_Returns_iff split: if_splits elim!: DeviceParser_keeps)
    (simp add: parsed_ok_def)

definition sink_tree :: tree where
  "sink_tree = Node '''' [(''top'', Node '''' [(''devices'', Node '''' [('''',
     Node '''' [(''id'', Node ''sink'' []), (''channels'', Node '''' [('''',
       Node '''' [(''name'', Node ''data'' []), (''numSockets'', Node ''2'' [])])])])])])]"

theorem parsed_channels_ok_witness:
  "\<exists>m :: nat channel_map. ptreeToMQMap tree_ptree sink_tree ''sink'' ''top'' = Returns m \<and> parsed_ok m \<and>
     map (\<lambda>(n, cs). (n, length cs)) m = [(''data'', 2)]"
proof -
  have "map_outcome_result (map (\<lambda>(n, cs). (n, length cs)))
      (ptreeToMQMap tree_ptree sink_tree ''sink'' ''top'' :: nat channel_map outcome) = Returns [(''data'', 2)]"
    by code_simp
  then show ?thesis using parsed_channels_ok by (auto simp: map_outcome_result_def and_then_Returns_iff)
qed

end
