(* ===== verification/Prog_Options.thy ===== *)
theory Prog_Options
  imports Config_Parser Event_Manager "HOL-Library.List_Lexorder" "HOL-Library.Char_ord"
begin

text \<open>
  The configuration of a device: \<open>fairmq/options/FairMQProgOptions.{h,cxx}\<close> and
  \<open>FairProgOptionsHelper.h\<close>. The options are held twice, as properties by key and as the channels
  they configure. The parser of \<open>boost::program_options\<close> and the formatting of floating point
  numbers and paths are parameters. Callbacks are recorded with what they are called with; they do
  not change the configuration themselves.
\<close>

section \<open>Values\<close>

datatype any_type =
    TString
  | TInt
  | TFloat
  | TDouble
  | TShort
  | TLong
  | TSize
  | TUint32
  | TUint64
  | TBool
  | TPath
  | TOther
  | TVector any_type

datatype 'f any_value =
    VString string
  | VInt int
  | VFloat 'f
  | VDouble 'f
  | VShort int
  | VLong int
  | VSize nat
  | VUint32 nat
  | VUint64 nat
  | VBool bool
  | VPath string
  | VOther
  | VVector any_type "'f any_value list"

fun type_of_value :: "'f any_value \<Rightarrow> any_type" where
  "type_of_value (VString _) = TString"
| "type_of_value (VInt _) = TInt"
| "type_of_value (VFloat _) = TFloat"
| "type_of_value (VDouble _) = TDouble"
| "type_of_value (VShort _) = TShort"
| "type_of_value (VLong _) = TLong"
| "type_of_value (VSize _) = TSize"
| "type_of_value (VUint32 _) = TUint32"
| "type_of_value (VUint64 _) = TUint64"
| "type_of_value (VBool _) = TBool"
| "type_of_value (VPath _) = TPath"
| "type_of_value VOther = TOther"
| "type_of_value (VVector t _) = TVector t"

record 'f printers =
  show_float :: "'f \<Rightarrow> string"
  show_double :: "'f \<Rightarrow> string"
  show_path :: "string \<Rightarrow> string"

definition int_to_string :: "int \<Rightarrow> string" where
  "int_to_string i = (if i < 0 then CHR ''-'' # nat_to_string (nat (- i)) else nat_to_string (nat i))"

text \<open>The output operators; the one for vectors puts two spaces after each element.\<close>

fun stream_value :: "'f printers \<Rightarrow> 'f any_value \<Rightarrow> string" where
  "stream_value F (VString s) = s"
| "stream_value F (VInt i) = int_to_string i"
| "stream_value F (VFloat x) = show_float F x"
| "stream_value F (VDouble x) = show_double F x"
| "stream_value F (VShort i) = int_to_string i"
| "stream_value F (VLong i) = int_to_string i"
| "stream_value F (VSize n) = nat_to_string n"
| "stream_value F (VUint32 n) = nat_to_string n"
| "stream_value F (VUint64 n) = nat_to_string n"
| "stream_value F (VBool b) = (if b then ''1'' else ''0'')"
| "stream_value F (VPath p) = show_path F p"
| "stream_value F VOther = ''''"
| "stream_value F (VVector t vs) = concat (map (\<lambda>v. stream_value F v @ ''  '') vs)"

text \<open>The types that \<open>ConvertVariableValue\<close> tries, in their order, with the names it gives them.\<close>

definition supported_types :: "(any_type \<times> string) list" where
  "supported_types =
    [(TString, ''<string>''),
     (TVector TString, ''<vector<string>>''),
     (TInt, ''<int>''),
     (TVector TInt, ''<vector<int>>''),
     (TFloat, ''<float>''),
     (TVector TFloat, ''<vector<float>>''),
     (TDouble, ''<double>''),
     (TVector TDouble, ''<vector<double>>''),
     (TShort, ''<short>''),
     (TVector TShort, ''<vector<short>>''),
     (TLong, ''<long>''),
     (TVector TLong, ''<vector<long>>''),
     (TSize, ''<std::size_t>''),
     (TVector TSize, ''<vector<std::size_t>>''),
     (TUint32, ''<std::uint32_t>''),
     (TVector TUint32, ''<vector<std::uint32_t>>''),
     (TUint64, ''<std::uint64_t>''),
     (TVector TUint64, ''<vector<std::uint64_t>>''),
     (TBool, ''<bool>''),
     (TVector TBool, ''<vector<bool>>''),
     (TPath, ''<boost::filesystem::path>''),
     (TVector TPath, ''<std::vector<boost::filesystem::path>>'')]"

record 'f variable_value =
  v_value :: "'f any_value"
  v_defaulted :: bool

record VarValInfo =
  vvi_value :: string
  vvi_type :: string
  vvi_defaulted :: string

definition ConvertVariableValue_ToVarValInfo :: "'f printers \<Rightarrow> 'f variable_value \<Rightarrow> VarValInfo" where
  "ConvertVariableValue_ToVarValInfo F varVal =
     (let defaulted = (if v_defaulted varVal then '' [default]'' else '' [provided]'')
      in case map_of supported_types (type_of_value (v_value varVal)) of
           Some type \<Rightarrow> \<lparr>vvi_value = stream_value F (v_value varVal), vvi_type = type, vvi_defaulted = defaulted\<rparr>
         | None \<Rightarrow> \<lparr>vvi_value = ''[unidentified]'', vvi_type = ''[unidentified]'', vvi_defaulted = defaulted\<rparr>)"

definition ConvertVariableValue_ToString :: "'f printers \<Rightarrow> 'f variable_value \<Rightarrow> string" where
  "ConvertVariableValue_ToString F varVal =
     (case map_of supported_types (type_of_value (v_value varVal)) of
        Some type \<Rightarrow> stream_value F (v_value varVal)
      | None \<Rightarrow> ''[unidentified]'')"

section \<open>Ordered maps\<close>

text \<open>\<open>std::map\<close> as a list that is sorted by its keys; the update receives the old value, if any.\<close>

fun omap_update :: "'k :: linorder \<Rightarrow> ('v option \<Rightarrow> 'v) \<Rightarrow> ('k \<times> 'v) list \<Rightarrow> ('k \<times> 'v) list" where
  "omap_update k f [] = [(k, f None)]"
| "omap_update k f ((k', v) # m) =
     (if k = k' then (k, f (Some v)) # m
      else if k < k' then (k, f None) # (k', v) # m
      else (k', v) # omap_update k f m)"

definition sorted_map :: "('k :: linorder \<times> 'v) list \<Rightarrow> bool" where
  "sorted_map m \<longleftrightarrow> sorted_wrt (<) (map fst m)"

lemma set_keys_omap_update: "fst ` set (omap_update k f m) = insert k (fst ` set m)"
  by (induction k f m rule: omap_update.induct) (simp_all add: insert_commute)

lemma sorted_omap_update: "sorted_map m \<Longrightarrow> sorted_map (omap_update k f m)"
proof (induction m)
  case (Cons e m)
  obtain k' v where e: "e = (k', v)" by (cases e)
  have "\<forall>x \<in> fst ` set (omap_update k f m). k' < x" if "\<not> k < k'" "k \<noteq> k'"
    using Cons.prems that e by (simp add: set_keys_omap_update sorted_map_def)
  then show ?case using Cons e by (auto simp: sorted_map_def intro: less_trans)
qed (simp add: sorted_map_def)

lemma map_of_omap_update:
  assumes "sorted_map m"
  shows "map_of (omap_update k f m) k' = (if k' = k then Some (f (map_of m k)) else map_of m k')"
  using assms
proof (induction m)
  case (Cons e m)
  obtain a v where e: "e = (a, v)" by (cases e)
  have "map_of m k = None" if "k < a"
    using Cons.prems that e by (force simp: map_of_eq_None_iff sorted_map_def)
  then show ?case using Cons e by (auto simp: sorted_map_def)
qed simp

section \<open>The configuration\<close>

record ChannelKey =
  ck_channel :: string
  ck_index :: nat
  ck_member :: string

datatype property_event = PropertyChange any_type | PropertyChangeAsString

record ('s, 'f, 'c) FairMQProgOptions =
  fVarMap :: "(string \<times> 'f variable_value) list"
  fFairMQChannelMap :: "'s channel_map"
  fAllOptions :: "string list"
  fChannelInfo :: "(string \<times> int) list"
  fChannelKeyMap :: "string \<rightharpoonup> ChannelKey"
  fUnregisteredOptions :: "string list"
  fEvents :: "(property_event, 'c) EventManager"
  notified :: "(property_event \<times> 'c \<times> string \<times> 'f any_value) list"

text \<open>The options a configuration knows from the start, and the values of those that have a default.\<close>

definition general_options :: "(string \<times> any_type) list" where
  "general_options =
    [(''help'', TOther), (''version'', TOther), (''severity'', TString), (''verbosity'', TString),
     (''color'', TBool), (''log-to-file'', TString), (''print-options'', TBool)]"

definition mq_options :: "(string \<times> any_type) list" where
  "mq_options =
    [(''id'', TString), (''io-threads'', TInt), (''transport'', TString), (''network-interface'', TString),
     (''config-key'', TString), (''initialization-timeout'', TInt), (''port-range-min'', TInt),
     (''port-range-max'', TInt), (''print-channels'', TBool), (''shm-segment-size'', TSize),
     (''shm-monitor'', TBool), (''rate'', TFloat), (''session'', TString)]"

definition parser_options :: "(string \<times> any_type) list" where
  "parser_options = [(''mq-config'', TString), (''channel-config'', TVector TString)]"

definition default_values :: "'f \<Rightarrow> (string \<times> 'f any_value) list" where
  "default_values zero =
    [(''severity'', VString ''debug''), (''verbosity'', VString ''medium''), (''color'', VBool True),
     (''log-to-file'', VString ''''), (''io-threads'', VInt 1), (''transport'', VString ''zeromq''),
     (''network-interface'', VString ''default''), (''initialization-timeout'', VInt 120),
     (''port-range-min'', VInt 22000), (''port-range-max'', VInt 32000),
     (''shm-segment-size'', VSize 2000000000), (''shm-monitor'', VBool True), (''rate'', VFloat zero),
     (''session'', VString ''default'')]"

subsection \<open>Properties\<close>

definition lookup_var :: "('s, 'f, 'c) FairMQProgOptions \<Rightarrow> string \<Rightarrow> 'f any_value option" where
  "lookup_var st key = map_option v_value (map_of (fVarMap st) key)"

definition Count :: "string \<Rightarrow> ('s, 'f, 'c) FairMQProgOptions \<Rightarrow> nat" where
  "Count key st = (if lookup_var st key = None then 0 else 1)"

text \<open>\<open>GetValue\<close> for the type of \<open>dflt\<close>, which stands for the default constructed value.\<close>

definition GetValue :: "'f any_value \<Rightarrow> string \<Rightarrow> ('s, 'f, 'c) FairMQProgOptions \<Rightarrow> 'f any_value outcome" where
  "GetValue dflt key st =
     (case lookup_var st key of
        None \<Rightarrow> Returns dflt
      | Some v \<Rightarrow> if type_of_value v = type_of_value dflt then Returns v else Throws BadAnyCast)"

definition GetStringValue :: "'f printers \<Rightarrow> string \<Rightarrow> ('s, 'f, 'c) FairMQProgOptions \<Rightarrow> string" where
  "GetStringValue F key st =
     (case map_of (fVarMap st) key of
        None \<Rightarrow> ''''
      | Some v \<Rightarrow> ConvertVariableValue_ToString F v)"

definition GetPropertyKeys :: "('s, 'f, 'c) FairMQProgOptions \<Rightarrow> string list" where
  "GetPropertyKeys st = map fst (fVarMap st)"

definition UpdateVarMap ::
    "string \<Rightarrow> 'f any_value \<Rightarrow> ('s, 'f, 'c) FairMQProgOptions \<Rightarrow> ('s, 'f, 'c) FairMQProgOptions" where
  "UpdateVarMap key val st =
     st\<lparr>fVarMap := omap_update key
          (\<lambda>old. case old of
             None \<Rightarrow> \<lparr>v_value = val, v_defaulted = False\<rparr>
           | Some v \<Rightarrow> v\<lparr>v_value := val\<rparr>)
          (fVarMap st)\<rparr>"

subsection \<open>Channels\<close>

definition GetFairMQMap :: "('s, 'f, 'c) FairMQProgOptions \<Rightarrow> 's channel_map" where
  "GetFairMQMap st = map (\<lambda>(n, cs). (n, map FairMQChannel_copy cs)) (fFairMQChannelMap st)"

definition GetChannelInfo :: "('s, 'f, 'c) FairMQProgOptions \<Rightarrow> (string \<times> int) list" where
  "GetChannelInfo st = fChannelInfo st"

definition AddChannel ::
    "string \<Rightarrow> 's FairMQChannel \<Rightarrow> ('s, 'f, 'c) FairMQProgOptions \<Rightarrow> ('s, 'f, 'c) FairMQProgOptions" where
  "AddChannel channelName channel st =
     st\<lparr>fFairMQChannelMap :=
          (if channelName \<in> fst ` set (fFairMQChannelMap st)
           then map (\<lambda>(n, cs). (n, if n = channelName then cs @ [FairMQChannel_copy channel] else cs))
             (fFairMQChannelMap st)
           else fFairMQChannelMap st @ [(channelName, [FairMQChannel_copy channel])])\<rparr>"

definition UpdateChannelInfo :: "('s, 'f, 'c) FairMQProgOptions \<Rightarrow> ('s, 'f, 'c) FairMQProgOptions" where
  "UpdateChannelInfo st =
     st\<lparr>fChannelInfo :=
          fold (\<lambda>c. map_insert (fst c) (int (length (snd c)))) (fFairMQChannelMap st) []\<rparr>"

definition chan_key :: "string \<Rightarrow> nat \<Rightarrow> string \<Rightarrow> string" where
  "chan_key name index member = ''chans.'' @ name @ ''.'' @ nat_to_string index @ ''.'' @ member"

definition numSockets_key :: "string \<Rightarrow> string" where
  "numSockets_key name = ''chans.'' @ name @ ''.numSockets''"

text \<open>The keys of one sub-channel, with the member that \<open>UpdateMQValues\<close> enters for each.\<close>

definition channel_keys :: "(string \<times> string) list" where
  "channel_keys =
    [(''type'', ''type''),
     (''method'', ''method''),
     (''address'', ''address''),
     (''transport'', ''transport''),
     (''sndBufSize'', ''sndBufSize''),
     (''rcvBufSize'', ''rcvBufSize''),
     (''sndKernelSize'', ''sndKernelSize''),
     (''rcvKernelSize'', ''rcvkernelSize''),
     (''rateLogging'', ''rateLogging'')]"

definition update_keys ::
    "string \<Rightarrow> nat \<Rightarrow> ('s, 'f, 'c) FairMQProgOptions \<Rightarrow> ('s, 'f, 'c) FairMQProgOptions" where
  "update_keys name index =
     fold (\<lambda>(key, member) st.
         st\<lparr>fChannelKeyMap := (fChannelKeyMap st)(chan_key name index key \<mapsto>
              \<lparr>ck_channel = name, ck_index = index, ck_member = member\<rparr>)\<rparr>)
       channel_keys"

definition update_channel_values ::
    "string \<Rightarrow> nat \<times> 's FairMQChannel \<Rightarrow> ('s, 'f, 'c) FairMQProgOptions \<Rightarrow> ('s, 'f, 'c) FairMQProgOptions outcome" where
  "update_channel_values name ic st =
     (let index = fst ic; channel = snd ic; st = update_keys name index st;
          st = UpdateVarMap (chan_key name index ''type'') (VString (GetType channel)) st;
          st = UpdateVarMap (chan_key name index ''method'') (VString (GetMethod channel)) st;
          st = UpdateVarMap (chan_key name index ''address'') (VString (GetAddress channel)) st
      in and_then (GetTransportName channel)
        (\<lambda>transport.
           let st = UpdateVarMap (chan_key name index ''transport'') (VString transport) st;
               st = UpdateVarMap (chan_key name index ''sndBufSize'') (VInt (GetSndBufSize channel)) st;
               st = UpdateVarMap (chan_key name index ''rcvBufSize'') (VInt (GetRcvBufSize channel)) st;
               st = UpdateVarMap (chan_key name index ''sndKernelSize'') (VInt (GetSndKernelSize channel)) st;
               st = UpdateVarMap (chan_key name index ''rcvKernelSize'') (VInt (GetRcvKernelSize channel)) st;
               st = UpdateVarMap (chan_key name index ''rateLogging'') (VInt (GetRateLogging channel)) st
           in Returns st))"

definition UpdateMQValues :: "('s, 'f, 'c) FairMQProgOptions \<Rightarrow> ('s, 'f, 'c) FairMQProgOptions outcome" where
  "UpdateMQValues st =
     fold_outcome
       (\<lambda>(name, channels) st.
          and_then (fold_outcome (update_channel_values name) (enumerate 0 channels) st)
            (\<lambda>st. Returns (UpdateVarMap (numSockets_key name) (VInt (int (length channels))) st)))
       (fFairMQChannelMap st) st"

definition UpdateChannelMap ::
    "'s channel_map \<Rightarrow> ('s, 'f, 'c) FairMQProgOptions \<Rightarrow> ('s, 'f, 'c) FairMQProgOptions outcome" where
  "UpdateChannelMap channels st =
     (let st = st\<lparr>fFairMQChannelMap := map (\<lambda>(n, cs). (n, map FairMQChannel_copy cs)) channels\<rparr>
      in UpdateMQValues (UpdateChannelInfo st))"

text \<open>An update of the sub-channel \<open>fFairMQChannelMap.at(channelName).at(index)\<close>.\<close>

definition at_channel ::
    "string \<Rightarrow> nat \<Rightarrow> ('s FairMQChannel \<Rightarrow> 's FairMQChannel outcome) \<Rightarrow>
     ('s, 'f, 'c) FairMQProgOptions \<Rightarrow> ('s, 'f, 'c) FairMQProgOptions outcome" where
  "at_channel channelName index f st =
     and_then (map_at (map_of (fFairMQChannelMap st)) channelName)
       (\<lambda>cs. and_then (vector_at cs index)
         (\<lambda>c. and_then (f c)
           (\<lambda>c'. Returns (st\<lparr>fFairMQChannelMap :=
              map (\<lambda>(n, ds). (n, if n = channelName then ds[index := c'] else ds)) (fFairMQChannelMap st)\<rparr>))))"

definition UpdateChannelValue_str ::
    "string \<Rightarrow> nat \<Rightarrow> string \<Rightarrow> string \<Rightarrow>
     ('s, 'f, 'c) FairMQProgOptions \<Rightarrow> (int \<times> ('s, 'f, 'c) FairMQProgOptions) outcome" where
  "UpdateChannelValue_str channelName index member val st =
     (if member = ''type'' then
        map_outcome_result (Pair 0) (at_channel channelName index (Returns \<circ> UpdateType val) st)
      else if member = ''method'' then
        map_outcome_result (Pair 0) (at_channel channelName index (Returns \<circ> UpdateMethod val) st)
      else if member = ''address'' then
        map_outcome_result (Pair 0) (at_channel channelName index (Returns \<circ> UpdateAddress val) st)
      else if member = ''transport'' then
        map_outcome_result (Pair 0) (at_channel channelName index (UpdateTransport val) st)
      else Returns (1, st))"

definition UpdateChannelValue_int ::
    "string \<Rightarrow> nat \<Rightarrow> string \<Rightarrow> int \<Rightarrow>
     ('s, 'f, 'c) FairMQProgOptions \<Rightarrow> (int \<times> ('s, 'f, 'c) FairMQProgOptions) outcome" where
  "UpdateChannelValue_int channelName index member val st =
     (if member = ''sndBufSize'' then
        map_outcome_result (Pair 0) (at_channel channelName index (Returns \<circ> UpdateSndBufSize val) st)
      else if member = ''rcvBufSize'' then
        map_outcome_result (Pair 0) (at_channel channelName index (Returns \<circ> UpdateRcvBufSize val) st)
      else if member = ''rateLogging'' then
        map_outcome_result (Pair 0) (at_channel channelName index (Returns \<circ> UpdateRateLogging val) st)
      else Returns (1, st))"

subsection \<open>Changing properties\<close>

definition notify ::
    "property_event \<Rightarrow> string \<Rightarrow> 'f any_value \<Rightarrow> ('s, 'f, 'c) FairMQProgOptions \<Rightarrow> ('s, 'f, 'c) FairMQProgOptions" where
  "notify event key val st =
     (let (callbacks, events) = Emit event (fEvents st)
      in st\<lparr>fEvents := events, notified := notified st @ map (\<lambda>cb. (event, cb, key, val)) callbacks\<rparr>)"

definition EmitUpdate ::
    "'f printers \<Rightarrow> string \<Rightarrow> 'f any_value \<Rightarrow> ('s, 'f, 'c) FairMQProgOptions \<Rightarrow> ('s, 'f, 'c) FairMQProgOptions" where
  "EmitUpdate F key val st =
     (let st = notify (PropertyChange (type_of_value val)) key val st
      in notify PropertyChangeAsString key (VString (GetStringValue F key st)) st)"

definition SetValue ::
    "'f printers \<Rightarrow> string \<Rightarrow> 'f any_value \<Rightarrow>
     ('s, 'f, 'c) FairMQProgOptions \<Rightarrow> ('s, 'f, 'c) FairMQProgOptions outcome" where
  "SetValue F key val st =
     (let st = UpdateVarMap key val st
      in and_then
        (case (val, fChannelKeyMap st key) of
           (VInt i, Some ck) \<Rightarrow>
             map_outcome_result snd (UpdateChannelValue_int (ck_channel ck) (ck_index ck) (ck_member ck) i st)
         | (VString s, Some ck) \<Rightarrow>
             map_outcome_result snd (UpdateChannelValue_str (ck_channel ck) (ck_index ck) (ck_member ck) s st)
         | _ \<Rightarrow> Returns st)
        (\<lambda>st. let st = notify (PropertyChange (type_of_value val)) key val st
              in Returns (notify PropertyChangeAsString key (VString (GetStringValue F key st)) st)))"

definition Subscribe_property ::
    "(nat list \<Rightarrow> nat) \<Rightarrow> any_type \<Rightarrow> string \<Rightarrow> 'c \<Rightarrow>
     ('s, 'f, 'c) FairMQProgOptions \<Rightarrow> ('s, 'f, 'c) FairMQProgOptions" where
  "Subscribe_property fresh ty subscriber func st =
     st\<lparr>fEvents := Subscribe fresh (PropertyChange ty) subscriber func (fEvents st)\<rparr>"

definition Unsubscribe_property ::
    "any_type \<Rightarrow> string \<Rightarrow> ('s, 'f, 'c) FairMQProgOptions \<Rightarrow> ('s, 'f, 'c) FairMQProgOptions outcome" where
  "Unsubscribe_property ty subscriber st =
     map_outcome_result (\<lambda>ev. st\<lparr>fEvents := ev\<rparr>) (Unsubscribe (PropertyChange ty) subscriber (fEvents st))"

definition SubscribeAsString ::
    "(nat list \<Rightarrow> nat) \<Rightarrow> string \<Rightarrow> 'c \<Rightarrow> ('s, 'f, 'c) FairMQProgOptions \<Rightarrow> ('s, 'f, 'c) FairMQProgOptions" where
  "SubscribeAsString fresh subscriber func st =
     st\<lparr>fEvents := Subscribe fresh PropertyChangeAsString subscriber func (fEvents st)\<rparr>"

definition UnsubscribeAsString ::
    "string \<Rightarrow> ('s, 'f, 'c) FairMQProgOptions \<Rightarrow> ('s, 'f, 'c) FairMQProgOptions outcome" where
  "UnsubscribeAsString subscriber st =
     map_outcome_result (\<lambda>ev. st\<lparr>fEvents := ev\<rparr>) (Unsubscribe PropertyChangeAsString subscriber (fEvents st))"

subsection \<open>Command lines\<close>

text \<open>
  The library's command line parser: from the known options, whether unknown ones are allowed, and the
  arguments, the variables to store, defaults included, and the unrecognised arguments.
\<close>

type_synonym 'f cmdline_parser =
  "string list \<Rightarrow> bool \<Rightarrow> string list \<Rightarrow> ((string \<times> 'f variable_value) list \<times> string list) outcome"

text \<open>Both calls of \<open>po::store\<close> fill an empty map: it then holds the parsed variables, ordered by name.\<close>

definition store :: "(string \<times> 'f variable_value) list \<Rightarrow> (string \<times> 'f variable_value) list \<Rightarrow> (string \<times> 'f variable_value) list" where
  "store vars m = fold (\<lambda>(k, v). omap_update k (\<lambda>old. case old of None \<Rightarrow> v | Some w \<Rightarrow> w)) vars m"

definition ParseCmdLine ::
    "'f cmdline_parser \<Rightarrow> string list \<Rightarrow> bool \<Rightarrow>
     ('s, 'f, 'c) FairMQProgOptions \<Rightarrow> ('s, 'f, 'c) FairMQProgOptions outcome" where
  "ParseCmdLine parser argv allowUnregistered st =
     (let st = st\<lparr>fVarMap := []\<rparr>
      in if allowUnregistered
         then and_then (parser (fAllOptions st) True argv)
           (\<lambda>(vars, rest). Returns (st\<lparr>fUnregisteredOptions := rest, fVarMap := store vars (fVarMap st)\<rparr>))
         else and_then (parser (fAllOptions st) False argv)
           (\<lambda>(vars, rest). Returns (st\<lparr>fVarMap := store vars (fVarMap st)\<rparr>)))"

definition ParseDefaults ::
    "'f cmdline_parser \<Rightarrow> string \<Rightarrow> ('s, 'f, 'c) FairMQProgOptions \<Rightarrow> ('s, 'f, 'c) FairMQProgOptions outcome" where
  "ParseDefaults parser uuid st =
     and_then (parser (fAllOptions st) False [''dummy'', ''--id'', uuid])
       (\<lambda>(vars, rest). Returns (st\<lparr>fVarMap := store vars (fVarMap st)\<rparr>))"

definition new_FairMQProgOptions ::
    "'f cmdline_parser \<Rightarrow> string \<Rightarrow> ('s, 'f, 'c) FairMQProgOptions outcome" where
  "new_FairMQProgOptions parser uuid =
     ParseDefaults parser uuid
       \<lparr>fVarMap = [], fFairMQChannelMap = [],
        fAllOptions = map fst general_options @ map fst mq_options @ map fst parser_options,
        fChannelInfo = [], fChannelKeyMap = Map.empty, fUnregisteredOptions = [],
        fEvents = new_EventManager, notified = []\<rparr>"

definition AddToCmdLineOptions ::
    "string list \<Rightarrow> ('s, 'f, 'c) FairMQProgOptions \<Rightarrow> ('s, 'f, 'c) FairMQProgOptions" where
  "AddToCmdLineOptions optDesc st = st\<lparr>fAllOptions := fAllOptions st @ optDesc\<rparr>"

definition GetCmdLineOptions :: "('s, 'f, 'c) FairMQProgOptions \<Rightarrow> string list" where
  "GetCmdLineOptions st = fAllOptions st"

definition as_string :: "'f any_value \<Rightarrow> string outcome" where
  "as_string v = (case v of VString s \<Rightarrow> Returns s | _ \<Rightarrow> Throws BadAnyCast)"

definition as_strings :: "'f any_value \<Rightarrow> string list outcome" where
  "as_strings v =
     (case v of
        VVector TString vs \<Rightarrow>
          fold_outcome (\<lambda>v l. and_then (as_string v) (\<lambda>s. Returns (l @ [s]))) vs []
      | _ \<Rightarrow> Throws BadAnyCast)"

definition idForParser :: "('s, 'f, 'c) FairMQProgOptions \<Rightarrow> string outcome" where
  "idForParser st =
     (case lookup_var st ''config-key'' of
        Some v \<Rightarrow> as_string v
      | None \<Rightarrow> (case lookup_var st ''id'' of Some v \<Rightarrow> as_string v | None \<Rightarrow> Returns ''''))"

text \<open>The block of \<open>ParseAll\<close> whose exceptions are caught: the channels of the selected parser.\<close>

definition parse_channels ::
    "'t ptree \<Rightarrow> (string \<Rightarrow> 't outcome) \<Rightarrow> string \<Rightarrow>
     ('s, 'f, 'c) FairMQProgOptions \<Rightarrow> ('s, 'f, 'c) FairMQProgOptions outcome" where
  "parse_channels P read_json ident st =
     (case lookup_var st ''mq-config'' of
        Some v \<Rightarrow> and_then (as_string v)
          (\<lambda>file. and_then (JSON_UserParser P read_json file ident ''fairMQOptions'')
            (\<lambda>channels. UpdateChannelMap channels st))
      | None \<Rightarrow>
          (case lookup_var st ''channel-config'' of
             Some v \<Rightarrow> and_then (as_strings v)
               (\<lambda>cfg. and_then (SUBOPT_UserParser P cfg ident ''fairMQOptions'')
                 (\<lambda>channels. UpdateChannelMap channels st))
           | None \<Rightarrow> Returns st))"

definition ParseAll ::
    "'t ptree \<Rightarrow> (string \<Rightarrow> 't outcome) \<Rightarrow> 'f cmdline_parser \<Rightarrow> string list \<Rightarrow> bool \<Rightarrow>
     ('s, 'f, 'c) FairMQProgOptions \<Rightarrow> (int \<times> ('s, 'f, 'c) FairMQProgOptions) outcome" where
  "ParseAll P read_json parser argv allowUnregistered st =
     and_then (ParseCmdLine parser argv allowUnregistered st)
       (\<lambda>st.
          if Count ''help'' st \<noteq> 0 then Returns (1, st)
          else if Count ''print-options'' st \<noteq> 0 then Returns (1, st)
          else if Count ''print-channels'' st \<noteq> 0 \<or> Count ''version'' st \<noteq> 0 then Returns (0, st)
          else
            and_then (GetValue (VString '''') ''severity'' st)
            (\<lambda>_. and_then (GetValue (VString '''') ''log-to-file'' st)
            (\<lambda>_. and_then (GetValue (VBool False) ''color'' st)
            (\<lambda>_. and_then (GetValue (VString '''') ''verbosity'' st)
            (\<lambda>_. and_then (idForParser st)
            (\<lambda>ident.
               case parse_channels P read_json ident st of
                 Returns st' \<Rightarrow> Returns (0, st')
               | Throws e \<Rightarrow> Returns (1, st)
               | Exits \<Rightarrow> Exits
               | Undefined \<Rightarrow> Undefined))))))"

subsection \<open>Printing\<close>

definition pad :: "nat \<Rightarrow> string \<Rightarrow> string" where
  "pad n s = s @ replicate (n - length s) CHR '' ''"

definition newline :: string where
  "newline = [CHR 0x0A]"

definition PrintOptions :: "'f printers \<Rightarrow> ('s, 'f, 'c) FairMQProgOptions \<Rightarrow> string" where
  "PrintOptions F st =
     (let mapinfo = map (\<lambda>(k, v). (k, ConvertVariableValue_ToVarValInfo F v)) (fVarMap st);
          maxLenKey = fold (\<lambda>m. max (length (fst m))) mapinfo 0;
          maxLenValue = min 100 (fold (\<lambda>m. max (length (vvi_value (snd m)))) mapinfo 0);
          maxLenType = fold (\<lambda>m. max (length (vvi_type (snd m)))) mapinfo 0;
          maxLenDefault = fold (\<lambda>m. max (length (vvi_defaulted (snd m)))) mapinfo 0
      in ''Configuration: '' @ newline @
         concat (map (\<lambda>(k, i).
           pad maxLenKey k @ '' = '' @ pad maxLenValue (vvi_value i) @ '' '' @
           pad maxLenType (vvi_type i) @ pad maxLenDefault (vvi_defaulted i) @ newline) mapinfo))"

text \<open>The lines of \<open>PrintOptionsRaw\<close>, with the descriptions that the library holds for the options.\<close>

definition PrintOptionsRaw ::
    "'f printers \<Rightarrow> (string \<Rightarrow> string) \<Rightarrow> ('s, 'f, 'c) FairMQProgOptions \<Rightarrow> string list" where
  "PrintOptionsRaw F description st =
     map (\<lambda>name.
         let value = (case map_of (fVarMap st) name of
                 Some v \<Rightarrow> ConvertVariableValue_ToVarValInfo F v
               | None \<Rightarrow> \<lparr>vvi_value = '''', vvi_type = '''', vvi_defaulted = ''''\<rparr>)
         in name @ '':'' @ vvi_value value @ '':'' @
            (if vvi_type value = '''' then ''<unknown>'' else vvi_type value) @ '':'' @
            map (\<lambda>c. if c = CHR 0x0A then CHR '' '' else c) (description name))
       (fAllOptions st)"

section \<open>Keys of channels\<close>

lemma dot_split:
  assumes "a @ CHR ''.'' # b = a' @ CHR ''.'' # b'" "CHR ''.'' \<notin> set b" "CHR ''.'' \<notin> set b'"
  shows "a = a' \<and> b = b'"
proof -
  have "takeWhile (\<lambda>c. c \<noteq> CHR ''.'') (rev (a @ CHR ''.'' # b)) = rev b"
    "takeWhile (\<lambda>c. c \<noteq> CHR ''.'') (rev (a' @ CHR ''.'' # b')) = rev b'"
    using takeWhile_stop [of "CHR ''.''" "rev b" "rev a"] takeWhile_stop [of "CHR ''.''" "rev b'" "rev a'"]
      assms(2,3) by simp_all
  then have "rev b = rev b'" using assms(1) by simp
  then show ?thesis using assms(1) by simp
qed

lemma chan_key_inject:
  assumes "CHR ''.'' \<notin> set m" "CHR ''.'' \<notin> set m'"
  shows "chan_key n i m = chan_key n' i' m' \<longleftrightarrow> n = n' \<and> i = i' \<and> m = m'"
proof
  assume "chan_key n i m = chan_key n' i' m'"
  then have e: "(n @ CHR ''.'' # nat_to_string i) @ CHR ''.'' # m = (n' @ CHR ''.'' # nat_to_string i') @ CHR ''.'' # m'"
    by (simp add: chan_key_def)
  from dot_split [OF this assms] have *: "n @ CHR ''.'' # nat_to_string i = n' @ CHR ''.'' # nat_to_string i'" "m = m'"
    by simp_all
  from dot_split [OF *(1)] *(2) show "n = n' \<and> i = i' \<and> m = m'" by simp
qed simp

lemma numSockets_key_inject [simp]: "numSockets_key n = numSockets_key n' \<longleftrightarrow> n = n'"
  by (simp add: numSockets_key_def)

lemma chan_key_numSockets:
  assumes "CHR ''.'' \<notin> set m" "m \<noteq> ''numSockets''"
  shows "chan_key n i m \<noteq> numSockets_key n'"
proof
  assume "chan_key n i m = numSockets_key n'"
  then have "(n @ CHR ''.'' # nat_to_string i) @ CHR ''.'' # m = n' @ CHR ''.'' # ''numSockets''"
    by (simp add: chan_key_def numSockets_key_def)
  from dot_split [OF this assms(1)] assms(2) show False by simp
qed

definition transport_name :: "'s FairMQChannel \<Rightarrow> string" where
  "transport_name c = (case TransportName_at (fTransportType c) of Returns n \<Rightarrow> n | _ \<Rightarrow> '''')"

lemma GetTransportName_name [simp]: "GetTransportName c = Returns (transport_name c)"
  using TransportName_total [of "fTransportType c"] by (auto simp: GetTransportName_def transport_name_def)

text \<open>The value of each member of a channel as a property.\<close>

definition member_values :: "'s FairMQChannel \<Rightarrow> (string \<times> 'f any_value) list" where
  "member_values c =
    [(''type'', VString (GetType c)), (''method'', VString (GetMethod c)), (''address'', VString (GetAddress c)),
     (''transport'', VString (transport_name c)), (''sndBufSize'', VInt (GetSndBufSize c)),
     (''rcvBufSize'', VInt (GetRcvBufSize c)), (''sndKernelSize'', VInt (GetSndKernelSize c)),
     (''rcvKernelSize'', VInt (GetRcvKernelSize c)), (''rateLogging'', VInt (GetRateLogging c))]"

lemma members: "fst ` set (member_values c) = fst ` set channel_keys"
  by (simp add: member_values_def channel_keys_def)

lemma member_plain:
  "m \<in> fst ` set channel_keys \<Longrightarrow> CHR ''.'' \<notin> set m \<and> m \<noteq> ''numSockets''"
  by (auto simp: channel_keys_def)

section \<open>Agreement of properties and channels\<close>

text \<open>
  Every sub-channel has its members as properties under its keys and its keys in the key map, the
  number of sub-channels is a property too, and the channel info has it.
\<close>

definition channel_agrees ::
    "('s, 'f, 'c) FairMQProgOptions \<Rightarrow> string \<Rightarrow> nat \<Rightarrow> 's FairMQChannel \<Rightarrow> bool" where
  "channel_agrees st n i c \<longleftrightarrow>
     (\<forall>(m, v) \<in> set (member_values c). lookup_var st (chan_key n i m) = Some v) \<and>
     (\<forall>(m, m') \<in> set channel_keys.
        fChannelKeyMap st (chan_key n i m) = Some \<lparr>ck_channel = n, ck_index = i, ck_member = m'\<rparr>)"

definition config_agrees :: "('s, 'f, 'c) FairMQProgOptions \<Rightarrow> bool" where
  "config_agrees st \<longleftrightarrow>
     sorted_map (fVarMap st) \<and> distinct (map fst (fFairMQChannelMap st)) \<and>
     (\<forall>(n, cs) \<in> set (fFairMQChannelMap st).
        lookup_var st (numSockets_key n) = Some (VInt (int (length cs))) \<and>
        (\<forall>i < length cs. channel_agrees st n i (cs ! i))) \<and>
     fChannelInfo st = map (\<lambda>(n, cs). (n, int (length cs))) (fFairMQChannelMap st)"

lemma UpdateVarMap_fields [simp]:
  "fFairMQChannelMap (UpdateVarMap k v st) = fFairMQChannelMap st"
  "fChannelInfo (UpdateVarMap k v st) = fChannelInfo st"
  "fChannelKeyMap (UpdateVarMap k v st) = fChannelKeyMap st"
  "fEvents (UpdateVarMap k v st) = fEvents st"
  "notified (UpdateVarMap k v st) = notified st"
  by (simp_all add: UpdateVarMap_def)

lemma sorted_UpdateVarMap [simp]: "sorted_map (fVarMap st) \<Longrightarrow> sorted_map (fVarMap (UpdateVarMap k v st))"
  by (simp add: UpdateVarMap_def sorted_omap_update)

lemma lookup_UpdateVarMap [simp]:
  "sorted_map (fVarMap st) \<Longrightarrow>
   lookup_var (UpdateVarMap k v st) k' = (if k' = k then Some v else lookup_var st k')"
  by (simp add: UpdateVarMap_def lookup_var_def map_of_omap_update split: option.split)

lemma update_keys_fields [simp]:
  "fFairMQChannelMap (update_keys n i st) = fFairMQChannelMap st"
  "fChannelInfo (update_keys n i st) = fChannelInfo st"
  "fVarMap (update_keys n i st) = fVarMap st"
  "lookup_var (update_keys n i st) k = lookup_var st k"
  by (simp_all add: update_keys_def channel_keys_def lookup_var_def)

lemma update_keys_lookup:
  assumes "CHR ''.'' \<notin> set m"
  shows "fChannelKeyMap (update_keys n i st) (chan_key n' j m) =
    (if n' = n \<and> j = i \<and> map_of channel_keys m \<noteq> None
     then Some \<lparr>ck_channel = n, ck_index = i, ck_member = the (map_of channel_keys m)\<rparr>
     else fChannelKeyMap st (chan_key n' j m))"
  using assms by (auto simp: update_keys_def channel_keys_def chan_key_inject)

text \<open>
  What one state of the configuration keeps of another: everything but the properties and keys of the
  sub-channels in \<open>A\<close> and the numbers of sub-channels of the channels in \<open>B\<close>.
\<close>

definition keeps ::
    "(string \<times> nat) set \<Rightarrow> string set \<Rightarrow> ('s, 'f, 'c) FairMQProgOptions \<Rightarrow> ('s, 'f, 'c) FairMQProgOptions \<Rightarrow> bool" where
  "keeps A B st st' \<longleftrightarrow>
     sorted_map (fVarMap st') \<and> fFairMQChannelMap st' = fFairMQChannelMap st \<and> fChannelInfo st' = fChannelInfo st \<and>
     (\<forall>n i m. (n, i) \<notin> A \<longrightarrow> m \<in> fst ` set channel_keys \<longrightarrow>
        lookup_var st' (chan_key n i m) = lookup_var st (chan_key n i m) \<and>
        fChannelKeyMap st' (chan_key n i m) = fChannelKeyMap st (chan_key n i m)) \<and>
     (\<forall>n. n \<notin> B \<longrightarrow> lookup_var st' (numSockets_key n) = lookup_var st (numSockets_key n))"

lemma keeps_trans: "keeps A B st st1 \<Longrightarrow> keeps A' B' st1 st2 \<Longrightarrow> keeps (A \<union> A') (B \<union> B') st st2"
  by (auto simp: keeps_def)

lemma keeps_mono: "keeps A B st st' \<Longrightarrow> A \<subseteq> A' \<Longrightarrow> B \<subseteq> B' \<Longrightarrow> keeps A' B' st st'"
  unfolding keeps_def by blast

lemma keeps_agrees:
  assumes "keeps A B st st'" "(n, i) \<notin> A"
  shows "channel_agrees st' n i c \<longleftrightarrow> channel_agrees st n i c"
proof -
  have "lookup_var st' (chan_key n i m) = lookup_var st (chan_key n i m)" if "(m, v) \<in> set (member_values c)" for m and v :: "'b any_value"
    using assms that members [of c] unfolding keeps_def by (metis fst_conv image_eqI)
  moreover have "fChannelKeyMap st' (chan_key n i m) = fChannelKeyMap st (chan_key n i m)" if "(m, m') \<in> set channel_keys" for m m'
    using assms that unfolding keeps_def by (metis fst_conv image_eqI)
  ultimately show ?thesis unfolding channel_agrees_def by (auto simp: Ball_def split: prod.splits)
qed

lemma write_members:
  assumes "sorted_map (fVarMap st)"
  shows "sorted_map (fVarMap (fold (\<lambda>(m, v). UpdateVarMap (f m) v) ms st))"
    and "fFairMQChannelMap (fold (\<lambda>(m, v). UpdateVarMap (f m) v) ms st) = fFairMQChannelMap st"
    and "fChannelInfo (fold (\<lambda>(m, v). UpdateVarMap (f m) v) ms st) = fChannelInfo st"
    and "fChannelKeyMap (fold (\<lambda>(m, v). UpdateVarMap (f m) v) ms st) = fChannelKeyMap st"
    and "k \<notin> f ` fst ` set ms \<Longrightarrow>
      lookup_var (fold (\<lambda>(m, v). UpdateVarMap (f m) v) ms st) k = lookup_var st k"
  using assms by (induction ms arbitrary: st) (auto split: prod.splits)

lemma update_channel_values_ok:
  assumes "sorted_map (fVarMap st)"
  shows "\<exists>st'. update_channel_values n (i, c) st = Returns st' \<and> keeps {(n, i)} {} st st' \<and> channel_agrees st' n i c"
proof -
  define st' where "st' = fold (\<lambda>(m, v). UpdateVarMap (chan_key n i m) v) (member_values c) (update_keys n i st)"
  have r: "update_channel_values n (i, c) st = Returns st'"
    by (simp add: update_channel_values_def st'_def member_values_def Let_def)
  have s: "sorted_map (fVarMap (update_keys n i st))" using assms by simp
  note w = write_members [OF s, where f = "chan_key n i" and ms = "member_values c", folded st'_def]
  have "lookup_var st' (chan_key n' j m) = lookup_var st (chan_key n' j m) \<and>
      fChannelKeyMap st' (chan_key n' j m) = fChannelKeyMap st (chan_key n' j m)"
    if "(n', j) \<notin> {(n, i)}" "m \<in> fst ` set channel_keys" for n' j m
  proof -
    have m: "CHR ''.'' \<notin> set m" using member_plain [OF that(2)] by blast
    have "chan_key n' j m \<notin> chan_key n i ` fst ` set (member_values c)"
    proof
      assume "chan_key n' j m \<in> chan_key n i ` fst ` set (member_values c)"
      then obtain m' where m': "m' \<in> fst ` set channel_keys" "chan_key n' j m = chan_key n i m'"
        unfolding members by blast
      then have "(n', j) = (n, i)" using member_plain [OF m'(1)] m by (simp add: chan_key_inject)
      then show False using that(1) by simp
    qed
    then have "lookup_var st' (chan_key n' j m) = lookup_var st (chan_key n' j m)" using w(5) by simp
    moreover have "fChannelKeyMap st' (chan_key n' j m) = fChannelKeyMap st (chan_key n' j m)"
      unfolding w(4) update_keys_lookup [OF m] using that(1) by auto
    ultimately show ?thesis by blast
  qed
  moreover have "lookup_var st' (numSockets_key n') = lookup_var st (numSockets_key n')" for n'
  proof -
    have "numSockets_key n' \<noteq> chan_key n i m" if "m \<in> fst ` set channel_keys" for m
      using chan_key_numSockets [of m n i n'] member_plain [OF that] by simp
    then have "numSockets_key n' \<notin> chan_key n i ` fst ` set (member_values c)" unfolding members by blast
    then show ?thesis using w(5) by simp
  qed
  ultimately have "keeps {(n, i)} {} st st'" using w(1-3) by (simp add: keeps_def)
  moreover have "channel_agrees st' n i c"
    using assms
    by (simp add: channel_agrees_def st'_def member_values_def chan_key_inject update_keys_lookup channel_keys_def)
  ultimately show ?thesis using r by blast
qed

lemma update_channels_ok:
  assumes "sorted_map (fVarMap st)"
  shows "\<exists>st'. fold_outcome (update_channel_values n) (enumerate s cs) st = Returns st' \<and>
     keeps ({n} \<times> {s..<s + length cs}) {} st st' \<and> (\<forall>i < length cs. channel_agrees st' n (s + i) (cs ! i))"
  using assms
proof (induction cs arbitrary: s st)
  case Nil
  then show ?case by (simp add: keeps_def)
next
  case (Cons c cs)
  from update_channel_values_ok [OF Cons.prems] obtain st1 where
    st1: "update_channel_values n (s, c) st = Returns st1" "keeps {(n, s)} {} st st1" "channel_agrees st1 n s c" by blast
  from Cons.IH [of st1 "Suc s"] st1(2) obtain st2 where
    st2: "fold_outcome (update_channel_values n) (enumerate (Suc s) cs) st1 = Returns st2"
      "keeps ({n} \<times> {Suc s..<Suc s + length cs}) {} st1 st2" "\<forall>i < length cs. channel_agrees st2 n (Suc s + i) (cs ! i)"
    by (auto simp: keeps_def)
  have "keeps ({n} \<times> {s..<s + length (c # cs)}) {} st st2"
    by (rule keeps_mono [OF keeps_trans [OF st1(2) st2(2)]]) auto
  moreover have "channel_agrees st2 n (s + i) ((c # cs) ! i)" if "i < length (c # cs)" for i
    using that st2(3) st1(3) keeps_agrees [OF st2(2), of n s c] by (cases i) auto
  ultimately show ?case using st1(1) st2(1) by auto
qed

definition entry_agrees :: "('s, 'f, 'c) FairMQProgOptions \<Rightarrow> string \<times> 's FairMQChannel list \<Rightarrow> bool" where
  "entry_agrees st e \<longleftrightarrow>
     lookup_var st (numSockets_key (fst e)) = Some (VInt (int (length (snd e)))) \<and>
     (\<forall>i < length (snd e). channel_agrees st (fst e) i (snd e ! i))"

lemma config_agrees_entries:
  "config_agrees st \<longleftrightarrow>
     sorted_map (fVarMap st) \<and> distinct (map fst (fFairMQChannelMap st)) \<and>
     (\<forall>e \<in> set (fFairMQChannelMap st). entry_agrees st e) \<and>
     fChannelInfo st = map (\<lambda>(n, cs). (n, int (length cs))) (fFairMQChannelMap st)"
  by (simp add: config_agrees_def entry_agrees_def case_prod_unfold)

lemma keeps_entry_agrees:
  assumes "keeps A B st st'" "fst e \<notin> B" "\<And>i. i < length (snd e) \<Longrightarrow> (fst e, i) \<notin> A"
  shows "entry_agrees st' e \<longleftrightarrow> entry_agrees st e"
proof -
  have "lookup_var st' (numSockets_key (fst e)) = lookup_var st (numSockets_key (fst e))"
    using assms(1,2) by (simp add: keeps_def)
  then show ?thesis using keeps_agrees [OF assms(1) assms(3)] by (auto simp: entry_agrees_def)
qed

lemma keeps_numSockets:
  assumes "sorted_map (fVarMap st)"
  shows "keeps {} {n} st (UpdateVarMap (numSockets_key n) v st)"
proof -
  have "chan_key n' i m \<noteq> numSockets_key n" if "m \<in> fst ` set channel_keys" for n' i m
    using member_plain [OF that] by (intro chan_key_numSockets) auto
  then show ?thesis using assms by (simp add: keeps_def)
qed

lemma update_entry_ok:
  assumes "sorted_map (fVarMap st)"
  shows "\<exists>st'. and_then (fold_outcome (update_channel_values n) (enumerate 0 cs) st)
       (\<lambda>st. Returns (UpdateVarMap (numSockets_key n) (VInt (int (length cs))) st)) = Returns st' \<and>
     keeps ({n} \<times> UNIV) {n} st st' \<and> entry_agrees st' (n, cs)"
proof -
  from update_channels_ok [OF assms, of n 0 cs] obtain st1 where
    st1: "fold_outcome (update_channel_values n) (enumerate 0 cs) st = Returns st1"
      "keeps ({n} \<times> {0..<0 + length cs}) {} st st1" "\<forall>i < length cs. channel_agrees st1 n (0 + i) (cs ! i)" by blast
  let ?st2 = "UpdateVarMap (numSockets_key n) (VInt (int (length cs))) st1"
  have s: "sorted_map (fVarMap st1)" using st1(2) by (simp add: keeps_def)
  note k = keeps_numSockets [OF s, of n "VInt (int (length cs))"]
  have "keeps ({n} \<times> UNIV) {n} st ?st2" by (rule keeps_mono [OF keeps_trans [OF st1(2) k]]) auto
  moreover have "entry_agrees ?st2 (n, cs)"
    using st1(3) keeps_agrees [OF k] s by (simp add: entry_agrees_def)
  ultimately show ?thesis using st1(1) by auto
qed

lemma update_entries_ok:
  assumes "sorted_map (fVarMap st)" "distinct (map fst m)"
  shows "\<exists>st'. fold_outcome
       (\<lambda>(name, channels) st.
          and_then (fold_outcome (update_channel_values name) (enumerate 0 channels) st)
            (\<lambda>st. Returns (UpdateVarMap (numSockets_key name) (VInt (int (length channels))) st))) m st = Returns st' \<and>
     keeps (fst ` set m \<times> UNIV) (fst ` set m) st st' \<and> (\<forall>e \<in> set m. entry_agrees st' e)"
  using assms
proof (induction m arbitrary: st)
  case Nil
  then show ?case by (simp add: keeps_def)
next
  case (Cons e m)
  obtain n cs where e: "e = (n, cs)" by (cases e)
  from update_entry_ok [OF Cons.prems(1), of n cs] obtain st1 where
    st1: "and_then (fold_outcome (update_channel_values n) (enumerate 0 cs) st)
       (\<lambda>st. Returns (UpdateVarMap (numSockets_key n) (VInt (int (length cs))) st)) = Returns st1"
      "keeps ({n} \<times> UNIV) {n} st st1" "entry_agrees st1 (n, cs)" by blast
  have "sorted_map (fVarMap st1)" using st1(2) by (simp add: keeps_def)
  from Cons.IH [OF this] Cons.prems(2) obtain st2 where
    st2: "fold_outcome
       (\<lambda>(name, channels) st.
          and_then (fold_outcome (update_channel_values name) (enumerate 0 channels) st)
            (\<lambda>st. Returns (UpdateVarMap (numSockets_key name) (VInt (int (length channels))) st))) m st1 = Returns st2"
      "keeps (fst ` set m \<times> UNIV) (fst ` set m) st1 st2" "\<forall>e \<in> set m. entry_agrees st2 e" by auto
  have "keeps (fst ` set (e # m) \<times> UNIV) (fst ` set (e # m)) st st2"
    by (rule keeps_mono [OF keeps_trans [OF st1(2) st2(2)]]) (auto simp: e)
  moreover have "entry_agrees st2 e"
    using keeps_entry_agrees [OF st2(2), of e] st1(3) Cons.prems(2) e by auto
  ultimately show ?case using st1(1) st2 e by auto
qed

lemma info_fold:
  assumes "distinct (map fst a @ map fst m)"
  shows "fold (\<lambda>c. map_insert (fst c) (int (length (snd c)))) m a = a @ map (\<lambda>(n, cs). (n, int (length cs))) m"
  using assms
proof (induction m arbitrary: a)
  case (Cons e m)
  have "fst e \<notin> fst ` set a" using Cons.prems by auto
  then have "map_insert (fst e) (int (length (snd e))) a = a @ [(fst e, int (length (snd e)))]"
    by (simp add: map_insert_def)
  then show ?case using Cons.IH [of "a @ [(fst e, int (length (snd e)))]"] Cons.prems
    by (simp add: case_prod_unfold)
qed simp

lemma UpdateChannelMap_agrees:
  assumes "sorted_map (fVarMap st)" "distinct (map fst m)"
  shows "\<exists>st'. UpdateChannelMap m st = Returns st' \<and> config_agrees st' \<and> sorted_map (fVarMap st') \<and>
     fFairMQChannelMap st' = map (\<lambda>(n, cs). (n, map FairMQChannel_copy cs)) m"
proof -
  let ?m = "map (\<lambda>(n, cs). (n, map FairMQChannel_copy cs)) m"
  let ?st = "UpdateChannelInfo (st\<lparr>fFairMQChannelMap := ?m\<rparr>)"
  have names: "map fst ?m = map fst m" by (simp add: comp_def case_prod_unfold)
  have st: "sorted_map (fVarMap ?st)" "fFairMQChannelMap ?st = ?m" using assms(1) by (simp_all add: UpdateChannelInfo_def)
  have d: "distinct (map fst ?m)" unfolding names by (rule assms(2))
  then have info: "fChannelInfo ?st = map (\<lambda>(n, cs). (n, int (length cs))) ?m"
    using info_fold [of "[]" ?m] unfolding UpdateChannelInfo_def by simp
  from update_entries_ok [OF st(1) d] obtain st' where
    "UpdateMQValues ?st = Returns st'" "keeps (fst ` set ?m \<times> UNIV) (fst ` set ?m) ?st st'" "\<forall>e \<in> set ?m. entry_agrees st' e"
    unfolding UpdateMQValues_def st(2) by blast
  then show ?thesis using info st(2) d
    unfolding UpdateChannelMap_def Let_def config_agrees_entries keeps_def by auto
qed

section \<open>Changing a member of a channel\<close>

text \<open>The members that \<open>SetValue\<close> can change, with the values it can give them, and their updates.\<close>

definition settable :: "string \<Rightarrow> 'f any_value \<Rightarrow> bool" where
  "settable m v \<longleftrightarrow>
     (case v of
        VString s \<Rightarrow> m \<in> {''type'', ''method'', ''address''} \<or> m = ''transport'' \<and> (\<exists>t. TransportType_at s = Returns t)
      | VInt i \<Rightarrow> m \<in> {''sndBufSize'', ''rcvBufSize'', ''rateLogging''}
      | _ \<Rightarrow> False)"

definition channel_update :: "string \<Rightarrow> 'f any_value \<Rightarrow> 's FairMQChannel \<Rightarrow> 's FairMQChannel outcome" where
  "channel_update m v c =
     (case v of
        VString s \<Rightarrow>
          (if m = ''type'' then Returns (UpdateType s c)
           else if m = ''method'' then Returns (UpdateMethod s c)
           else if m = ''address'' then Returns (UpdateAddress s c)
           else UpdateTransport s c)
      | VInt i \<Rightarrow>
          (if m = ''sndBufSize'' then Returns (UpdateSndBufSize i c)
           else if m = ''rcvBufSize'' then Returns (UpdateRcvBufSize i c)
           else Returns (UpdateRateLogging i c))
      | _ \<Rightarrow> Returns c)"

lemma channel_update_members:
  fixes v :: "'f any_value"
  assumes "settable m v"
  shows "\<exists>c'. channel_update m v c = Returns c' \<and> \<not> IsValid c' \<and>
     (member_values c' :: (string \<times> 'f any_value) list) = map (\<lambda>(k, w). (k, if k = m then v else w)) (member_values c)"
proof (cases v)
  case (VString s)
  show ?thesis
  proof (cases "m = ''transport''")
    case True
    then obtain t where t: "TransportType_at s = Returns t" using assms VString by (auto simp: settable_def)
    then have "TransportName_at t = Returns s" using transport_name_roundtrip by blast
    then show ?thesis using t True VString
      by (auto simp: channel_update_def UpdateTransport_def member_values_def transport_name_def GetType_def GetMethod_def
          GetAddress_def GetSndBufSize_def GetRcvBufSize_def GetSndKernelSize_def GetRcvKernelSize_def
          GetRateLogging_def IsValid_def)
  next
    case False
    then show ?thesis using assms VString
      by (auto simp: settable_def channel_update_def member_values_def channel_updates transport_name_def GetType_def GetMethod_def
          GetAddress_def GetSndBufSize_def GetRcvBufSize_def GetSndKernelSize_def GetRcvKernelSize_def
          GetRateLogging_def IsValid_def)
  qed
next
  case (VInt i)
  then show ?thesis using assms
    by (auto simp: settable_def channel_update_def member_values_def channel_updates transport_name_def GetType_def GetMethod_def
          GetAddress_def GetSndBufSize_def GetRcvBufSize_def GetSndKernelSize_def GetRcvKernelSize_def
          GetRateLogging_def IsValid_def)
qed (use assms in \<open>simp_all add: settable_def\<close>)

lemma notify_fields [simp]:
  "fVarMap (notify e k v st) = fVarMap st" "fFairMQChannelMap (notify e k v st) = fFairMQChannelMap st"
  "fChannelInfo (notify e k v st) = fChannelInfo st" "fChannelKeyMap (notify e k v st) = fChannelKeyMap st"
  "lookup_var (notify e k v st) = lookup_var st"
  by (simp_all add: notify_def lookup_var_def fun_eq_iff split: prod.splits)

lemma notify_agrees [simp]: "config_agrees (notify e k v st) = config_agrees st"
  by (simp add: config_agrees_def channel_agrees_def)

lemma UpdateChannelValue_str_update:
  assumes "settable m (VString s :: 'f any_value)"
  shows "UpdateChannelValue_str n i m s st =
     map_outcome_result (Pair 0) (at_channel n i (channel_update m (VString s :: 'f any_value)) st)"
proof -
  have "m = ''type'' \<or> m = ''method'' \<or> m = ''address'' \<or> m = ''transport''"
    using assms by (auto simp: settable_def)
  then show ?thesis
    by (elim disjE) (simp_all add: UpdateChannelValue_str_def channel_update_def [abs_def] comp_def)
qed

lemma UpdateChannelValue_int_update:
  assumes "settable m (VInt j :: 'f any_value)"
  shows "UpdateChannelValue_int n i m j st =
     map_outcome_result (Pair 0) (at_channel n i (channel_update m (VInt j :: 'f any_value)) st)"
proof -
  have "m = ''sndBufSize'' \<or> m = ''rcvBufSize'' \<or> m = ''rateLogging''"
    using assms by (simp add: settable_def)
  then show ?thesis
    by (elim disjE) (simp_all add: UpdateChannelValue_int_def channel_update_def [abs_def] comp_def)
qed

lemma SetValue_channel:
  assumes "settable m v" "fChannelKeyMap st k = Some \<lparr>ck_channel = n, ck_index = i, ck_member = m\<rparr>"
  shows "SetValue F k v st =
    map_outcome_result (EmitUpdate F k v) (at_channel n i (channel_update m v) (UpdateVarMap k v st))"
proof -
  have w: "map_outcome_result snd (map_outcome_result (Pair a) x) = x" for x :: "'x outcome" and a :: int
    by (cases x) (simp_all add: map_outcome_result_def)
  show ?thesis
  proof (cases v)
    case (VString s)
    show ?thesis using assms unfolding VString SetValue_def Let_def
      by (simp add: UpdateChannelValue_str_update w) (simp add: map_outcome_result_def EmitUpdate_def Let_def)
  next
    case (VInt j)
    show ?thesis using assms unfolding VInt SetValue_def Let_def
      by (simp add: UpdateChannelValue_int_update w) (simp add: map_outcome_result_def EmitUpdate_def Let_def)
  qed (use assms in \<open>simp_all add: settable_def\<close>)
qed

lemma settable_key: "settable m v \<Longrightarrow> (m, m) \<in> set channel_keys \<and> CHR ''.'' \<notin> set m"
  by (auto simp: settable_def channel_keys_def split: any_value.splits)

lemma keeps_write_member:
  assumes "sorted_map (fVarMap st)" "CHR ''.'' \<notin> set m" "m \<noteq> ''numSockets''"
  shows "keeps {(n, i)} {} st (UpdateVarMap (chan_key n i m) v st)"
proof -
  have "chan_key n' j m' \<noteq> chan_key n i m" if "(n', j) \<noteq> (n, i)" "m' \<in> fst ` set channel_keys" for n' j m'
    using that(1) member_plain [OF that(2)] assms(2) by (auto simp: chan_key_inject)
  moreover have "numSockets_key n' \<noteq> chan_key n i m" for n'
    using chan_key_numSockets [OF assms(2,3), of n i n'] by simp
  ultimately show ?thesis using assms(1) by (simp add: keeps_def)
qed

lemma config_agreesD:
  assumes "config_agrees st" "map_of (fFairMQChannelMap st) n = Some cs" "i < length cs"
  shows "channel_agrees st n i (cs ! i)" "sorted_map (fVarMap st)" "distinct (map fst (fFairMQChannelMap st))"
  using assms map_of_SomeD [OF assms(2)] by (auto simp: config_agrees_entries entry_agrees_def)

lemma channel_agrees_write:
  assumes "channel_agrees st n i c" "sorted_map (fVarMap st)" "CHR ''.'' \<notin> set m"
    and "(member_values c' :: (string \<times> 'f any_value) list) = map (\<lambda>(k, w). (k, if k = m then v else w)) (member_values c)"
  shows "channel_agrees (UpdateVarMap (chan_key n i m) v (st :: ('s, 'f, 'c) FairMQProgOptions)) n i c'"
proof -
  have "lookup_var (UpdateVarMap (chan_key n i m) v st) (chan_key n i k) = Some w"
    if kw: "(k, w) \<in> set (member_values c')" for k w
  proof -
    from kw assms(4) obtain w' where w': "(k, w') \<in> set (member_values c)" "w = (if k = m then v else w')" by auto
    have "CHR ''.'' \<notin> set k" using member_plain [of k] members [of c] w'(1) by (metis fst_conv image_eqI)
    then show ?thesis using assms(1-3) w' by (auto simp: chan_key_inject channel_agrees_def)
  qed
  then show ?thesis using assms(1) by (auto simp: channel_agrees_def)
qed

text \<open>Replacing one sub-channel keeps the agreement where the properties follow.\<close>

lemma replace_channel_agrees:
  assumes "config_agrees st" "map_of (fFairMQChannelMap st) n = Some cs" "i < length cs"
    and "keeps {(n, i)} {} st st1" "channel_agrees st1 n i c'"
  shows "config_agrees (st1\<lparr>fFairMQChannelMap :=
     map (\<lambda>(n', ds). (n', if n' = n then ds[i := c'] else ds)) (fFairMQChannelMap st1)\<rparr>)"
proof -
  let ?M = "map (\<lambda>(n', ds). (n', if n' = n then ds[i := c'] else ds)) (fFairMQChannelMap st)"
  let ?st2 = "st1\<lparr>fFairMQChannelMap := ?M\<rparr>"
  have same: "fFairMQChannelMap st1 = fFairMQChannelMap st" "sorted_map (fVarMap st1)" "fChannelInfo st1 = fChannelInfo st"
    using assms(4) by (simp_all add: keeps_def)
  have st: "\<forall>e \<in> set (fFairMQChannelMap st). entry_agrees st e" "distinct (map fst (fFairMQChannelMap st))"
    "fChannelInfo st = map (\<lambda>(n, cs). (n, int (length cs))) (fFairMQChannelMap st)"
    using assms(1) by (simp_all add: config_agrees_entries)
  have "entry_agrees st1 e" if "e \<in> set ?M" for e
  proof -
    from that obtain n' ds where d: "(n', ds) \<in> set (fFairMQChannelMap st)" "e = (n', if n' = n then ds[i := c'] else ds)" by auto
    have old: "entry_agrees st (n', ds)" using st(1) d(1) by blast
    show ?thesis
    proof (cases "n' = n")
      case False
      then show ?thesis using keeps_entry_agrees [OF assms(4), of e] old d by auto
    next
      case True
      have "channel_agrees st1 n j (ds[i := c'] ! j)" if "j < length ds" for j
        using that old True assms(5) keeps_agrees [OF assms(4), of n j] by (cases "j = i") (auto simp: entry_agrees_def)
      moreover have "lookup_var st1 (numSockets_key n) = lookup_var st (numSockets_key n)"
        using assms(4) by (simp add: keeps_def)
      ultimately show ?thesis using True old d(2) by (simp add: entry_agrees_def)
    qed
  qed
  moreover have "entry_agrees ?st2 e = entry_agrees st1 e" for e
    by (simp add: entry_agrees_def channel_agrees_def lookup_var_def)
  moreover have "map fst ?M = map fst (fFairMQChannelMap st)" by (simp add: case_prod_unfold)
  then have "distinct (map fst ?M)" using st(2) by (simp only:)
  moreover have "map (\<lambda>(n, cs). (n, int (length cs))) ?M = fChannelInfo st"
    unfolding st(3) by (simp add: case_prod_unfold)
  ultimately have "config_agrees ?st2"
    unfolding config_agrees_entries using same by simp
  then show ?thesis unfolding same(1) .
qed

lemma SetValue_agrees:
  assumes "config_agrees st" "map_of (fFairMQChannelMap st) n = Some cs" "i < length cs" "settable m v"
  shows "\<exists>st' c'. SetValue F (chan_key n i m) v st = Returns st' \<and> config_agrees st' \<and>
    channel_update m v (cs ! i) = Returns c' \<and>
    fFairMQChannelMap st' = map (\<lambda>(n', ds). (n', if n' = n then ds[i := c'] else ds)) (fFairMQChannelMap st)"
proof -
  note D = config_agreesD [OF assms(1-3)] and k = settable_key [OF assms(4)]
  let ?k = "chan_key n i m"
  let ?st1 = "UpdateVarMap ?k v st"
  from channel_update_members [OF assms(4), of "cs ! i"] obtain c' where
    c': "channel_update m v (cs ! i) = Returns c'"
      "member_values c' = map (\<lambda>(k, w). (k, if k = m then v else w)) (member_values (cs ! i))" by blast
  have m: "m \<noteq> ''numSockets''" using k member_plain [of m] by (metis fst_conv image_eqI)
  have "config_agrees (?st1\<lparr>fFairMQChannelMap := map (\<lambda>(n', ds). (n', if n' = n then ds[i := c'] else ds)) (fFairMQChannelMap ?st1)\<rparr>)"
    by (rule replace_channel_agrees [OF assms(1-3) keeps_write_member [OF D(2) _ m] channel_agrees_write [OF D(1,2) _ c'(2)]])
      (use k in simp_all)
  moreover have "fChannelKeyMap st ?k = Some \<lparr>ck_channel = n, ck_index = i, ck_member = m\<rparr>"
    using D(1) k by (auto simp: channel_agrees_def)
  from SetValue_channel [OF assms(4) this, of F]
  have "SetValue F ?k v st = Returns (EmitUpdate F ?k v
      (?st1\<lparr>fFairMQChannelMap := map (\<lambda>(n', ds). (n', if n' = n then ds[i := c'] else ds)) (fFairMQChannelMap st)\<rparr>))"
    using assms(2,3) c'(1) by (simp add: at_channel_def map_at_def vector_at_def map_outcome_result_def)
  ultimately show ?thesis using c'(1) by (simp add: EmitUpdate_def Let_def)
qed

section \<open>Properties\<close>

lemma sorted_store: "sorted_map m \<Longrightarrow> sorted_map (store vars m)"
  unfolding store_def by (induction vars arbitrary: m) (auto simp: sorted_omap_update)

lemma sorted_Nil [simp]: "sorted_map []"
  by (simp add: sorted_map_def)

lemma SUBOPT_parsed_ok: "SUBOPT_UserParser P cfg i r = Returns m \<Longrightarrow> parsed_ok m"
  by (auto simp: SUBOPT_UserParser_def ptreeToMQMap_def and_then_Returns_iff Let_def split: if_splits
      elim!: DeviceParser_keeps) (simp add: parsed_ok_def)

lemma JSON_parsed_ok: "JSON_UserParser P rj f i r = Returns m \<Longrightarrow> parsed_ok m"
  by (auto simp: JSON_UserParser_def ptreeToMQMap_def and_then_Returns_iff split: if_splits
      elim!: DeviceParser_keeps) (simp add: parsed_ok_def)

lemma parsed_ok_distinct: "parsed_ok m \<Longrightarrow> distinct (map fst m)"
  by (simp add: parsed_ok_def)

lemma config_agrees_empty:
  "sorted_map (fVarMap st) \<Longrightarrow> fFairMQChannelMap st = [] \<Longrightarrow> fChannelInfo st = [] \<Longrightarrow> config_agrees st"
  by (simp add: config_agrees_def)

lemma UpdateChannelMap_Returns:
  assumes "sorted_map (fVarMap st)" "parsed_ok m" "UpdateChannelMap m st = Returns st'"
  shows "config_agrees st'"
  using UpdateChannelMap_agrees [OF assms(1) parsed_ok_distinct [OF assms(2)]] assms(3) by auto

lemma parse_channels_agrees:
  assumes "parse_channels P rj i st = Returns st'" "sorted_map (fVarMap st)"
    and "fFairMQChannelMap st = []" "fChannelInfo st = []"
  shows "config_agrees st'"
  using assms config_agrees_empty [OF assms(2-4)]
  by (auto simp: parse_channels_def and_then_Returns_iff split: option.splits
      intro: UpdateChannelMap_Returns [OF assms(2)] dest: SUBOPT_parsed_ok JSON_parsed_ok)

lemma ParseCmdLine_Returns:
  assumes "ParseCmdLine parser argv au st = Returns st'"
  shows "sorted_map (fVarMap st')" "fFairMQChannelMap st' = fFairMQChannelMap st" "fChannelInfo st' = fChannelInfo st"
  using assms by (auto simp: ParseCmdLine_def Let_def and_then_Returns_iff sorted_store split: if_splits)

text \<open>
  C22: Starting without channels, whenever \<open>ParseAll\<close> returns, with whichever result and for whatever the
  libraries made of the command line and of the configuration file, properties and channels agree:
  the members of every sub-channel are the properties under its keys, its keys lead to it, and the
  number of sub-channels is in the properties and in the channel info.
\<close>

theorem ParseAll_agrees:
  assumes "ParseAll P read_json parser argv allowUnregistered st = Returns (r, st')"
    and "fFairMQChannelMap st = []" "fChannelInfo st = []"
  shows "config_agrees st'"
proof -
  from assms(1) obtain st1 where st1: "ParseCmdLine parser argv allowUnregistered st = Returns st1"
    unfolding ParseAll_def and_then_Returns_iff by blast
  note p = ParseCmdLine_Returns [OF st1]
  have "st' = st1 \<or>
      (\<exists>i. (case parse_channels P read_json i st1 of
           Returns st' \<Rightarrow> Returns (0, st') | Throws e \<Rightarrow> Returns (1, st1) | Exits \<Rightarrow> Exits | Undefined \<Rightarrow> Undefined) = Returns (r, st'))"
    using assms(1) unfolding ParseAll_def st1 and_then.simps
    by (auto simp: and_then_Returns_iff split: if_splits)
  then have "st' = st1 \<or> (\<exists>i. parse_channels P read_json i st1 = Returns st')"
  proof (elim disjE exE)
    fix i
    assume "(case parse_channels P read_json i st1 of
           Returns st' \<Rightarrow> Returns (0, st') | Throws e \<Rightarrow> Returns (1, st1) | Exits \<Rightarrow> Exits | Undefined \<Rightarrow> Undefined) = Returns (r, st')"
    then show ?thesis by (cases "parse_channels P read_json i st1") auto
  qed simp
  then show ?thesis
    using parse_channels_agrees [OF _ p(1)] config_agrees_empty [OF p(1)] p(2,3) assms(2,3) by auto
qed

definition sink_vars :: "(string \<times> nat variable_value) list" where
  "sink_vars =
    [(''id'', \<lparr>v_value = VString ''sink'', v_defaulted = False\<rparr>),
     (''channel-config'', \<lparr>v_value = VVector TString [VString (render_all data_in)], v_defaulted = False\<rparr>)]"

definition sink_parser :: "nat cmdline_parser" where
  "sink_parser options allowUnregistered argv = Returns (sink_vars, [])"

definition sink_config :: "(nat, nat, nat) FairMQProgOptions" where
  "sink_config =
     (case new_FairMQProgOptions (\<lambda>_ _ _. Returns ([], [])) ''uuid'' of Returns st \<Rightarrow> st)"

definition sink_parsed :: "(int \<times> (nat, nat, nat) FairMQProgOptions) outcome" where
  "sink_parsed = ParseAll tree_ptree (\<lambda>_. Throws PTreeError) sink_parser [''sink''] True sink_config"

lemma sink_store:
  "store sink_vars [] =
    [(''channel-config'', \<lparr>v_value = VVector TString [VString (render_all data_in)], v_defaulted = False\<rparr>),
     (''id'', \<lparr>v_value = VString ''sink'', v_defaulted = False\<rparr>)]"
  by code_simp

lemma sink_channels:
  "map_outcome_result (map fst) (SUBOPT_UserParser tree_ptree [render_all data_in] ''sink'' ''fairMQOptions'' :: nat channel_map outcome) =
   Returns [''data'']"
  by code_simp

theorem ParseAll_agrees_witness:
  "\<exists>st. sink_parsed = Returns (0, st) \<and> config_agrees st \<and> map fst (fFairMQChannelMap st) = [''data'']"
proof -
  have start: "fFairMQChannelMap sink_config = []" "fChannelInfo sink_config = []"
    by (simp_all add: sink_config_def new_FairMQProgOptions_def ParseDefaults_def store_def)
  let ?st = "sink_config\<lparr>fUnregisteredOptions := [], fVarMap := store sink_vars []\<rparr>"
  from sink_channels obtain m :: "nat channel_map" where
    m: "SUBOPT_UserParser tree_ptree [render_all data_in] ''sink'' ''fairMQOptions'' = Returns m" "map fst m = [''data'']"
    by (auto simp: map_outcome_result_def and_then_Returns_iff)
  have "sorted_map (fVarMap ?st)" "distinct (map fst m)" using m(2) by (simp_all add: sorted_store)
  from UpdateChannelMap_agrees [OF this] obtain st' where
    st': "UpdateChannelMap m ?st = Returns st'" "fFairMQChannelMap st' = map (\<lambda>(n, cs). (n, map FairMQChannel_copy cs)) m" by blast
  have "parse_channels tree_ptree (\<lambda>_. Throws PTreeError) ''sink'' ?st = Returns st'"
    using m(1) st'(1) by (simp add: parse_channels_def lookup_var_def sink_store as_strings_def as_string_def)
  then have s: "sink_parsed = Returns (0, st')"
    by (simp add: sink_parsed_def ParseAll_def ParseCmdLine_def sink_parser_def Count_def lookup_var_def sink_store
        GetValue_def idForParser_def as_string_def)
  have "map fst (fFairMQChannelMap st') = map fst m" unfolding st'(2) by (simp add: case_prod_unfold)
  then have "map fst (fFairMQChannelMap st') = [''data'']" unfolding m(2) .
  moreover have "config_agrees st'" by (rule ParseAll_agrees [OF s [unfolded sink_parsed_def] start])
  ultimately show ?thesis using s by (intro exI conjI)
qed


text \<open>A configuration of one channel with one sub-channel.\<close>

definition one_channel :: "(nat, nat, nat) FairMQProgOptions" where
  "one_channel =
     (case UpdateChannelMap [(''data'', [FairMQChannel_default])] sink_config of Returns st \<Rightarrow> st)"

lemma one_channel:
  "config_agrees one_channel" "fFairMQChannelMap one_channel = [(''data'', [FairMQChannel_copy FairMQChannel_default])]"
proof -
  have "sorted_map (fVarMap sink_config)"
    by (simp add: sink_config_def new_FairMQProgOptions_def ParseDefaults_def store_def)
  from UpdateChannelMap_agrees [OF this, of "[(''data'', [FairMQChannel_default])]"]
  show "config_agrees one_channel" "fFairMQChannelMap one_channel = [(''data'', [FairMQChannel_copy FairMQChannel_default])]"
    by (auto simp: one_channel_def)
qed

definition plain_printers :: "nat printers" where
  "plain_printers = \<lparr>show_float = nat_to_string, show_double = nat_to_string, show_path = (\<lambda>p. p)\<rparr>"


text \<open>
  The kernel buffer sizes of a sub-channel are not changed by setting their properties: \<open>SetValue\<close> of an
  integer under the key of \<open>sndKernelSize\<close> or \<open>rcvKernelSize\<close> returns and the property then has the new
  value, but the channel map is as before, so that properties and channels no longer agree where the
  value is a new one.
\<close>

theorem SetValue_misses_kernel_sizes:
  assumes "config_agrees st" "map_of (fFairMQChannelMap st) n = Some cs" "i < length cs"
    and "m = ''sndKernelSize'' \<and> k \<noteq> GetSndKernelSize (cs ! i) \<or> m = ''rcvKernelSize'' \<and> k \<noteq> GetRcvKernelSize (cs ! i)"
  shows "\<exists>st'. SetValue F (chan_key n i m) (VInt k) st = Returns st' \<and>
    lookup_var st' (chan_key n i m) = Some (VInt k) \<and> fFairMQChannelMap st' = fFairMQChannelMap st \<and> \<not> config_agrees st'"
proof -
  note D = config_agreesD [OF assms(1-3)]
  let ?st1 = "UpdateVarMap (chan_key n i m) (VInt k) st"
  obtain m' where key: "fChannelKeyMap st (chan_key n i m) = Some \<lparr>ck_channel = n, ck_index = i, ck_member = m'\<rparr>"
    and m': "m' = ''sndKernelSize'' \<or> m' = ''rcvkernelSize''"
    using D(1) assms(4) by (auto simp: channel_agrees_def channel_keys_def)
  have s: "SetValue F (chan_key n i m) (VInt k) st = Returns (EmitUpdate F (chan_key n i m) (VInt k) ?st1)"
    using key m' by (auto simp: SetValue_def UpdateChannelValue_int_def EmitUpdate_def map_outcome_result_def Let_def)
  have l: "lookup_var ?st1 (chan_key n i m) = Some (VInt k)" using D(2) by simp
  have "\<not> config_agrees ?st1"
  proof
    assume "config_agrees ?st1"
    then have "channel_agrees ?st1 n i (cs ! i)" using config_agreesD(1) [of ?st1 n cs i] assms(2,3) by simp
    then show False using assms(4) l by (auto simp: channel_agrees_def member_values_def)
  qed
  then show ?thesis using s l by (simp add: EmitUpdate_def Let_def)
qed

theorem SetValue_misses_kernel_sizes_witness:
  "\<exists>st'. SetValue plain_printers (chan_key ''data'' 0 ''sndKernelSize'') (VInt 4096) one_channel = Returns st' \<and>
     lookup_var st' (chan_key ''data'' 0 ''sndKernelSize'') = Some (VInt 4096) \<and>
     fFairMQChannelMap st' = fFairMQChannelMap one_channel \<and> \<not> config_agrees st'"
  using SetValue_misses_kernel_sizes [OF one_channel(1), of "''data''" _ 0 "''sndKernelSize''" 4096 plain_printers] one_channel(2)
  by (simp add: GetSndKernelSize_def FairMQChannel_copy_def FairMQChannel_default_def)

lemma at_channel_keeps:
  "at_channel n i f st = Returns st2 \<Longrightarrow> fVarMap st2 = fVarMap st \<and> fEvents st2 = fEvents st \<and> notified st2 = notified st"
  by (auto simp: at_channel_def and_then_Returns_iff)

lemma SetValue_Returns:
  assumes "SetValue F k v st = Returns st'"
  shows "\<exists>st2. st' = EmitUpdate F k v st2 \<and> fVarMap st2 = fVarMap (UpdateVarMap k v st) \<and>
    fEvents st2 = fEvents st \<and> notified st2 = notified st"
proof -
  let ?u = "case (v, fChannelKeyMap (UpdateVarMap k v st) k) of
       (VInt i, Some ck) \<Rightarrow> map_outcome_result snd (UpdateChannelValue_int (ck_channel ck) (ck_index ck) (ck_member ck) i (UpdateVarMap k v st))
     | (VString s, Some ck) \<Rightarrow> map_outcome_result snd (UpdateChannelValue_str (ck_channel ck) (ck_index ck) (ck_member ck) s (UpdateVarMap k v st))
     | _ \<Rightarrow> Returns (UpdateVarMap k v st)"
  from assms obtain st2 where st2: "?u = Returns st2" "st' = EmitUpdate F k v st2"
    unfolding SetValue_def EmitUpdate_def Let_def and_then_Returns_iff by blast
  from st2(1) have "fVarMap st2 = fVarMap (UpdateVarMap k v st) \<and> fEvents st2 = fEvents (UpdateVarMap k v st) \<and>
      notified st2 = notified (UpdateVarMap k v st)"
    by (auto simp: map_outcome_result_def and_then_Returns_iff UpdateChannelValue_int_def UpdateChannelValue_str_def
        split: any_value.splits option.splits if_splits dest!: at_channel_keeps)
  then show ?thesis using st2(2) by auto
qed

lemma Emit_after_Emit [simp]: "fst (Emit k (snd (Emit k' m))) = fst (Emit k m)"
  by (simp add: Emit_def GetSignal_def split: option.splits)

lemma notify_events:
  "notified (notify e k w st) = notified st @ map (\<lambda>cb. (e, cb, k, w)) (fst (Emit e (fEvents st)))"
  "fEvents (notify e k w st) = snd (Emit e (fEvents st))"
  by (simp_all add: notify_def split: prod.splits)

lemma notified_EmitUpdate:
  "notified (EmitUpdate F k v st) = notified st @
     map (\<lambda>cb. (PropertyChange (type_of_value v), cb, k, v)) (fst (Emit (PropertyChange (type_of_value v)) (fEvents st))) @
     map (\<lambda>cb. (PropertyChangeAsString, cb, k, VString (GetStringValue F k st))) (fst (Emit PropertyChangeAsString (fEvents st)))"
  by (simp add: EmitUpdate_def Let_def notify_events GetStringValue_def)

text \<open>
  C36: After \<open>SetValue\<close> the property is read back with its type, and reading it as another type throws. The
  callbacks subscribed to changes of values of that type are called with the key and the value, and
  then those subscribed to changes as strings, with the value as it is printed.
\<close>

theorem SetValue_read_and_notified:
  assumes "sorted_map (fVarMap st)" "map_of supported_types (type_of_value v) = Some ty"
    and "SetValue F k v st = Returns st'"
  shows "GetValue d k st' = (if type_of_value d = type_of_value v then Returns v else Throws BadAnyCast) \<and>
    GetStringValue F k st' = stream_value F v \<and>
    notified st' = notified st @
      map (\<lambda>cb. (PropertyChange (type_of_value v), cb, k, v)) (fst (Emit (PropertyChange (type_of_value v)) (fEvents st))) @
      map (\<lambda>cb. (PropertyChangeAsString, cb, k, VString (stream_value F v))) (fst (Emit PropertyChangeAsString (fEvents st)))"
proof -
  from SetValue_Returns [OF assms(3)] obtain st2 where
    st2: "st' = EmitUpdate F k v st2" "fVarMap st2 = fVarMap (UpdateVarMap k v st)" "fEvents st2 = fEvents st" "notified st2 = notified st"
    by blast
  have l: "lookup_var st2 k = Some v" using lookup_UpdateVarMap [OF assms(1), of k v k] by (simp add: lookup_var_def st2(2))
  then obtain w where w: "map_of (fVarMap st2) k = Some w" "v_value w = v" by (auto simp: lookup_var_def)
  have "fVarMap st' = fVarMap st2" by (simp add: st2(1) EmitUpdate_def Let_def)
  then show ?thesis using l w assms(2) st2
    by (auto simp: notified_EmitUpdate GetValue_def GetStringValue_def lookup_var_def ConvertVariableValue_ToString_def)
qed

definition watched :: "(nat, nat, nat) FairMQProgOptions" where
  "watched = SubscribeAsString next_handle ''log'' 7 (Subscribe_property next_handle TInt ''logic'' 5 sink_config)"

theorem SetValue_read_and_notified_witness:
  "\<exists>st'. SetValue plain_printers ''rate'' (VInt 12) watched = Returns st' \<and> GetValue (VInt 0) ''rate'' st' = Returns (VInt 12) \<and>
    notified st' = [(PropertyChange TInt, 5, ''rate'', VInt 12), (PropertyChangeAsString, 7, ''rate'', VString ''12'')]"
proof -
  have w: "sorted_map (fVarMap watched)" "notified watched = []" "fChannelKeyMap watched = Map.empty"
    "fst (Emit (PropertyChange TInt) (fEvents watched)) = [5]" "fst (Emit PropertyChangeAsString (fEvents watched)) = [7]"
    by (simp_all add: watched_def SubscribeAsString_def Subscribe_property_def sink_config_def new_FairMQProgOptions_def
        ParseDefaults_def store_def Subscribe_def new_EventManager_def GetSignal_def Emit_def next_handle_def)
  then obtain st' where st': "SetValue plain_printers ''rate'' (VInt 12) watched = Returns st'"
    by (simp add: SetValue_def Let_def)
  have "map_of supported_types (type_of_value (VInt 12 :: nat any_value)) = Some ''<int>''" by (simp add: supported_types_def)
  moreover have "int_to_string 12 = ''12''" by code_simp
  ultimately show ?thesis using SetValue_read_and_notified [OF w(1) _ st', of _ "VInt 0"] st' w by simp
qed

end
