(* ===== verification/Plugin_Services.thy ===== *)
theory Plugin_Services
  imports Device_State_Machine Prog_Options
begin

text \<open>
  What plugins see of a device: \<open>fairmq/PluginServices.{h,cxx}\<close>. The state has the controlling plugin,
  the device's state machine and the configuration. \<open>ChangeDeviceState\<close> holds
  \<open>fDeviceControllerMutex\<close> while the state change waits for the worker; the field \<open>inside\<close> is the
  transition that the holder of the mutex waits in. An operation that takes the mutex has the result
  \<open>None\<close> while it is held: the caller blocks.
\<close>

section \<open>States and transitions\<close>

datatype DeviceState =
    Ok
  | Error
  | Idle
  | InitializingDevice
  | DeviceReady
  | InitializingTask
  | Ready
  | Running
  | Paused
  | ResettingTask
  | ResettingDevice
  | Exiting

datatype DeviceStateTransition =
    InitDevice
  | InitTask
  | Run
  | Pause
  | Resume
  | Stop
  | ResetTask
  | ResetDevice
  | End
  | ErrorFound

definition fkDeviceStateStrMap :: "(string \<times> DeviceState) list" where
  "fkDeviceStateStrMap =
    [(''OK'', Ok),
     (''ERROR'', DeviceState.Error),
     (''IDLE'', Idle),
     (''INITIALIZING DEVICE'', InitializingDevice),
     (''DEVICE READY'', DeviceReady),
     (''INITIALIZING TASK'', InitializingTask),
     (''READY'', Ready),
     (''RUNNING'', Running),
     (''PAUSED'', Paused),
     (''RESETTING TASK'', ResettingTask),
     (''RESETTING DEVICE'', ResettingDevice),
     (''EXITING'', Exiting)]"

definition fkStrDeviceStateMap :: "(DeviceState \<times> string) list" where
  "fkStrDeviceStateMap =
    [(Ok, ''OK''),
     (DeviceState.Error, ''ERROR''),
     (Idle, ''IDLE''),
     (InitializingDevice, ''INITIALIZING DEVICE''),
     (DeviceReady, ''DEVICE READY''),
     (InitializingTask, ''INITIALIZING TASK''),
     (Ready, ''READY''),
     (Running, ''RUNNING''),
     (Paused, ''PAUSED''),
     (ResettingTask, ''RESETTING TASK''),
     (ResettingDevice, ''RESETTING DEVICE''),
     (Exiting, ''EXITING'')]"

definition fkDeviceStateTransitionStrMap :: "(string \<times> DeviceStateTransition) list" where
  "fkDeviceStateTransitionStrMap =
    [(''INIT DEVICE'', InitDevice),
     (''INIT TASK'', InitTask),
     (''RUN'', Run),
     (''PAUSE'', Pause),
     (''RESUME'', Resume),
     (''STOP'', Stop),
     (''RESET TASK'', ResetTask),
     (''RESET DEVICE'', ResetDevice),
     (''END'', End),
     (''ERROR FOUND'', ErrorFound)]"

definition fkStrDeviceStateTransitionMap :: "(DeviceStateTransition \<times> string) list" where
  "fkStrDeviceStateTransitionMap =
    [(InitDevice, ''INIT DEVICE''),
     (InitTask, ''INIT TASK''),
     (Run, ''RUN''),
     (Pause, ''PAUSE''),
     (Resume, ''RESUME''),
     (Stop, ''STOP''),
     (ResetTask, ''RESET TASK''),
     (ResetDevice, ''RESET DEVICE''),
     (End, ''END''),
     (ErrorFound, ''ERROR FOUND'')]"

definition fkDeviceStateMap :: "(State \<times> DeviceState) list" where
  "fkDeviceStateMap =
    [(OK, Ok),
     (State.Error, DeviceState.Error),
     (IDLE, Idle),
     (INITIALIZING_DEVICE, InitializingDevice),
     (DEVICE_READY, DeviceReady),
     (INITIALIZING_TASK, InitializingTask),
     (READY, Ready),
     (RUNNING, Running),
     (PAUSED, Paused),
     (RESETTING_TASK, ResettingTask),
     (RESETTING_DEVICE, ResettingDevice),
     (EXITING, Exiting)]"

definition fkDeviceStateTransitionMap :: "(DeviceStateTransition \<times> Event) list" where
  "fkDeviceStateTransitionMap =
    [(InitDevice, INIT_DEVICE),
     (InitTask, INIT_TASK),
     (Run, RUN),
     (Pause, PAUSE),
     (Resume, RUN),
     (Stop, STOP),
     (ResetTask, RESET_TASK),
     (ResetDevice, RESET_DEVICE),
     (End, END),
     (ErrorFound, ERROR_FOUND)]"

definition ToDeviceState :: "string \<Rightarrow> DeviceState outcome" where
  "ToDeviceState state = map_at (map_of fkDeviceStateStrMap) state"

definition ToDeviceStateTransition :: "string \<Rightarrow> DeviceStateTransition outcome" where
  "ToDeviceStateTransition transition = map_at (map_of fkDeviceStateTransitionStrMap) transition"

definition ToStr_DeviceState :: "DeviceState \<Rightarrow> string outcome" where
  "ToStr_DeviceState state = map_at (map_of fkStrDeviceStateMap) state"

definition ToStr_DeviceStateTransition :: "DeviceStateTransition \<Rightarrow> string outcome" where
  "ToStr_DeviceStateTransition transition = map_at (map_of fkStrDeviceStateTransitionMap) transition"

section \<open>The services\<close>

record ('s, 'f, 'c) PluginServices =
  fConfig :: "('s, 'f, 'c) FairMQProgOptions"
  fDevice :: Machine
  fDeviceController :: "string option"
  inside :: "(Event \<times> nat \<times> State \<times> Action) option"

definition new_PluginServices ::
    "('s, 'f, 'c) FairMQProgOptions \<Rightarrow> Machine \<Rightarrow> ('s, 'f, 'c) PluginServices" where
  "new_PluginServices config device =
     \<lparr>fConfig = config, fDevice = device, fDeviceController = None, inside = None\<rparr>"

definition GetCurrentDeviceState :: "('s, 'f, 'c) PluginServices \<Rightarrow> DeviceState outcome" where
  "GetCurrentDeviceState ps = map_at (map_of fkDeviceStateMap) (GetCurrentState (fDevice ps))"

subsection \<open>Device control\<close>

definition locked :: "('s, 'f, 'c) PluginServices \<Rightarrow> 'r \<Rightarrow> 'r option" where
  "locked ps r = (if inside ps = None then Some r else None)"

text \<open>A state change of the device, which either completes or leaves the caller waiting in it.\<close>

definition change_device ::
    "(State list \<Rightarrow> Event \<Rightarrow> nat option) \<Rightarrow> Event \<Rightarrow>
     ('s, 'f, 'c) PluginServices \<Rightarrow> ('s, 'f, 'c) PluginServices outcome" where
  "change_device dispatch e ps =
     and_then (ChangeState dispatch (event_number e) (fDevice ps))
       (\<lambda>(_, p). Returns
          (case p of
             Completed m \<Rightarrow> ps\<lparr>fDevice := m\<rparr>
           | WaitsForWorker m e' i t a \<Rightarrow> ps\<lparr>fDevice := m, inside := Some (e', i, t, a)\<rparr>))"

definition ChangeDeviceState ::
    "(State list \<Rightarrow> Event \<Rightarrow> nat option) \<Rightarrow> string \<Rightarrow> DeviceStateTransition \<Rightarrow>
     ('s, 'f, 'c) PluginServices \<Rightarrow> ('s, 'f, 'c) PluginServices outcome option" where
  "ChangeDeviceState dispatch controller next ps =
     locked ps
       (let ps = (if fDeviceController ps = None then ps\<lparr>fDeviceController := Some controller\<rparr> else ps)
        in if fDeviceController ps = Some controller
           then and_then (map_at (map_of fkDeviceStateTransitionMap) next) (\<lambda>e. change_device dispatch e ps)
           else Throws DeviceControlError)"

text \<open>The rest of a state change whose worker has finished: the mutex is released on return.\<close>

definition ChangeDeviceState_returns ::
    "('s, 'f, 'c) PluginServices \<Rightarrow> ('s, 'f, 'c) PluginServices outcome option" where
  "ChangeDeviceState_returns ps =
     (case inside ps of
        None \<Rightarrow> None
      | Some (e, i, t, a) \<Rightarrow>
          if fWorkActive (fDevice ps) then None
          else Some (exit_on_exception
            (and_then (finish_transition (fDevice ps) e i t a)
               (\<lambda>m. Returns (ps\<lparr>fDevice := m, inside := None\<rparr>)))))"

definition TakeDeviceControl ::
    "string \<Rightarrow> ('s, 'f, 'c) PluginServices \<Rightarrow> ('s, 'f, 'c) PluginServices outcome option" where
  "TakeDeviceControl controller ps =
     locked ps
       (if fDeviceController ps = None then Returns (ps\<lparr>fDeviceController := Some controller\<rparr>)
        else if fDeviceController ps = Some controller then Returns ps
        else Throws DeviceControlError)"

definition StealDeviceControl ::
    "string \<Rightarrow> ('s, 'f, 'c) PluginServices \<Rightarrow> ('s, 'f, 'c) PluginServices outcome option" where
  "StealDeviceControl controller ps = locked ps (Returns (ps\<lparr>fDeviceController := Some controller\<rparr>))"

definition ReleaseDeviceControl ::
    "string \<Rightarrow> ('s, 'f, 'c) PluginServices \<Rightarrow> ('s, 'f, 'c) PluginServices outcome option" where
  "ReleaseDeviceControl controller ps =
     locked ps
       (if fDeviceController ps = Some controller then Returns (ps\<lparr>fDeviceController := None\<rparr>)
        else Throws DeviceControlError)"

definition GetDeviceController :: "('s, 'f, 'c) PluginServices \<Rightarrow> string option option" where
  "GetDeviceController ps = locked ps (fDeviceController ps)"

text \<open>\<open>WaitForReleaseDeviceControl\<close> returns when it finds no controller, and waits otherwise.\<close>

definition WaitForReleaseDeviceControl :: "('s, 'f, 'c) PluginServices \<Rightarrow> unit option" where
  "WaitForReleaseDeviceControl ps =
     (if inside ps = None \<and> fDeviceController ps = None then Some () else None)"

definition SubscribeToDeviceStateChange ::
    "(nat list \<Rightarrow> nat) \<Rightarrow> string \<Rightarrow> ('s, 'f, 'c) PluginServices \<Rightarrow> ('s, 'f, 'c) PluginServices" where
  "SubscribeToDeviceStateChange fresh subscriber ps =
     ps\<lparr>fDevice := SubscribeToStateChange fresh subscriber (fDevice ps)\<rparr>"

definition UnsubscribeFromDeviceStateChange ::
    "string \<Rightarrow> ('s, 'f, 'c) PluginServices \<Rightarrow> ('s, 'f, 'c) PluginServices" where
  "UnsubscribeFromDeviceStateChange subscriber ps =
     ps\<lparr>fDevice := UnsubscribeFromStateChange subscriber (fDevice ps)\<rparr>"

subsection \<open>Configuration\<close>

definition PropertyExists :: "string \<Rightarrow> ('s, 'f, 'c) PluginServices \<Rightarrow> bool" where
  "PropertyExists key ps \<longleftrightarrow> Count key (fConfig ps) > 0"

definition SetProperty ::
    "'f printers \<Rightarrow> string \<Rightarrow> 'f any_value \<Rightarrow>
     ('s, 'f, 'c) PluginServices \<Rightarrow> ('s, 'f, 'c) PluginServices outcome" where
  "SetProperty F key val ps =
     and_then (GetCurrentDeviceState ps)
       (\<lambda>currentState.
          if currentState = InitializingDevice
          then map_outcome_result (\<lambda>c. ps\<lparr>fConfig := c\<rparr>) (SetValue F key val (fConfig ps))
          else Throws InvalidStateError)"

definition GetProperty :: "'f any_value \<Rightarrow> string \<Rightarrow> ('s, 'f, 'c) PluginServices \<Rightarrow> 'f any_value outcome" where
  "GetProperty dflt key ps =
     (if PropertyExists key ps then GetValue dflt key (fConfig ps) else Throws PropertyNotFoundError)"

definition GetPropertyAsString :: "'f printers \<Rightarrow> string \<Rightarrow> ('s, 'f, 'c) PluginServices \<Rightarrow> string outcome" where
  "GetPropertyAsString F key ps =
     (if PropertyExists key ps then Returns (GetStringValue F key (fConfig ps)) else Throws PropertyNotFoundError)"

definition GetChannelInfo_ps :: "('s, 'f, 'c) PluginServices \<Rightarrow> (string \<times> int) list" where
  "GetChannelInfo_ps ps = GetChannelInfo (fConfig ps)"

definition GetPropertyKeys_ps :: "('s, 'f, 'c) PluginServices \<Rightarrow> string list" where
  "GetPropertyKeys_ps ps = GetPropertyKeys (fConfig ps)"

definition SubscribeToPropertyChange ::
    "(nat list \<Rightarrow> nat) \<Rightarrow> any_type \<Rightarrow> string \<Rightarrow> 'c \<Rightarrow>
     ('s, 'f, 'c) PluginServices \<Rightarrow> ('s, 'f, 'c) PluginServices" where
  "SubscribeToPropertyChange fresh ty subscriber callback ps =
     ps\<lparr>fConfig := Subscribe_property fresh ty subscriber callback (fConfig ps)\<rparr>"

definition UnsubscribeFromPropertyChange ::
    "any_type \<Rightarrow> string \<Rightarrow> ('s, 'f, 'c) PluginServices \<Rightarrow> ('s, 'f, 'c) PluginServices outcome" where
  "UnsubscribeFromPropertyChange ty subscriber ps =
     map_outcome_result (\<lambda>c. ps\<lparr>fConfig := c\<rparr>) (Unsubscribe_property ty subscriber (fConfig ps))"

definition SubscribeToPropertyChangeAsString ::
    "(nat list \<Rightarrow> nat) \<Rightarrow> string \<Rightarrow> 'c \<Rightarrow> ('s, 'f, 'c) PluginServices \<Rightarrow> ('s, 'f, 'c) PluginServices" where
  "SubscribeToPropertyChangeAsString fresh subscriber callback ps =
     ps\<lparr>fConfig := SubscribeAsString fresh subscriber callback (fConfig ps)\<rparr>"

definition UnsubscribeFromPropertyChangeAsString ::
    "string \<Rightarrow> ('s, 'f, 'c) PluginServices \<Rightarrow> ('s, 'f, 'c) PluginServices outcome" where
  "UnsubscribeFromPropertyChangeAsString subscriber ps =
     map_outcome_result (\<lambda>c. ps\<lparr>fConfig := c\<rparr>) (UnsubscribeAsString subscriber (fConfig ps))"

section \<open>The contract of device control\<close>

text \<open>The requests that a plugin can make without overriding the controlling one.\<close>

datatype 'a request = Take | Release | Act 'a

fun perform ::
    "(string \<Rightarrow> 'm \<Rightarrow> 'm outcome option) \<Rightarrow> (string \<Rightarrow> 'm \<Rightarrow> 'm outcome option) \<Rightarrow>
     (string \<Rightarrow> 'a \<Rightarrow> 'm \<Rightarrow> 'm outcome option) \<Rightarrow> string \<times> 'a request \<Rightarrow> 'm \<Rightarrow> 'm outcome option" where
  "perform acquire release act (c, Take) m = acquire c m"
| "perform acquire release act (c, Release) m = release c m"
| "perform acquire release act (c, Act a) m = act c a m"

text \<open>The state after a request: a request that blocks or throws leaves it as it was.\<close>

definition serve :: "('r \<Rightarrow> 'm \<Rightarrow> 'm outcome option) \<Rightarrow> 'r \<Rightarrow> 'm \<Rightarrow> 'm" where
  "serve f r m = (case f r m of Some (Returns m') \<Rightarrow> m' | _ \<Rightarrow> m)"

definition denied :: "'m outcome option \<Rightarrow> bool" where
  "denied x \<longleftrightarrow> x = None \<or> x = Some (Throws DeviceControlError)"

locale device_control =
  fixes owner :: "'m \<Rightarrow> string option"
    and acquire release steal :: "string \<Rightarrow> 'm \<Rightarrow> 'm outcome option"
    and act :: "string \<Rightarrow> 'a \<Rightarrow> 'm \<Rightarrow> 'm outcome option"
  assumes acquire_denied: "owner m = Some d \<Longrightarrow> d \<noteq> c \<Longrightarrow> denied (acquire c m)"
    and release_denied: "owner m \<noteq> Some c \<Longrightarrow> denied (release c m)"
    and act_denied: "owner m = Some d \<Longrightarrow> d \<noteq> c \<Longrightarrow> denied (act c a m)"
    and acquire_owner: "acquire c m = Some (Returns m') \<Longrightarrow> owner m' = Some c"
    and act_owner: "act c a m = Some (Returns m') \<Longrightarrow> owner m' = Some c"
    and release_owner: "release c m = Some (Returns m') \<Longrightarrow> owner m' = None"
    and steal_owner: "steal c m = Some (Returns m') \<Longrightarrow> owner m' = Some c"
begin

lemma perform_denied:
  assumes "owner m = Some d" "c \<noteq> d"
  shows "denied (perform acquire release act (c, r) m)"
  using assms acquire_denied [OF assms(1)] release_denied [of m c] act_denied [OF assms(1)] by (cases r) auto

lemma serve_denied:
  assumes "owner m = Some d" "c \<noteq> d"
  shows "serve (perform acquire release act) (c, r) m = m"
  using perform_denied [OF assms, of r] by (auto simp: denied_def serve_def)

lemma others_denied:
  assumes "owner m = Some d" "d \<notin> fst ` set rs"
  shows "fold (serve (perform acquire release act)) rs m = m"
  using assms
proof (induction rs)
  case (Cons r rs)
  then show ?case using serve_denied [of m d "fst r" "snd r"] by (auto simp: image_iff)
qed simp

text \<open>Who acts has control afterwards, and keeps it while only others make requests.\<close>

lemma acts_keep_control:
  assumes "act d a m = Some (Returns m')" "d \<notin> fst ` set rs"
  shows "owner (fold (serve (perform acquire release act)) rs m') = Some d"
  using others_denied [OF act_owner [OF assms(1)] assms(2)] act_owner [OF assms(1)] by simp

end

section \<open>The services keep the contract\<close>

lemma change_device_controller:
  assumes "change_device d e ps = Returns ps'"
  shows "fDeviceController ps' = fDeviceController ps \<and> fConfig ps' = fConfig ps"
proof -
  from assms obtain p where "ps' = (case p of
      Completed m \<Rightarrow> ps\<lparr>fDevice := m\<rparr> | WaitsForWorker m e' i t a \<Rightarrow> ps\<lparr>fDevice := m, inside := Some (e', i, t, a)\<rparr>)"
    unfolding change_device_def and_then_Returns_iff by auto
  then show ?thesis by (cases p) simp_all
qed

lemma locked_Some_iff: "locked ps r = Some x \<longleftrightarrow> inside ps = None \<and> r = x"
  by (simp add: locked_def)

lemma denied_locked [simp]: "denied (locked ps (Throws DeviceControlError))"
  by (simp add: denied_def locked_def)

lemma services_device_control:
  "device_control fDeviceController TakeDeviceControl ReleaseDeviceControl StealDeviceControl (ChangeDeviceState d)"
  by unfold_locales
    (auto simp: TakeDeviceControl_def ReleaseDeviceControl_def StealDeviceControl_def ChangeDeviceState_def
      locked_Some_iff and_then_Returns_iff Let_def split: if_splits dest!: change_device_controller)

interpretation rtc_control: device_control fDeviceController TakeDeviceControl ReleaseDeviceControl StealDeviceControl
    "ChangeDeviceState run_to_completion"
  by (rule services_device_control)

lemma transition_event: "\<exists>e. map_of fkDeviceStateTransitionMap t = Some e"
  by (cases t) (simp_all add: fkDeviceStateTransitionMap_def)

lemma device_state_total: "\<exists>d. map_of fkDeviceStateMap s = Some d"
  by (cases s) (simp_all add: fkDeviceStateMap_def)

definition plugin_state :: "State \<Rightarrow> DeviceState" where
  "plugin_state s = the (map_of fkDeviceStateMap s)"

definition transition_of :: "DeviceStateTransition \<Rightarrow> Event" where
  "transition_of t = the (map_of fkDeviceStateTransitionMap t)"

lemma GetCurrentDeviceState_Returns: "GetCurrentDeviceState ps = Returns (plugin_state (GetCurrentState (fDevice ps)))"
  using device_state_total [of "GetCurrentState (fDevice ps)"]
  by (auto simp: GetCurrentDeviceState_def map_at_def plugin_state_def)

lemma plugin_state_inject: "plugin_state s = plugin_state t \<longleftrightarrow> s = t"
  by (cases s; cases t) (simp_all add: plugin_state_def fkDeviceStateMap_def)

lemma plugin_state_InitializingDevice: "plugin_state s = InitializingDevice \<longleftrightarrow> s = INITIALIZING_DEVICE"
  by (cases s) (simp_all add: plugin_state_def fkDeviceStateMap_def)

lemma change_device_ok:
  assumes "msm_backend d" "machine_ok (fDevice ps)"
  shows "\<exists>p. change_device d e ps = Returns (case p of
      Completed m \<Rightarrow> ps\<lparr>fDevice := m\<rparr> | WaitsForWorker m e' i t a \<Rightarrow> ps\<lparr>fDevice := m, inside := Some (e', i, t, a)\<rparr>) \<and>
    progress_ok e (fDevice ps) p"
  using msm_backend.ChangeState_ok [OF assms, of e] by (auto simp: change_device_def)

section \<open>Properties\<close>

text \<open>
  C18: Control of the device is exclusive. While a plugin has it, any sequence of requests by other plugins
  to take control, to release it or to change the state of the device leaves everything as it was:
  each of them blocks or throws \<open>DeviceControlError\<close>.
\<close>

theorem control_is_exclusive:
  assumes "fDeviceController ps = Some c" "c \<notin> fst ` set requests"
  shows "fold (serve (perform TakeDeviceControl ReleaseDeviceControl (ChangeDeviceState d))) requests ps = ps"
  by (rule device_control.others_denied [OF services_device_control assms])

definition idle_services :: "(nat, nat, nat) PluginServices" where
  "idle_services = new_PluginServices sink_config FairMQStateMachine"

theorem control_is_exclusive_witness:
  "fold (serve (perform TakeDeviceControl ReleaseDeviceControl (ChangeDeviceState run_to_completion)))
     [(''pmix'', Take), (''dds'', Act InitDevice), (''pmix'', Release), (''dds'', Take)]
     (idle_services\<lparr>fDeviceController := Some ''control''\<rparr>) = idle_services\<lparr>fDeviceController := Some ''control''\<rparr>"
  by (rule control_is_exclusive [of _ "''control''"]) simp_all



text \<open>
  While a state change waits for the worker, its caller holds the mutex of the device control, and every
  other operation on the control blocks, \<open>StealDeviceControl\<close> included, which is meant for emergencies
  such as a shutdown on a signal. As soon as the worker has finished its work, the change completes,
  with the device in the target state and its invariant restored, the mutex is free and control is
  where it was, so that a waiting \<open>StealDeviceControl\<close> succeeds.
\<close>

theorem waiting_change_blocks_control:
  assumes "inside ps = Some (e, i, t, a)" "in_transition (fDevice ps) e i t a" "fWorkActive (fDevice ps)"
  shows "StealDeviceControl c ps = None \<and> TakeDeviceControl c ps = None \<and> ReleaseDeviceControl c ps = None \<and>
    ChangeDeviceState d c next ps = None \<and> ChangeDeviceState_returns ps = None \<and>
    (\<exists>ps'. ChangeDeviceState_returns (ps\<lparr>fDevice := work_done (fDevice ps)\<rparr>) = Some (Returns ps') \<and>
       machine_ok (fDevice ps') \<and> GetCurrentState (fDevice ps') = t \<and> fDeviceController ps' = fDeviceController ps \<and>
       (\<exists>ps''. StealDeviceControl c ps' = Some (Returns ps'') \<and> fDeviceController ps'' = Some c))"
proof -
  have "in_transition (work_done (fDevice ps)) e i t a"
    using assms(2) by (auto simp: in_transition_def work_done_def machine_defs)
  from finish_transition_ok [OF this] obtain m where
    m: "finish_transition (work_done (fDevice ps)) e i t a = Returns m" "machine_ok m" "fState m = t" by blast
  have "\<not> fWorkActive (work_done (fDevice ps))" by (simp add: work_done_def)
  then show ?thesis using assms m
    by (auto simp: StealDeviceControl_def TakeDeviceControl_def ReleaseDeviceControl_def ChangeDeviceState_def locked_def
        ChangeDeviceState_returns_def GetCurrentState_def)
qed

theorem waiting_change_blocks_control_witness:
  "StealDeviceControl ''signal'' (idle_services\<lparr>fDevice := stopping_machine, inside := Some (STOP, 0, READY, StopFct)\<rparr>) = None"
proof -
  let ?ps = "idle_services\<lparr>fDevice := stopping_machine, inside := Some (STOP, 0, READY, StopFct)\<rparr>"
  have i: "inside ?ps = Some (STOP, 0, READY, StopFct)" by simp
  have t: "in_transition (fDevice ?ps) STOP 0 READY StopFct" "fWorkActive (fDevice ?ps)"
    by (auto simp: in_transition_def stopping_machine_def FairMQStateMachine_def CallStateChangeCallbacks_def
        regions_ok_def device_state_def machine_defs row_def transition_table_def)
  show ?thesis
    using waiting_change_blocks_control [OF i t, of "''signal''" run_to_completion Stop] by blast
qed

text \<open>
  Properties can be set only while the device is initialised. In every other state \<open>SetProperty\<close>
  throws \<open>InvalidStateError\<close>; in \<open>INITIALIZING_DEVICE\<close> a value of the right kind for a member of a
  configured sub-channel is stored, reaches that sub-channel, and can be read back by every plugin.
\<close>

theorem SetProperty_while_initializing:
  assumes "config_agrees (fConfig ps)" "map_of (fFairMQChannelMap (fConfig ps)) n = Some cs" "i < length cs" "settable m v"
  shows "if GetCurrentState (fDevice ps) = INITIALIZING_DEVICE
    then \<exists>ps' c'. SetProperty F (chan_key n i m) v ps = Returns ps' \<and> config_agrees (fConfig ps') \<and>
      channel_update m v (cs ! i) = Returns c' \<and> map_of (fFairMQChannelMap (fConfig ps')) n = Some (cs[i := c']) \<and>
      GetProperty v (chan_key n i m) ps' = Returns v
    else SetProperty F (chan_key n i m) v ps = Throws InvalidStateError"
proof (cases "GetCurrentState (fDevice ps) = INITIALIZING_DEVICE")
  case True
  from SetValue_agrees [OF assms, of F] obtain st' c' where
    s: "SetValue F (chan_key n i m) v (fConfig ps) = Returns st'" "config_agrees st'" "channel_update m v (cs ! i) = Returns c'"
      "fFairMQChannelMap st' = map (\<lambda>(n', ds). (n', if n' = n then ds[i := c'] else ds)) (fFairMQChannelMap (fConfig ps))" by blast
  have "map_of (map (\<lambda>(n', ds). (n', if n' = n then ds[i := c'] else ds)) xs) n = map_option (\<lambda>ds. ds[i := c']) (map_of xs n)" for xs
    by (induction xs) auto
  then have m: "map_of (fFairMQChannelMap st') n = Some (cs[i := c'])" using assms(2) s(4) by simp
  have "lookup_var st' (chan_key n i m) = Some v"
  proof -
    from SetValue_Returns [OF s(1)] obtain st2 where st2: "st' = EmitUpdate F (chan_key n i m) v st2"
      "fVarMap st2 = fVarMap (UpdateVarMap (chan_key n i m) v (fConfig ps))" by blast
    have "sorted_map (fVarMap (fConfig ps))" using assms(1) by (simp add: config_agrees_def)
    from lookup_UpdateVarMap [OF this, of "chan_key n i m" v "chan_key n i m"] show ?thesis
      by (simp add: st2(1) EmitUpdate_def Let_def) (simp add: lookup_var_def st2(2))
  qed
  then show ?thesis using s(1-3) m True
    by (auto simp: SetProperty_def GetCurrentDeviceState_Returns plugin_state_InitializingDevice map_outcome_result_def
        GetProperty_def PropertyExists_def Count_def GetValue_def)
next
  case False
  then show ?thesis by (simp add: SetProperty_def GetCurrentDeviceState_Returns plugin_state_InitializingDevice)
qed

theorem SetProperty_while_initializing_witness:
  "SetProperty plain_printers (chan_key ''data'' 0 ''address'') (VString ''tcp://*:5555'') (idle_services\<lparr>fConfig := one_channel\<rparr>) =
     Throws InvalidStateError"
proof -
  have s: "settable ''address'' (VString ''tcp://*:5555'' :: nat any_value)" by (simp add: settable_def)
  show ?thesis
    using SetProperty_while_initializing [of "idle_services\<lparr>fConfig := one_channel\<rparr>" "''data''" _ 0, OF _ _ _ s, of _ plain_printers]
      one_channel by (simp add: idle_services_def new_PluginServices_def)
qed

text \<open>
  Plugins see every state of the device under its own name, with spaces for underscores. The names of
  states and transitions are converted back to what they name, every state and transition has one,
  and no two states of the device are seen as the same.
\<close>

theorem plugin_state_names:
  "ToStr_DeviceState (plugin_state s) = Returns (map (\<lambda>c. if c = CHR ''_'' then CHR '' '' else c) (fsm_state_Name s)) \<and>
   (plugin_state s = plugin_state s' \<longleftrightarrow> s = s') \<and>
   (ToDeviceState n = Returns ds \<longleftrightarrow> ToStr_DeviceState ds = Returns n) \<and>
   (ToDeviceStateTransition n = Returns dt \<longleftrightarrow> ToStr_DeviceStateTransition dt = Returns n) \<and>
   (\<exists>n. ToStr_DeviceState ds = Returns n) \<and> (\<exists>n. ToStr_DeviceStateTransition dt = Returns n)"
proof (intro conjI)
  have i: "inverse_tables fkDeviceStateStrMap fkStrDeviceStateMap"
    "inverse_tables fkDeviceStateTransitionStrMap fkStrDeviceStateTransitionMap"
    by (simp_all add: inverse_tables_def fkDeviceStateStrMap_def fkStrDeviceStateMap_def
        fkDeviceStateTransitionStrMap_def fkStrDeviceStateTransitionMap_def)
  show "ToDeviceState n = Returns ds \<longleftrightarrow> ToStr_DeviceState ds = Returns n"
    using inverse_tables_iff [OF i(1)] by (simp add: ToDeviceState_def ToStr_DeviceState_def outcome_simps)
  show "ToDeviceStateTransition n = Returns dt \<longleftrightarrow> ToStr_DeviceStateTransition dt = Returns n"
    using inverse_tables_iff [OF i(2)] by (simp add: ToDeviceStateTransition_def ToStr_DeviceStateTransition_def outcome_simps)
  show "ToStr_DeviceState (plugin_state s) = Returns (map (\<lambda>c. if c = CHR ''_'' then CHR '' '' else c) (fsm_state_Name s))"
    by (cases s) (simp_all add: plugin_state_def fkDeviceStateMap_def ToStr_DeviceState_def fkStrDeviceStateMap_def map_at_def)
  show "\<exists>n. ToStr_DeviceState ds = Returns n"
    by (cases ds) (simp_all add: ToStr_DeviceState_def fkStrDeviceStateMap_def map_at_def)
  show "\<exists>n. ToStr_DeviceStateTransition dt = Returns n"
    by (cases dt) (simp_all add: ToStr_DeviceStateTransition_def fkStrDeviceStateTransitionMap_def map_at_def)
qed (rule plugin_state_inject)

end
