(* ===== verification/Control_Plugin.thy ===== *)
theory Control_Plugin
  imports Device_Worker Plugin_Services
begin

text \<open>
  The plugin that drives a device through its states, \<open>fairmq/plugins/Control.{h,cxx}\<close>, together with the device
  it drives: the system of the theory \<open>Device_Worker\<close>, whose callbacks fill the plugin's queue of states. The
  plugin has a controller thread (\<open>StaticMode\<close> or \<open>InteractiveMode\<close>) and a thread that waits for signals
  (\<open>SignalHandler\<close>). The system is a step relation; a step of the plugin is one access to what the threads
  share: the queue, the flags, the state of the device, the services. The number of the connection by
  which the plugin hears of state changes is the parameter \<open>c\<close>. Terminal settings, log messages and the
  second signal, which aborts the process, are not modelled.
\<close>

section \<open>The plugin\<close>

text \<open>
  Where the thread that controls is: at a call of \<open>ChangeDeviceState\<close> or in a loop around \<open>WaitForNextState\<close> of
  \<open>RunStartupSequence\<close>; in the wait of \<open>StaticMode\<close>; at the top of the loop of \<open>InteractiveMode\<close> or behind
  its \<open>switch\<close>; in \<open>RunShutdownSequence\<close> before it asks for the state, before it empties the queue, at the top of
  its loop, in \<open>WaitForNextState\<close>; inside \<open>ChangeDeviceState\<close> and about to go on elsewhere; having left by an
  exception that was caught; having taken the front of an empty queue.
\<close>

datatype control_at =
    Start_asks nat
  | Start_waits nat
  | Static
  | Interactive
  | Checks bool
  | Shutdown_begins
  | Shutdown_knows DeviceState
  | Shutdown_decides DeviceState
  | Shutdown_waits
  | Inside control_at
  | Finished
  | Gave_up
  | Front_of_empty
  | No_controller

datatype handler_at = Polls | Joins | Took_over

record control_system =
  device :: device_system
  fEvents :: "DeviceState list"
  owner :: "string option"
  fDeviceShutdownRequested :: bool
  fDeviceHasShutdown :: bool
  interactive :: bool
  control_at :: control_at
  handler_at :: handler_at

datatype actor = Worker | Failure | Controller | Key char | No_key | Signal | Other string

text \<open>The callback of the plugin puts the state that a step of the device announces into the queue.\<close>

definition heard :: "nat \<Rightarrow> device_system \<Rightarrow> device_system \<Rightarrow> DeviceState list" where
  "heard c dev dev' =
     map (\<lambda>(_, st). plugin_state st)
       (filter (\<lambda>(k, _). k = c) (drop (length (signalled (machine dev))) (signalled (machine dev'))))"

definition moved :: "nat \<Rightarrow> device_system \<Rightarrow> control_system \<Rightarrow> control_system" where
  "moved c dev' s = s\<lparr>device := dev', fEvents := fEvents s @ heard c (device s) dev'\<rparr>"

fun startup_transition :: "nat \<Rightarrow> DeviceStateTransition" where
  "startup_transition 0 = InitDevice"
| "startup_transition (Suc 0) = InitTask"
| "startup_transition (Suc (Suc _)) = DeviceStateTransition.Run"

fun startup_goal :: "nat \<Rightarrow> DeviceState" where
  "startup_goal 0 = DeviceReady"
| "startup_goal (Suc 0) = Ready"
| "startup_goal (Suc (Suc _)) = Running"

definition after_startup :: "nat \<Rightarrow> DeviceState \<Rightarrow> control_system \<Rightarrow> control_at" where
  "after_startup k x s =
     (if x \<noteq> startup_goal k then Start_waits k
      else if k < 2 then Start_asks (Suc k)
      else if interactive s then Interactive else Static)"

fun shutdown_transition :: "DeviceState \<Rightarrow> DeviceStateTransition option" where
  "shutdown_transition Idle = Some End"
| "shutdown_transition DeviceReady = Some ResetDevice"
| "shutdown_transition Ready = Some ResetTask"
| "shutdown_transition Running = Some Stop"
| "shutdown_transition Paused = Some DeviceStateTransition.Resume"
| "shutdown_transition _ = None"

definition interactive_transition :: "char \<Rightarrow> DeviceStateTransition option" where
  "interactive_transition k = map_of
     [(CHR ''i'', InitDevice), (CHR ''j'', InitTask), (CHR ''p'', Pause), (CHR ''r'', DeviceStateTransition.Run),
      (CHR ''s'', Stop), (CHR ''t'', ResetTask), (CHR ''d'', ResetDevice)] k"

text \<open>
  The constructor: the callback is installed, control of the device is taken unless another plugin has it, and
  the controller starts in the mode that the configuration names.
\<close>

definition new_Control :: "string \<Rightarrow> (nat list \<Rightarrow> nat) \<Rightarrow> string option \<Rightarrow> device_system \<Rightarrow> control_system" where
  "new_Control control fresh controller dev =
     \<lparr>device = dev\<lparr>machine := SubscribeToStateChange fresh ''control'' (machine dev)\<rparr>, fEvents = [],
      owner = (if controller = None then Some ''control'' else controller),
      fDeviceShutdownRequested = False, fDeviceHasShutdown = False,
      interactive = (control = ''interactive''),
      control_at = (if controller = None \<or> controller = Some ''control'' then Start_asks 0 else No_controller),
      handler_at = Polls\<rparr>"

text \<open>A call of \<open>ChangeDeviceState\<close> after which the thread goes on at \<open>q\<close>.\<close>

inductive asks ::
    "(State list \<Rightarrow> Event \<Rightarrow> nat option) \<Rightarrow> nat \<Rightarrow> DeviceStateTransition \<Rightarrow> control_at \<Rightarrow> control_system \<Rightarrow> control_system \<Rightarrow> bool"
  for d c t q where
  denied: "\<lbrakk>owner s = Some p; p \<noteq> ''control''\<rbrakk> \<Longrightarrow> asks d c t q s (s\<lparr>control_at := Gave_up\<rparr>)"
| granted: "\<lbrakk>owner s = None \<or> owner s = Some ''control''; step d (device s) (Request (transition_of t)) dev'\<rbrakk> \<Longrightarrow>
    asks d c t q s ((moved c dev' s)\<lparr>owner := Some ''control'', control_at := (if held dev' = None then q else Inside q)\<rparr>)"

inductive control_step ::
    "(State list \<Rightarrow> Event \<Rightarrow> nat option) \<Rightarrow> nat \<Rightarrow> control_system \<Rightarrow> actor \<Rightarrow> control_system \<Rightarrow> bool"
  for d c where
  works: "step d (device s) Work dev' \<Longrightarrow> control_step d c s Worker (moved c dev' s)"
| fails: "step d (device s) Fail dev' \<Longrightarrow> control_step d c s Failure (moved c dev' s)"
| returns: "\<lbrakk>control_at s = Inside q; step d (device s) label.Resume dev'\<rbrakk> \<Longrightarrow>
    control_step d c s Controller ((moved c dev' s)\<lparr>control_at := q\<rparr>)"
| start_asks: "\<lbrakk>control_at s = Start_asks k; asks d c (startup_transition k) (Start_waits k) s s'\<rbrakk> \<Longrightarrow>
    control_step d c s Controller s'"
| start_hears: "\<lbrakk>control_at s = Start_waits k; fEvents s = x # xs; x \<noteq> DeviceState.Error\<rbrakk> \<Longrightarrow>
    control_step d c s Controller (s\<lparr>fEvents := xs, control_at := after_startup k x s\<rparr>)"
| start_hears_error: "\<lbrakk>control_at s = Start_waits k; fEvents s = DeviceState.Error # xs\<rbrakk> \<Longrightarrow>
    control_step d c s Controller (s\<lparr>control_at := Gave_up\<rparr>)"
| static_hears: "\<lbrakk>control_at s = Static; fEvents s = x # xs\<rbrakk> \<Longrightarrow>
    control_step d c s Controller (s\<lparr>control_at := (if x = DeviceState.Error then Gave_up else Shutdown_begins)\<rparr>)"
| static_signalled: "\<lbrakk>control_at s = Static; fEvents s = []; fDeviceShutdownRequested s\<rbrakk> \<Longrightarrow>
    control_step d c s Controller (s\<lparr>control_at := Front_of_empty\<rparr>)"
| key_late: "\<lbrakk>control_at s = Interactive; fDeviceShutdownRequested s\<rbrakk> \<Longrightarrow>
    control_step d c s (Key k) (s\<lparr>control_at := Shutdown_begins\<rparr>)"
| key_asks: "\<lbrakk>control_at s = Interactive; \<not> fDeviceShutdownRequested s; interactive_transition k = Some t;
    asks d c t (Checks True) s s'\<rbrakk> \<Longrightarrow> control_step d c s (Key k) s'"
| key_other: "\<lbrakk>control_at s = Interactive; \<not> fDeviceShutdownRequested s; interactive_transition k = None\<rbrakk> \<Longrightarrow>
    control_step d c s (Key k) (s\<lparr>control_at := Checks (k \<noteq> CHR ''q'')\<rparr>)"
| no_key: "control_at s = Interactive \<Longrightarrow> control_step d c s No_key (s\<lparr>control_at := Checks True\<rparr>)"
| checks: "control_at s = Checks keepRunning \<Longrightarrow>
    control_step d c s Controller (s\<lparr>control_at :=
      (if plugin_state (GetCurrentState (machine (device s))) = DeviceState.Error then Gave_up
       else if fDeviceShutdownRequested s \<or> \<not> keepRunning then Shutdown_begins
       else Interactive)\<rparr>)"
| begins: "control_at s = Shutdown_begins \<Longrightarrow>
    control_step d c s Controller (s\<lparr>control_at := Shutdown_knows (plugin_state (GetCurrentState (machine (device s))))\<rparr>)"
| empties: "control_at s = Shutdown_knows x \<Longrightarrow>
    control_step d c s Controller (s\<lparr>fEvents := [], control_at := Shutdown_decides x\<rparr>)"
| decides: "\<lbrakk>control_at s = Shutdown_decides x; shutdown_transition x = Some t; asks d c t Shutdown_waits s s'\<rbrakk> \<Longrightarrow>
    control_step d c s Controller s'"
| passes_by: "\<lbrakk>control_at s = Shutdown_decides x; x \<noteq> Exiting; x \<noteq> DeviceState.Error; shutdown_transition x = None\<rbrakk> \<Longrightarrow>
    control_step d c s Controller (s\<lparr>control_at := Shutdown_waits\<rparr>)"
| ends: "\<lbrakk>control_at s = Shutdown_decides x; x = Exiting \<or> x = DeviceState.Error\<rbrakk> \<Longrightarrow>
    control_step d c s Controller
      (if owner s = Some ''control'' then s\<lparr>fDeviceHasShutdown := True, owner := None, control_at := Finished\<rparr>
       else s\<lparr>fDeviceHasShutdown := True, control_at := Gave_up\<rparr>)"
| hears: "\<lbrakk>control_at s = Shutdown_waits; fEvents s = x # xs; x \<noteq> DeviceState.Error\<rbrakk> \<Longrightarrow>
    control_step d c s Controller (s\<lparr>fEvents := xs, control_at := Shutdown_decides x\<rparr>)"
| hears_error: "\<lbrakk>control_at s = Shutdown_waits; fEvents s = DeviceState.Error # xs\<rbrakk> \<Longrightarrow>
    control_step d c s Controller (s\<lparr>control_at := Gave_up\<rparr>)"
| signal: "handler_at s = Polls \<Longrightarrow>
    control_step d c s Signal (s\<lparr>fDeviceShutdownRequested := True, handler_at := Joins\<rparr>)"
| joins_done: "\<lbrakk>handler_at s = Joins; control_at s \<in> {Finished, Gave_up, No_controller}; fDeviceHasShutdown s\<rbrakk> \<Longrightarrow>
    control_step d c s Signal (s\<lparr>handler_at := Took_over\<rparr>)"
| joins: "\<lbrakk>handler_at s = Joins; control_at s \<in> {Finished, Gave_up, No_controller}; \<not> fDeviceHasShutdown s\<rbrakk> \<Longrightarrow>
    control_step d c s Signal (s\<lparr>owner := Some ''control'', control_at := Shutdown_begins, handler_at := Took_over\<rparr>)"
| other_takes: "\<lbrakk>\<nexists>q. control_at s = Inside q\<rbrakk> \<Longrightarrow> control_step d c s (Other p) (s\<lparr>owner := Some p\<rparr>)"
| other_asks: "\<lbrakk>\<nexists>q. control_at s = Inside q; owner s = Some p; step d (device s) (Request (transition_of t)) dev'\<rbrakk> \<Longrightarrow>
    control_step d c s (Other p) (moved c dev' s)"
| other_returns: "\<lbrakk>\<nexists>q. control_at s = Inside q; step d (device s) label.Resume dev'\<rbrakk> \<Longrightarrow>
    control_step d c s (Other p) (moved c dev' s)"

inductive_cases asks_cases: "asks d c t q s s'"

section \<open>One pass of the worker\<close>

text \<open>
  A device that no request is inside of, with the state, the place of the worker and the work that is posted or
  under way; \<open>c\<close> is connected.
\<close>

definition dev_at :: "nat \<Rightarrow> State \<Rightarrow> worker \<Rightarrow> handler option \<Rightarrow> device_system \<Rightarrow> bool" where
  "dev_at c st w h dev \<longleftrightarrow>
     held dev = None \<and> machine_ok (machine dev) \<and> regions (machine dev) = [st, OK] \<and> worker_at dev = w \<and>
     fWorkActive (machine dev) = busy w \<and> fWorkAvailable (machine dev) = (h \<noteq> None) \<and>
     (h \<noteq> None \<longrightarrow> fWork (machine dev) = h) \<and> \<not> fWorkerTerminated (machine dev) \<and>
     c \<in> set (fStateChangeSignal (machine dev))"

lemma machine_ok_frame:
  assumes "machine_ok m" "regions m' = regions m" "fState m' = fState m" "work_ok m'"
    and "fStateChangeSignal m' = fStateChangeSignal m" "fStateChangeSignalsMap m' = fStateChangeSignalsMap m"
  shows "machine_ok m'"
  using same_control_ok(1) [of m m'] assms by (simp add: same_control_def)

lemma filter_slot:
  assumes "distinct cs" "c \<in> set cs"
  shows "filter (\<lambda>(k, _). k = c) (map (\<lambda>k. (k, st)) cs) = [(c, st)]"
  using assms
proof (induction cs)
  case (Cons k cs)
  show ?case
  proof (cases "k = c")
    case True
    then have "filter (\<lambda>(k, _). k = c) (map (\<lambda>k. (k, st)) cs) = []" using Cons.prems(1) by (auto simp: filter_empty_conv)
    then show ?thesis using True by simp
  next
    case False
    then show ?thesis using Cons by simp
  qed
qed simp

lemma heard_nothing: "signalled (machine dev') = signalled (machine dev) \<Longrightarrow> heard c dev dev' = []"
  by (simp add: heard_def)

lemma heard_callbacks:
  assumes "machine_ok m" "c \<in> set (fStateChangeSignal m)"
    and "signalled (machine dev') = signalled m @ map (\<lambda>k. (k, st)) (fStateChangeSignal m)" "signalled (machine dev) = signalled m"
  shows "heard c dev dev' = [plugin_state st]"
  using assms filter_slot [of "fStateChangeSignal m" c st] by (simp add: heard_def machine_ok_def slots_ok_def)

lemma dev_at_takes:
  assumes "dev_at c st Waiting (Some h) dev"
  shows "step d dev Work dev' \<longleftrightarrow> dev' = dev\<lparr>machine := (machine dev)\<lparr>fWorkActive := True\<rparr>, worker_at := Starting h\<rparr>" (is "_ \<longleftrightarrow> dev' = ?dev")
proof
  show "step d dev Work dev' \<Longrightarrow> dev' = ?dev" using assms by (elim step_Work) (auto simp: dev_at_def worker_takes_def worker_leaves_def)
qed (use assms step.take_work in \<open>simp add: dev_at_def worker_takes_def worker_leaves_def\<close>)

lemma dev_at_announces:
  assumes "dev_at c st (Starting h) g dev"
  shows "step d dev Work dev' \<longleftrightarrow> dev' = dev\<lparr>machine := CallStateChangeCallbacks (announced h) (machine dev), worker_at := Working h\<rparr>" (is "_ \<longleftrightarrow> dev' = ?dev")
proof
  show "step d dev Work dev' \<Longrightarrow> dev' = ?dev" using assms by (elim step_Work) (auto simp: dev_at_def)
qed (use assms step.announce in \<open>simp add: dev_at_def\<close>)

lemma dev_at_ends:
  assumes "dev_at c st Ending g dev"
  shows "step d dev Work dev' \<longleftrightarrow> dev' = dev\<lparr>machine := work_done (machine dev), worker_at := Notifying\<rparr>" (is "_ \<longleftrightarrow> dev' = ?dev")
proof
  show "step d dev Work dev' \<Longrightarrow> dev' = ?dev" using assms by (elim step_Work) (auto simp: dev_at_def)
qed (use assms step.end_work in \<open>simp add: dev_at_def\<close>)

lemma dev_at_notifies:
  assumes "dev_at c st Notifying g dev"
  shows "step d dev Work dev' \<longleftrightarrow> dev' = dev\<lparr>machine := CallStateChangeCallbacks (fState (machine dev)) (machine dev), worker_at := Waiting\<rparr>" (is "_ \<longleftrightarrow> dev' = ?dev")
proof
  show "step d dev Work dev' \<Longrightarrow> dev' = ?dev" using assms by (elim step_Work) (auto simp: dev_at_def)
qed (use assms step.notify in \<open>simp add: dev_at_def\<close>)

lemma request_iff:
  assumes "held dev = None" "\<not> internal_event e" "process_event d e (machine dev) = Returns (Completed m)"
  shows "step d dev (Request e) dev' \<longleftrightarrow> dev' = dev\<lparr>machine := m\<rparr>"
proof
  show "step d dev (Request e) dev' \<Longrightarrow> dev' = dev\<lparr>machine := m\<rparr>" using assms by (elim step_Request) auto
qed (use step.request [OF assms] in simp)

lemma dev_at_idles: "dev_at c st Waiting None dev \<Longrightarrow> \<not> step d dev Work dev'"
  by (auto simp: dev_at_def worker_takes_def worker_leaves_def elim!: step_Work)

lemma dev_at_fState: "dev_at c st w g dev \<Longrightarrow> fState (machine dev) = st"
  by (auto simp: dev_at_def machine_ok_def regions_ok_def shown_state_def)

context msm_backend
begin

lemma dev_at_closes:
  assumes "dev_at c t (Working h) (Some h) dev" "closing_event h = Some e" "row t e = Some (u, AutomaticFct)"
  shows "step dispatch dev Work dev' \<longleftrightarrow>
    dev' = dev\<lparr>machine := (machine dev)\<lparr>fState := u, regions := [u, OK]\<rparr>, worker_at := Ending\<rparr>"
proof -
  have p: "process_event dispatch e (machine dev) = Returns (Completed ((machine dev)\<lparr>fState := u, regions := [u, OK]\<rparr>))"
    using process_event_device [OF _ _ assms(3), of "machine dev"] assms(1)
    by (simp add: dev_at_def finish_transition_def map_outcome_result_def)
  have "h \<noteq> RunWrapper" "h \<noteq> PauseWrapper" using assms(2) by auto
  then have "step dispatch dev Work dev' \<Longrightarrow> dev' = dev\<lparr>machine := (machine dev)\<lparr>fState := u, regions := [u, OK]\<rparr>, worker_at := Ending\<rparr>"
    using assms(1,2) p by (elim step_Work) (auto simp: dev_at_def)
  moreover have "step dispatch dev Work (dev\<lparr>machine := (machine dev)\<lparr>fState := u, regions := [u, OK]\<rparr>, worker_at := Ending\<rparr>)"
    using step.close [OF _ assms(2) _ p] assms(1) by (simp add: dev_at_def)
  ultimately show ?thesis by blast
qed

lemma dev_at_posts:
  assumes "dev_at c st Waiting None dev" "row st e = Some (t, DefaultFct)" "installed_handlers e = Some h" "\<not> internal_event e"
  shows "step dispatch dev (Request e) dev' \<longleftrightarrow>
    dev' = dev\<lparr>machine := (machine dev)\<lparr>fState := t, fWorkAvailable := True, fWork := Some h, regions := [t, OK]\<rparr>\<rparr>"
proof -
  have "map_at (fStateHandlers (machine dev)) e = Returns h" using assms(1,3) by (simp add: dev_at_def machine_defs map_at_def)
  then have p: "process_event dispatch e (machine dev) =
      Returns (Completed ((machine dev)\<lparr>fState := t, fWorkAvailable := True, fWork := Some h, regions := [t, OK]\<rparr>))"
    using process_event_device [OF _ _ assms(2), of "machine dev"] assms(1)
    by (simp add: dev_at_def finish_transition_def map_outcome_result_def)
  show ?thesis using request_iff [OF _ assms(4) p] assms(1) by (simp add: dev_at_def)
qed

lemma dev_at_exits:
  assumes "dev_at c IDLE Waiting None dev"
  shows "step dispatch dev (Request END) dev' \<longleftrightarrow>
    dev' = dev\<lparr>machine := (CallStateChangeCallbacks EXITING ((machine dev)\<lparr>fState := EXITING\<rparr>))
      \<lparr>fWorkerTerminated := True, called := called (machine dev) @ [Exit], regions := [EXITING, OK]\<rparr>\<rparr>"
proof -
  have "map_at (fStateHandlers (machine dev)) END = Returns Exit"
    using assms by (simp add: dev_at_def machine_defs map_at_def installed_handlers_def)
  moreover have "row IDLE END = Some (EXITING, ExitingFct)" by (simp add: row_def transition_table_def)
  ultimately have p: "process_event dispatch END (machine dev) =
      Returns (Completed ((CallStateChangeCallbacks EXITING ((machine dev)\<lparr>fState := EXITING\<rparr>))
        \<lparr>fWorkerTerminated := True, called := called (machine dev) @ [Exit], regions := [EXITING, OK]\<rparr>))"
    using process_event_device [of "machine dev" IDLE END EXITING ExitingFct] assms
    by (simp add: dev_at_def finish_transition_def map_outcome_result_def)
  show ?thesis using request_iff [OF _ _ p] assms by (simp add: dev_at_def internal_event_def)
qed

end

text \<open>
  The places of a pass of the worker through the handler \<open>h\<close>, from the moment that its work is posted in state \<open>t\<close>
  until it waits again in state \<open>u\<close>; the states that are still to be announced; the steps that the worker
  still takes.
\<close>

datatype pass = Posted | Begun | At_work | Checking | Closed | Telling | Over

fun pass_at :: "nat \<Rightarrow> State \<Rightarrow> handler \<Rightarrow> State \<Rightarrow> pass \<Rightarrow> device_system \<Rightarrow> bool" where
  "pass_at c t h u Posted dev = dev_at c t Waiting (Some h) dev"
| "pass_at c t h u Begun dev = dev_at c t (Starting h) (Some h) dev"
| "pass_at c t h u At_work dev = dev_at c t (Working h) (Some h) dev"
| "pass_at c t h u Checking dev = (h = RunWrapper \<and> dev_at c t Checked (Some h) dev)"
| "pass_at c t h u Closed dev = dev_at c u Ending (Some h) dev"
| "pass_at c t h u Telling dev = dev_at c u Notifying None dev"
| "pass_at c t h u Over dev = dev_at c u Waiting None dev"

fun to_come :: "State \<Rightarrow> State \<Rightarrow> pass \<Rightarrow> DeviceState list" where
  "to_come t u Posted = [plugin_state t, plugin_state u]"
| "to_come t u Begun = [plugin_state t, plugin_state u]"
| "to_come t u At_work = [plugin_state u]"
| "to_come t u Checking = [plugin_state u]"
| "to_come t u Closed = [plugin_state u]"
| "to_come t u Telling = [plugin_state u]"
| "to_come t u Over = []"

fun pass_left :: "handler \<Rightarrow> pass \<Rightarrow> nat" where
  "pass_left h Posted = (if h = RunWrapper then 6 else 5)"
| "pass_left h Begun = (if h = RunWrapper then 5 else 4)"
| "pass_left h At_work = (if h = RunWrapper then 4 else 3)"
| "pass_left h Checking = 3"
| "pass_left h Closed = 2"
| "pass_left h Telling = 1"
| "pass_left h Over = 0"

fun next_pass :: "handler \<Rightarrow> pass \<Rightarrow> pass" where
  "next_pass h Posted = Begun"
| "next_pass h Begun = At_work"
| "next_pass h At_work = (if h = RunWrapper then Checking else Closed)"
| "next_pass h Checking = Closed"
| "next_pass h Closed = Telling"
| "next_pass h Telling = Over"
| "next_pass h Over = Over"

lemma pass_left_next: "p \<noteq> Over \<Longrightarrow> pass_left h p = Suc (pass_left h (next_pass h p))"
  by (cases p) simp_all

text \<open>The passes that end by themselves: those of the four passing states, and a run.\<close>

definition self_ending :: "State \<Rightarrow> handler \<Rightarrow> State \<Rightarrow> bool" where
  "self_ending t h u \<longleftrightarrow>
     t = announced h \<and>
     (if h = RunWrapper then t = RUNNING \<and> u = READY
      else \<exists>e. closing_event h = Some e \<and> row t e = Some (u, AutomaticFct))"

lemma dev_at_begun:
  "dev_at c st Waiting (Some h) dev \<Longrightarrow> dev_at c st (Starting h) (Some h) (dev\<lparr>machine := (machine dev)\<lparr>fWorkActive := True\<rparr>, worker_at := Starting h\<rparr>)"
  by (auto simp: dev_at_def machine_defs)

lemma machine_ok_callbacks [simp]: "machine_ok (CallStateChangeCallbacks x m) = machine_ok m"
  by (simp add: machine_defs)

lemma dev_at_callbacks:
  assumes "dev_at c st w g dev" "busy w' = busy w"
  shows "dev_at c st w' g (dev\<lparr>machine := CallStateChangeCallbacks x (machine dev), worker_at := w'\<rparr>)"
    and "heard c dev (dev\<lparr>machine := CallStateChangeCallbacks x (machine dev), worker_at := w'\<rparr>) = [plugin_state x]"
proof -
  show "dev_at c st w' g (dev\<lparr>machine := CallStateChangeCallbacks x (machine dev), worker_at := w'\<rparr>)"
    using assms by (simp add: dev_at_def)
  show "heard c dev (dev\<lparr>machine := CallStateChangeCallbacks x (machine dev), worker_at := w'\<rparr>) = [plugin_state x]"
    using assms by (intro heard_callbacks [of "machine dev"]) (simp_all add: dev_at_def)
qed

lemma dev_at_moved:
  assumes "dev_at c t w (Some h) dev" "device_state u" "busy w" "busy w'"
  shows "dev_at c u w' (Some h) (dev\<lparr>machine := (machine dev)\<lparr>fState := u, regions := [u, OK]\<rparr>, worker_at := w'\<rparr>)"
  using assms by (auto simp: dev_at_def machine_defs regions_ok_def shown_state_def)

lemma dev_at_unblocked:
  "dev_at c t w g (dev\<lparr>machine := m\<lparr>fUnblocked := b\<rparr>, worker_at := w'\<rparr>) = dev_at c t w g (dev\<lparr>machine := m, worker_at := w'\<rparr>)"
  by (simp add: dev_at_def machine_defs)

lemma dev_at_done:
  "dev_at c st Ending (Some h) dev \<Longrightarrow> dev_at c st Notifying None (dev\<lparr>machine := work_done (machine dev), worker_at := Notifying\<rparr>)"
  by (auto simp: dev_at_def machine_defs work_done_def)

lemma dev_at_device_state: "dev_at c st w g dev \<Longrightarrow> device_state st"
  by (auto simp: dev_at_def machine_ok_def regions_ok_def)

lemma dev_at_checks:
  assumes "dev_at c RUNNING (Working RunWrapper) g dev"
  shows "step d dev Work dev' \<longleftrightarrow> dev' = dev\<lparr>worker_at := Checked\<rparr>"
proof -
  have r: "CheckCurrentState RUNNING (machine dev)" using dev_at_fState [OF assms] by (simp add: CheckCurrentState_def)
  have w: "worker_at dev = Working RunWrapper" using assms by (simp add: dev_at_def)
  have "step d dev Work dev' \<Longrightarrow> dev' = dev\<lparr>worker_at := Checked\<rparr>" using r w by (elim step_Work) auto
  then show ?thesis using step.run_still_running [OF w r] by blast
qed

context msm_backend
begin

lemma dev_at_run_closes:
  assumes "dev_at c RUNNING Checked (Some RunWrapper) dev"
  shows "step dispatch dev Work dev' \<longleftrightarrow>
    dev' = dev\<lparr>machine := (machine dev)\<lparr>fState := READY, regions := [READY, OK], fUnblocked := True\<rparr>, worker_at := Ending\<rparr>"
proof -
  have "row RUNNING internal_READY = Some (READY, InternalStopFct)" by (simp add: row_def transition_table_def)
  then have p: "process_event dispatch internal_READY (machine dev) =
      Returns (Completed ((machine dev)\<lparr>fState := READY, regions := [READY, OK], fUnblocked := True\<rparr>))"
    using process_event_device [of "machine dev" RUNNING internal_READY READY InternalStopFct] assms
    by (simp add: dev_at_def finish_transition_def map_outcome_result_def)
  have w: "worker_at dev = Checked" "held dev = None" using assms by (simp_all add: dev_at_def)
  have "step dispatch dev Work dev' \<Longrightarrow> dev' = dev\<lparr>machine := (machine dev)\<lparr>fState := READY, regions := [READY, OK], fUnblocked := True\<rparr>, worker_at := Ending\<rparr>"
    using w p by (elim step_Work) auto
  then show ?thesis using step.run_close [OF w p] by blast
qed

lemma pass_worker:
  assumes s: "self_ending t h u" and p: "pass_at c t h u p dev" "p \<noteq> Over"
  shows "\<exists>dev1. (\<forall>dev'. step dispatch dev Work dev' \<longleftrightarrow> dev' = dev1) \<and> pass_at c t h u (next_pass h p) dev1 \<and>
    to_come t u p = heard c dev dev1 @ to_come t u (next_pass h p)"
proof (cases p)
  case Posted
  then have "dev_at c t Waiting (Some h) dev" using p(1) by simp
  note n = dev_at_takes [OF this] dev_at_begun [OF this]
  show ?thesis by (intro exI conjI allI) (rule n(1), use n(2) in \<open>simp_all add: Posted heard_nothing\<close>)
next
  case Begun
  then have "dev_at c t (Starting h) (Some h) dev" using p(1) by simp
  note n = dev_at_announces [OF this] dev_at_callbacks [OF this, of "Working h" "announced h"]
  show ?thesis using s by (intro exI conjI allI) (rule n(1), use n(2,3) in \<open>simp_all add: Begun self_ending_def\<close>)
next
  case At_work
  then have d: "dev_at c t (Working h) (Some h) dev" using p(1) by simp
  show ?thesis
  proof (cases "h = RunWrapper")
    case True
    then have r: "dev_at c RUNNING (Working RunWrapper) (Some RunWrapper) dev" "t = RUNNING" using d s by (simp_all add: self_ending_def)
    then show ?thesis using dev_at_checks [OF r(1)]
      by (intro exI [of _ "dev\<lparr>worker_at := Checked\<rparr>"]) (simp add: At_work True heard_nothing dev_at_def)
  next
    case False
    then obtain e where e: "closing_event h = Some e" "row t e = Some (u, AutomaticFct)" using s by (auto simp: self_ending_def)
    have "device_state u" using row_device [OF dev_at_device_state [OF d] e(2)] by simp
    then have m: "dev_at c u Ending (Some h) (dev\<lparr>machine := (machine dev)\<lparr>fState := u, regions := [u, OK]\<rparr>, worker_at := Ending\<rparr>)"
      using dev_at_moved [OF d] by simp
    show ?thesis
      by (intro exI conjI allI) (rule dev_at_closes [OF d e], use m in \<open>simp_all add: At_work False heard_nothing\<close>)
  qed
next
  case Checking
  then have d: "h = RunWrapper" "t = RUNNING" "u = READY" "dev_at c RUNNING Checked (Some RunWrapper) dev"
    using p(1) s by (auto simp: self_ending_def)
  have "dev_at c READY Ending (Some RunWrapper) (dev\<lparr>machine := (machine dev)\<lparr>fState := READY, regions := [READY, OK]\<rparr>, worker_at := Ending\<rparr>)"
    using dev_at_moved [OF d(4), of READY] by (simp add: device_state_def)
  then have m: "dev_at c READY Ending (Some RunWrapper)
      (dev\<lparr>machine := (machine dev)\<lparr>fState := READY, regions := [READY, OK], fUnblocked := True\<rparr>, worker_at := Ending\<rparr>)"
    by (simp add: dev_at_unblocked)
  show ?thesis
    by (intro exI conjI allI) (rule dev_at_run_closes [OF d(4)], use m in \<open>simp_all add: Checking d heard_nothing\<close>)
next
  case Closed
  then have "dev_at c u Ending (Some h) dev" using p(1) by simp
  note n = dev_at_ends [OF this] dev_at_done [OF this]
  show ?thesis by (intro exI conjI allI) (rule n(1), use n(2) in \<open>simp_all add: Closed heard_nothing work_done_def\<close>)
next
  case Telling
  then have d: "dev_at c u Notifying None dev" using p(1) by simp
  note n = dev_at_notifies [OF d] dev_at_callbacks [OF d, of Waiting "fState (machine dev)"]
  show ?thesis using dev_at_fState [OF d] by (intro exI conjI allI) (rule n(1), use n(2,3) in \<open>simp_all add: Telling\<close>)
next
  case Over
  then show ?thesis using p(2) by simp
qed

end

section \<open>What the controller does next\<close>

inductive_cases control_step_Worker: "control_step d c s Worker s'"
inductive_cases control_step_Controller: "control_step d c s Controller s'"

lemma works_iff: "control_step d c s Worker s' \<longleftrightarrow> (\<exists>dev'. step d (device s) Work dev' \<and> s' = moved c dev' s)"
  by (auto elim: control_step_Worker intro: control_step.works)

lemma start_asks_iff:
  "control_at s = Start_asks k \<Longrightarrow> control_step d c s Controller s' \<longleftrightarrow> asks d c (startup_transition k) (Start_waits k) s s'"
  by (auto elim: control_step_Controller intro: control_step.start_asks)

lemma decides_iff:
  assumes "control_at s = Shutdown_decides x" "shutdown_transition x = Some t"
  shows "control_step d c s Controller s' \<longleftrightarrow> asks d c t Shutdown_waits s s'"
proof
  show "control_step d c s Controller s' \<Longrightarrow> asks d c t Shutdown_waits s s'" using assms by (elim control_step_Controller) auto
qed (rule control_step.decides [OF assms])

lemma passes_by_iff:
  assumes "control_at s = Shutdown_decides x" "shutdown_transition x = None" "x \<noteq> Exiting" "x \<noteq> DeviceState.Error"
  shows "control_step d c s Controller s' \<longleftrightarrow> s' = s\<lparr>control_at := Shutdown_waits\<rparr>"
proof
  show "control_step d c s Controller s' \<Longrightarrow> s' = s\<lparr>control_at := Shutdown_waits\<rparr>" using assms by (elim control_step_Controller) auto
qed (use control_step.passes_by [OF assms(1,3,4,2)] in simp)

lemma ends_iff:
  assumes "control_at s = Shutdown_decides Exiting" "owner s = Some ''control''"
  shows "control_step d c s Controller s' \<longleftrightarrow> s' = s\<lparr>fDeviceHasShutdown := True, owner := None, control_at := Finished\<rparr>"
proof
  show "control_step d c s Controller s' \<Longrightarrow> s' = s\<lparr>fDeviceHasShutdown := True, owner := None, control_at := Finished\<rparr>"
    using assms by (elim control_step_Controller) auto
qed (use control_step.ends [OF assms(1), of d c] assms(2) in simp)

lemma hears_iff:
  assumes "control_at s = Shutdown_waits" "DeviceState.Error \<notin> set (fEvents s)"
  shows "control_step d c s Controller s' \<longleftrightarrow>
    (\<exists>x xs. fEvents s = x # xs \<and> s' = s\<lparr>fEvents := xs, control_at := Shutdown_decides x\<rparr>)"
proof
  show "control_step d c s Controller s' \<Longrightarrow> \<exists>x xs. fEvents s = x # xs \<and> s' = s\<lparr>fEvents := xs, control_at := Shutdown_decides x\<rparr>"
    using assms by (elim control_step_Controller) auto
qed (use assms control_step.hears in \<open>auto\<close>)

lemma start_hears_iff:
  assumes "control_at s = Start_waits k" "DeviceState.Error \<notin> set (fEvents s)"
  shows "control_step d c s Controller s' \<longleftrightarrow>
    (\<exists>x xs. fEvents s = x # xs \<and> s' = s\<lparr>fEvents := xs, control_at := after_startup k x s\<rparr>)"
proof
  show "control_step d c s Controller s' \<Longrightarrow> \<exists>x xs. fEvents s = x # xs \<and> s' = s\<lparr>fEvents := xs, control_at := after_startup k x s\<rparr>"
    using assms by (elim control_step_Controller) auto
qed (use assms control_step.start_hears in \<open>auto\<close>)

lemma static_iff:
  assumes "control_at s = Static" "DeviceState.Error \<notin> set (fEvents s)" "\<not> fDeviceShutdownRequested s"
  shows "control_step d c s Controller s' \<longleftrightarrow> fEvents s \<noteq> [] \<and> s' = s\<lparr>control_at := Shutdown_begins\<rparr>"
proof
  show "control_step d c s Controller s' \<Longrightarrow> fEvents s \<noteq> [] \<and> s' = s\<lparr>control_at := Shutdown_begins\<rparr>"
    using assms by (elim control_step_Controller) auto
next
  assume f: "fEvents s \<noteq> [] \<and> s' = s\<lparr>control_at := Shutdown_begins\<rparr>"
  then obtain x xs where x: "fEvents s = x # xs" by (cases "fEvents s") auto
  then show "control_step d c s Controller s'" using control_step.static_hears [OF assms(1) x, of d c] assms(2) f by auto
qed

lemma begins_iff:
  assumes "control_at s = Shutdown_begins"
  shows "control_step d c s Controller s' \<longleftrightarrow> s' = s\<lparr>control_at := Shutdown_knows (plugin_state (GetCurrentState (machine (device s))))\<rparr>"
proof
  show "control_step d c s Controller s' \<Longrightarrow> s' = s\<lparr>control_at := Shutdown_knows (plugin_state (GetCurrentState (machine (device s))))\<rparr>"
    using assms by (elim control_step_Controller) auto
qed (use control_step.begins [OF assms] in simp)

lemma empties_iff:
  assumes "control_at s = Shutdown_knows x"
  shows "control_step d c s Controller s' \<longleftrightarrow> s' = s\<lparr>fEvents := [], control_at := Shutdown_decides x\<rparr>"
proof
  show "control_step d c s Controller s' \<Longrightarrow> s' = s\<lparr>fEvents := [], control_at := Shutdown_decides x\<rparr>"
    using assms by (elim control_step_Controller) auto
qed (use control_step.empties [OF assms] in simp)

lemma finished_iff: "control_at s = Finished \<Longrightarrow> \<not> control_step d c s Controller s'"
  by (auto elim: control_step_Controller)

lemma asks_iff:
  assumes "owner s = Some ''control''" "\<And>dev'. step d (device s) (Request (transition_of t)) dev' \<longleftrightarrow> dev' = dev1" "held dev1 = None"
  shows "asks d c t q s s' \<longleftrightarrow> s' = (moved c dev1 s)\<lparr>control_at := q\<rparr>"
proof
  show "asks d c t q s s' \<Longrightarrow> s' = (moved c dev1 s)\<lparr>control_at := q\<rparr>"
    using assms by (elim asks_cases) (auto simp: moved_def)
next
  assume "s' = (moved c dev1 s)\<lparr>control_at := q\<rparr>"
  moreover have "(moved c dev1 s)\<lparr>owner := Some ''control'', control_at := q\<rparr> = (moved c dev1 s)\<lparr>control_at := q\<rparr>"
    using assms(1) by (cases s) (simp add: moved_def)
  ultimately show "asks d c t q s s'" using asks.granted [of s d t dev1 c q] assms by simp
qed

section \<open>A life without disturbance\<close>

text \<open>
  The system from the start of the controller in static mode until the device is gone, when no user code throws, no
  signal arrives and no other plugin interferes. Worker and controller may take their steps in any order, but
  each order has the same number of steps: the number in the rules below is the number of steps that are left.

  \<open>asking\<close> lists the requests of the two sequences: the state of the device, the place of the controller, the event,
  the state, handler and next state of the pass that follows, the place of the controller afterwards. \<open>listening\<close>
  lists what the controller has heard of a pass, by its place.
\<close>

definition asking :: "(State \<times> control_at \<times> DeviceStateTransition \<times> Event \<times> State \<times> handler \<times> State \<times> control_at \<times> nat) set" where
  "asking =
     {(IDLE, Start_asks 0, InitDevice, INIT_DEVICE, INITIALIZING_DEVICE, InitWrapper, DEVICE_READY, Start_waits 0, 49),
      (DEVICE_READY, Start_asks 1, InitTask, INIT_TASK, INITIALIZING_TASK, InitTaskWrapper, READY, Start_waits 1, 41),
      (READY, Start_asks 2, DeviceStateTransition.Run, RUN, RUNNING, RunWrapper, READY, Start_waits 2, 33),
      (READY, Shutdown_decides Ready, ResetTask, RESET_TASK, RESETTING_TASK, ResetTaskWrapper, DEVICE_READY, Shutdown_waits, 22),
      (DEVICE_READY, Shutdown_decides DeviceReady, ResetDevice, RESET_DEVICE, RESETTING_DEVICE, ResetWrapper, IDLE, Shutdown_waits, 13)}"

definition listening :: "(State \<times> handler \<times> State \<times> control_at \<times> DeviceState list \<times> nat) set" where
  "listening =
     {(INITIALIZING_DEVICE, InitWrapper, DEVICE_READY, Start_waits 0, [], 43),
      (INITIALIZING_DEVICE, InitWrapper, DEVICE_READY, Start_waits 0, [InitializingDevice], 42),
      (INITIALIZING_TASK, InitTaskWrapper, READY, Start_waits 1, [], 35),
      (INITIALIZING_TASK, InitTaskWrapper, READY, Start_waits 1, [InitializingTask], 34),
      (RUNNING, RunWrapper, READY, Start_waits 2, [], 26),
      (RUNNING, RunWrapper, READY, Static, [Running], 25),
      (RESETTING_TASK, ResetTaskWrapper, DEVICE_READY, Shutdown_waits, [], 16),
      (RESETTING_TASK, ResetTaskWrapper, DEVICE_READY, Shutdown_decides ResettingTask, [ResettingTask], 15),
      (RESETTING_TASK, ResetTaskWrapper, DEVICE_READY, Shutdown_waits, [ResettingTask], 14),
      (RESETTING_DEVICE, ResetWrapper, IDLE, Shutdown_waits, [], 7),
      (RESETTING_DEVICE, ResetWrapper, IDLE, Shutdown_decides ResettingDevice, [ResettingDevice], 6),
      (RESETTING_DEVICE, ResetWrapper, IDLE, Shutdown_waits, [ResettingDevice], 5)}"

fun shutdown_steps :: "State \<Rightarrow> nat" where
  "shutdown_steps READY = 22"
| "shutdown_steps DEVICE_READY = 13"
| "shutdown_steps _ = 4"

text \<open>In the startup sequence, the mode is static and no signal has arrived.\<close>

fun starting :: "control_at \<Rightarrow> bool" where
  "starting (Start_asks k) = True"
| "starting (Start_waits k) = True"
| "starting Static = True"
| "starting _ = False"

definition undisturbed :: "control_system \<Rightarrow> bool" where
  "undisturbed s \<longleftrightarrow> (starting (control_at s) \<longrightarrow> \<not> interactive s \<and> \<not> fDeviceShutdownRequested s)"

definition exited :: "device_system \<Rightarrow> bool" where
  "exited dev \<longleftrightarrow>
     held dev = None \<and> fState (machine dev) = EXITING \<and> fWorkerTerminated (machine dev) \<and> (worker_at dev = Waiting \<or> worker_at dev = Left)"

definition leaves :: "device_system \<Rightarrow> nat" where
  "leaves dev = (if worker_at dev = Left then 0 else 1)"

inductive life :: "nat \<Rightarrow> nat \<Rightarrow> control_system \<Rightarrow> bool" for c where
  life_asking: "\<lbrakk>(st, control_at s, tr, e, t, h, u, w, n) \<in> asking; dev_at c st Waiting None (device s); fEvents s = [];
    owner s = Some ''control''; undisturbed s\<rbrakk> \<Longrightarrow> life c n s"
| life_listening: "\<lbrakk>(t, h, u, control_at s, heard_so_far, k) \<in> listening; pass_at c t h u p (device s);
    [plugin_state t, plugin_state u] = heard_so_far @ fEvents s @ to_come t u p;
    owner s = Some ''control''; undisturbed s\<rbrakk> \<Longrightarrow> life c (k + pass_left h p) s"
| life_begins: "\<lbrakk>control_at s = Shutdown_begins; dev_at c st Waiting None (device s); st \<in> {IDLE, DEVICE_READY, READY};
    owner s = Some ''control''\<rbrakk> \<Longrightarrow> life c (shutdown_steps st + 2) s"
| life_knows: "\<lbrakk>control_at s = Shutdown_knows (plugin_state st); dev_at c st Waiting None (device s); st \<in> {IDLE, DEVICE_READY, READY};
    owner s = Some ''control''\<rbrakk> \<Longrightarrow> life c (shutdown_steps st + 1) s"
| life_leaving: "\<lbrakk>control_at s = Shutdown_decides Idle; dev_at c IDLE Waiting None (device s); fEvents s = [];
    owner s = Some ''control''\<rbrakk> \<Longrightarrow> life c 4 s"
| life_exiting: "\<lbrakk>control_at s = Shutdown_waits; fEvents s = [Exiting]; exited (device s); owner s = Some ''control''\<rbrakk> \<Longrightarrow>
    life c (leaves (device s) + 2) s"
| life_ending: "\<lbrakk>control_at s = Shutdown_decides Exiting; exited (device s); owner s = Some ''control''\<rbrakk> \<Longrightarrow>
    life c (leaves (device s) + 1) s"
| life_finished: "\<lbrakk>control_at s = Finished; exited (device s); owner s = None; fDeviceHasShutdown s\<rbrakk> \<Longrightarrow>
    life c (leaves (device s)) s"

lemma plugin_states [simp]:
  "plugin_state IDLE = Idle" "plugin_state INITIALIZING_DEVICE = InitializingDevice" "plugin_state DEVICE_READY = DeviceReady"
  "plugin_state INITIALIZING_TASK = InitializingTask" "plugin_state READY = Ready" "plugin_state RUNNING = Running"
  "plugin_state PAUSED = Paused" "plugin_state RESETTING_TASK = ResettingTask" "plugin_state RESETTING_DEVICE = ResettingDevice"
  "plugin_state EXITING = Exiting" "plugin_state State.Error = DeviceState.Error"
  by (simp_all add: plugin_state_def fkDeviceStateMap_def)

lemma transitions_of [simp]:
  "transition_of InitDevice = INIT_DEVICE" "transition_of InitTask = INIT_TASK" "transition_of DeviceStateTransition.Run = RUN"
  "transition_of ResetTask = RESET_TASK" "transition_of ResetDevice = RESET_DEVICE" "transition_of End = END"
  by (simp_all add: transition_of_def fkDeviceStateTransitionMap_def)

lemma moved_simps [simp]:
  "device (moved c dev' s) = dev'" "fEvents (moved c dev' s) = fEvents s @ heard c (device s) dev'"
  "owner (moved c dev' s) = owner s" "control_at (moved c dev' s) = control_at s" "interactive (moved c dev' s) = interactive s"
  "fDeviceShutdownRequested (moved c dev' s) = fDeviceShutdownRequested s" "fDeviceHasShutdown (moved c dev' s) = fDeviceHasShutdown s"
  by (simp_all add: moved_def)

lemma undisturbed_moved [simp]: "undisturbed (moved c dev' s) = undisturbed s"
  by (simp add: undisturbed_def)

text \<open>The tables fit the transition table of the device and the sequences of the plugin.\<close>

lemma asking_row:
  "(st, pos, tr, e, t, h, u, w, n) \<in> asking \<Longrightarrow>
   row st e = Some (t, DefaultFct) \<and> installed_handlers e = Some h \<and> \<not> internal_event e \<and> transition_of tr = e"
  unfolding asking_def by (elim insertE emptyE) (simp_all add: row_def transition_table_def installed_handlers_def internal_event_def)

lemma asking_listening:
  "(st, pos, tr, e, t, h, u, w, n) \<in> asking \<Longrightarrow> \<exists>k. n = Suc (k + pass_left h Posted) \<and> (t, h, u, w, [], k) \<in> listening"
  unfolding asking_def by (elim insertE emptyE) (simp_all add: listening_def eval_nat_numeral)

lemma asking_place:
  "(st, pos, tr, e, t, h, u, w, n) \<in> asking \<Longrightarrow>
   (\<exists>k. pos = Start_asks k \<and> tr = startup_transition k \<and> w = Start_waits k) \<or>
   (\<exists>x. pos = Shutdown_decides x \<and> shutdown_transition x = Some tr \<and> w = Shutdown_waits)"
  unfolding asking_def by (elim insertE emptyE) (simp_all add: numeral_2_eq_2)

lemma listening_self_ending: "(t, h, u, pos, hs, k) \<in> listening \<Longrightarrow> self_ending t h u"
  unfolding listening_def by (elim insertE emptyE) (simp_all add: self_ending_def row_def transition_table_def)

text \<open>One step of either thread, from each of the situations.\<close>

definition thread :: "actor \<Rightarrow> bool" where
  "thread a \<longleftrightarrow> a = Worker \<or> a = Controller"

definition counts_down :: "(State list \<Rightarrow> Event \<Rightarrow> nat option) \<Rightarrow> nat \<Rightarrow> nat \<Rightarrow> control_system \<Rightarrow> bool" where
  "counts_down d c n s \<longleftrightarrow>
     (\<forall>a s'. thread a \<longrightarrow> control_step d c s a s' \<longrightarrow> (\<exists>m. n = Suc m \<and> life c m s')) \<and>
     (0 < n \<longrightarrow> (\<exists>a s'. thread a \<and> control_step d c s a s'))"

lemma counts_downI:
  assumes "\<And>s'. control_step d c s Worker s' \<Longrightarrow> \<exists>m. n = Suc m \<and> life c m s'"
    and "\<And>s'. control_step d c s Controller s' \<Longrightarrow> \<exists>m. n = Suc m \<and> life c m s'"
    and "0 < n \<Longrightarrow> \<exists>s'. control_step d c s Worker s' \<or> control_step d c s Controller s'"
  shows "counts_down d c n s"
  using assms by (auto simp: counts_down_def thread_def)

text \<open>A situation in which the worker waits and the controller has one step.\<close>

lemma counts_down_controller:
  assumes "dev_at c st Waiting None (device s)" "\<And>s'. control_step d c s Controller s' \<longleftrightarrow> s' = s1" "life c n s1"
  shows "counts_down d c (Suc n) s"
  using assms dev_at_idles [OF assms(1)] by (intro counts_downI) (auto simp: works_iff)

lemma dev_at_posted:
  assumes "dev_at c st Waiting None dev" "device_state t"
  shows "dev_at c t Waiting (Some h) (dev\<lparr>machine := (machine dev)\<lparr>fState := t, fWorkAvailable := True, fWork := Some h, regions := [t, OK]\<rparr>\<rparr>)"
  using assms by (auto simp: dev_at_def machine_defs regions_ok_def shown_state_def)

context msm_backend
begin

lemma counts_down_asking:
  assumes a: "(st, control_at s, tr, e, t, h, u, w, n) \<in> asking" and d: "dev_at c st Waiting None (device s)" and q: "fEvents s = []"
    and o: "owner s = Some ''control''" "undisturbed s"
  shows "counts_down dispatch c n s"
proof -
  let ?dev = "(device s)\<lparr>machine := (machine (device s))\<lparr>fState := t, fWorkAvailable := True, fWork := Some h, regions := [t, OK]\<rparr>\<rparr>"
  let ?s = "(moved c ?dev s)\<lparr>control_at := w\<rparr>"
  note r = asking_row [OF a]
  have t: "device_state t" using row_device [OF dev_at_device_state [OF d]] r by blast
  have "\<And>dev'. step dispatch (device s) (Request (transition_of tr)) dev' \<longleftrightarrow> dev' = ?dev"
    using dev_at_posts [OF d, of e t h] r by simp
  moreover have "held ?dev = None" using d by (simp add: dev_at_def)
  ultimately have "\<And>s'. asks dispatch c tr w s s' \<longleftrightarrow> s' = ?s" by (rule asks_iff [OF o(1)])
  then have c: "\<And>s'. control_step dispatch c s Controller s' \<longleftrightarrow> s' = ?s"
    using asking_place [OF a] start_asks_iff [of s] decides_iff [of s] by auto
  obtain k where k: "n = Suc (k + pass_left h Posted)" "(t, h, u, w, [], k) \<in> listening" using asking_listening [OF a] by blast
  have "life c (k + pass_left h Posted) ?s"
  proof (rule life_listening)
    show "(t, h, u, control_at ?s, [], k) \<in> listening" using k by simp
    show "pass_at c t h u Posted (device ?s)" using dev_at_posted [OF d t] by simp
    show "[plugin_state t, plugin_state u] = [] @ fEvents ?s @ to_come t u Posted" using q by (simp add: heard_nothing)
    show "undisturbed ?s" using o(2) asking_place [OF a] by (auto simp: undisturbed_def)
  qed (use o in simp)
  then show ?thesis using counts_down_controller [OF d c] k(1) by simp
qed

lemma counts_down_leaving:
  assumes "control_at s = Shutdown_decides Idle" and d: "dev_at c IDLE Waiting None (device s)" and "fEvents s = []"
    and o: "owner s = Some ''control''"
  shows "counts_down dispatch c 4 s"
proof -
  let ?m = "machine (device s)"
  let ?dev = "(device s)\<lparr>machine := (CallStateChangeCallbacks EXITING (?m\<lparr>fState := EXITING\<rparr>))
      \<lparr>fWorkerTerminated := True, called := called ?m @ [Exit], regions := [EXITING, OK]\<rparr>\<rparr>"
  let ?s = "(moved c ?dev s)\<lparr>control_at := Shutdown_waits\<rparr>"
  have "\<And>dev'. step dispatch (device s) (Request (transition_of End)) dev' \<longleftrightarrow> dev' = ?dev"
    using dev_at_exits [OF d] by simp
  moreover have "held ?dev = None" using d by (simp add: dev_at_def)
  ultimately have "\<And>s'. asks dispatch c End Shutdown_waits s s' \<longleftrightarrow> s' = ?s" by (rule asks_iff [OF o])
  then have c: "\<And>s'. control_step dispatch c s Controller s' \<longleftrightarrow> s' = ?s" using decides_iff [OF assms(1)] by simp
  have "heard c (device s) ?dev = [plugin_state EXITING]"
    using d by (intro heard_callbacks [of ?m]) (simp_all add: dev_at_def)
  then have "life c (leaves (device ?s) + 2) ?s"
    using assms d by (intro life_exiting) (simp_all add: exited_def dev_at_def)
  moreover have "leaves (device ?s) = 1" using d by (simp add: leaves_def dev_at_def)
  ultimately have "life c 3 ?s" by (simp add: numeral_3_eq_3)
  then show ?thesis using counts_down_controller [OF d c, of 3] by simp
qed

lemma counts_down_begins:
  assumes "control_at s = Shutdown_begins" and d: "dev_at c st Waiting None (device s)" and "st \<in> {IDLE, DEVICE_READY, READY}"
    and "owner s = Some ''control''"
  shows "counts_down dispatch c (shutdown_steps st + 2) s"
proof -
  let ?s = "s\<lparr>control_at := Shutdown_knows (plugin_state (GetCurrentState (machine (device s))))\<rparr>"
  have "life c (shutdown_steps st + 1) ?s"
    using assms dev_at_fState [OF d] by (intro life_knows) (simp_all add: GetCurrentState_def)
  then show ?thesis using counts_down_controller [OF d begins_iff [OF assms(1)], of "shutdown_steps st + 1"] by simp
qed

lemma counts_down_knows:
  assumes "control_at s = Shutdown_knows (plugin_state st)" and d: "dev_at c st Waiting None (device s)" and st: "st \<in> {IDLE, DEVICE_READY, READY}"
    and "owner s = Some ''control''"
  shows "counts_down dispatch c (shutdown_steps st + 1) s"
proof -
  let ?s = "s\<lparr>fEvents := [], control_at := Shutdown_decides (plugin_state st)\<rparr>"
  have "life c (shutdown_steps st) ?s"
  proof (cases "st = IDLE")
    case True
    then show ?thesis using assms life_leaving [of ?s c] by simp
  next
    case False
    then have "\<exists>tr e t h u w. (st, control_at ?s, tr, e, t, h, u, w, shutdown_steps st) \<in> asking" using st by (auto simp: asking_def)
    then obtain tr e t h u w where "(st, control_at ?s, tr, e, t, h, u, w, shutdown_steps st) \<in> asking" by blast
    then show ?thesis using assms by (intro life_asking) (simp_all add: undisturbed_def)
  qed
  then show ?thesis using counts_down_controller [OF d empties_iff [OF assms(1)], of "shutdown_steps st"] by simp
qed

end

lemma listening_first:
  "(t, h, u, pos, [], k) \<in> listening \<Longrightarrow> \<exists>k'. k = Suc k' \<and>
     (pos = Shutdown_waits \<and> (t, h, u, Shutdown_decides (plugin_state t), [plugin_state t], k') \<in> listening \<or>
      (\<exists>j. pos = Start_waits j \<and> (\<forall>s. \<not> interactive s \<longrightarrow> (t, h, u, after_startup j (plugin_state t) s, [plugin_state t], k') \<in> listening)))"
  unfolding listening_def by (elim insertE emptyE) (simp_all add: after_startup_def numeral_2_eq_2)

lemma listening_second:
  "(t, h, u, pos, x # xs, k) \<in> listening \<Longrightarrow> x = plugin_state t \<and> xs = [] \<and> (\<exists>k'. k = Suc k' \<and>
     (pos = Static \<and> u = READY \<and> k' = 24 \<or>
      pos = Shutdown_decides (plugin_state t) \<and> t \<in> {RESETTING_TASK, RESETTING_DEVICE} \<and> (t, h, u, Shutdown_waits, [plugin_state t], k') \<in> listening \<or>
      pos = Shutdown_waits \<and> u = IDLE \<and> k' = 4 \<or>
      pos = Shutdown_waits \<and> (\<exists>tr e t h v w. (u, Shutdown_decides (plugin_state u), tr, e, t, h, v, w, k') \<in> asking) \<or>
      (\<exists>j. pos = Start_waits j \<and> (\<forall>s. \<exists>tr e t h v w. (u, after_startup j (plugin_state u) s, tr, e, t, h, v, w, k') \<in> asking))))"
  unfolding listening_def by (elim insertE emptyE) (simp_all add: after_startup_def asking_def)

lemma listening_events:
  assumes "(t, h, u, pos, hs, k) \<in> listening" "[plugin_state t, plugin_state u] = hs @ ev @ to_come t u p"
  shows "DeviceState.Error \<notin> set ev"
proof -
  have "plugin_state t \<noteq> DeviceState.Error" "plugin_state u \<noteq> DeviceState.Error"
    using assms(1) unfolding listening_def by (elim insertE emptyE, simp_all)+
  moreover have "set ev \<subseteq> {plugin_state t, plugin_state u}" using arg_cong [OF assms(2), of set] by auto
  ultimately show ?thesis by auto
qed

lemma to_come_Nil: "to_come t u p = [] \<longleftrightarrow> p = Over"
  by (cases p) simp_all

lemma undisturbed_hears:
  assumes "undisturbed s" "starting pos \<longrightarrow> starting (control_at s)"
  shows "undisturbed (s\<lparr>fEvents := ev, control_at := pos\<rparr>)" "undisturbed (s\<lparr>control_at := pos\<rparr>)"
  using assms by (auto simp: undisturbed_def)

lemma starting_after: "starting (after_startup j x s) \<or> interactive s"
  by (simp add: after_startup_def)

lemma life_hears_first:
  assumes l: "(t, h, u, control_at s, [], k) \<in> listening" and p: "pass_at c t h u p (device s)"
    and ev: "[plugin_state t, plugin_state u] = fEvents s @ to_come t u p" and o: "owner s = Some ''control''" "undisturbed s"
    and step: "control_step d c s Controller s'"
  shows "\<exists>m. k + pass_left h p = Suc m \<and> life c m s'"
proof -
  obtain k' where k: "k = Suc k'" using listening_first [OF l] by blast
  have e: "DeviceState.Error \<notin> set (fEvents s)" using listening_events [OF l, of "fEvents s" p] ev by simp
  obtain pos xs where s': "s' = s\<lparr>fEvents := xs, control_at := pos\<rparr>" "fEvents s = plugin_state t # xs"
    and pos: "(t, h, u, pos, [plugin_state t], k') \<in> listening" "starting pos \<longrightarrow> starting (control_at s)"
  proof (cases "control_at s = Shutdown_waits")
    case True
    then obtain x xs where x: "fEvents s = x # xs" "s' = s\<lparr>fEvents := xs, control_at := Shutdown_decides x\<rparr>"
      using step hears_iff [OF True e] by blast
    then have "x = plugin_state t" using ev by simp
    then show ?thesis using that x listening_first [OF l] k True by fastforce
  next
    case False
    then obtain j where j: "control_at s = Start_waits j" using listening_first [OF l] by blast
    then obtain x xs where x: "fEvents s = x # xs" "s' = s\<lparr>fEvents := xs, control_at := after_startup j x s\<rparr>"
      using step start_hears_iff [OF j e] by blast
    then have "x = plugin_state t" using ev by simp
    moreover have "\<not> interactive s" using o(2) j by (simp add: undisturbed_def)
    ultimately show ?thesis using that x listening_first [OF l] k j by fastforce
  qed
  have "life c (k' + pass_left h p) s'"
    unfolding s'(1) by (rule life_listening [of t h u _ "[plugin_state t]"])
      (use pos p ev s'(2) o undisturbed_hears(1) [OF o(2) pos(2)] in simp_all)
  then show ?thesis using k by simp
qed

lemma life_hears_second:
  assumes l: "(t, h, u, control_at s, [plugin_state t], k) \<in> listening" and p: "pass_at c t h u p (device s)"
    and ev: "[plugin_state u] = fEvents s @ to_come t u p" and o: "owner s = Some ''control''" "undisturbed s"
    and step: "control_step d c s Controller s'"
  shows "\<exists>m. k + pass_left h p = Suc m \<and> life c m s'"
proof -
  from listening_second [OF l] obtain k' where k: "k = Suc k'" and cases:
    "control_at s = Static \<and> u = READY \<and> k' = 24 \<or>
     control_at s = Shutdown_decides (plugin_state t) \<and> t \<in> {RESETTING_TASK, RESETTING_DEVICE} \<and> (t, h, u, Shutdown_waits, [plugin_state t], k') \<in> listening \<or>
     control_at s = Shutdown_waits \<and> u = IDLE \<and> k' = 4 \<or>
     control_at s = Shutdown_waits \<and> (\<exists>tr e t h v w. (u, Shutdown_decides (plugin_state u), tr, e, t, h, v, w, k') \<in> asking) \<or>
     (\<exists>j. control_at s = Start_waits j \<and> (\<forall>s. \<exists>tr e t h v w. (u, after_startup j (plugin_state u) s, tr, e, t, h, v, w, k') \<in> asking))" by blast
  have e: "DeviceState.Error \<notin> set (fEvents s)" using listening_events [OF l, of "fEvents s" p] ev by simp
  have over: "fEvents s = [plugin_state u] \<and> p = Over \<and> dev_at c u Waiting None (device s)" if "fEvents s \<noteq> []"
    using that ev p to_come_Nil [of t u p] by (cases "fEvents s") auto
  consider "control_at s = Static" "u = READY" "k' = 24"
    | "control_at s = Shutdown_decides (plugin_state t)" "t \<in> {RESETTING_TASK, RESETTING_DEVICE}" "(t, h, u, Shutdown_waits, [plugin_state t], k') \<in> listening"
    | "control_at s = Shutdown_waits" "u = IDLE" "k' = 4"
    | tr e t h v w where "control_at s = Shutdown_waits" "(u, Shutdown_decides (plugin_state u), tr, e, t, h, v, w, k') \<in> asking"
    | j tr e t h v w where "control_at s = Start_waits j" "(u, after_startup j (plugin_state u) s, tr, e, t, h, v, w, k') \<in> asking"
    using cases by blast
  then have "life c (k' + pass_left h p) s'"
  proof cases
    case 1
    have f: "fEvents s \<noteq> []" "s' = s\<lparr>control_at := Shutdown_begins\<rparr>"
      using step static_iff [OF 1(1) e] o(2) 1(1) by (auto simp: undisturbed_def)
    have "life c (shutdown_steps READY + 2) s'" unfolding f(2) using over [OF f(1)] 1 o(1) by (intro life_begins) simp_all
    then show ?thesis using over [OF f(1)] 1(3) by simp
  next
    case 2
    then have "s' = s\<lparr>control_at := Shutdown_waits\<rparr>" using step passes_by_iff [OF 2(1)] by auto
    then show ?thesis using 2(3) p ev o undisturbed_hears(2) [OF o(2)] by (intro life_listening [of t h u _ "[plugin_state t]"]) simp_all
  next
    case 3
    then obtain x xs where x: "fEvents s = x # xs" "s' = s\<lparr>fEvents := xs, control_at := Shutdown_decides x\<rparr>" using step hears_iff [OF 3(1) e] by blast
    then have "life c 4 s'" using over 3(2) o(1) by (intro life_leaving) simp_all
    then show ?thesis using over x(1) 3(3) by simp
  next
    case (4 tr e' t' h' v w)
    then obtain x xs where x: "fEvents s = x # xs" "s' = s\<lparr>fEvents := xs, control_at := Shutdown_decides x\<rparr>" using step hears_iff [OF 4(1) e] by blast
    then have "life c k' s'" using over 4(2) o(1) by (intro life_asking [of u _ tr e' t' h' v w]) (simp_all add: undisturbed_def)
    then show ?thesis using over x(1) by simp
  next
    case (5 j tr e' t' h' v w)
    then obtain x xs where x: "fEvents s = x # xs" "s' = s\<lparr>fEvents := xs, control_at := after_startup j x s\<rparr>"
      using step start_hears_iff [OF 5(1) e] by blast
    then have "life c k' s'" using over 5 o by (intro life_asking [of u _ tr e' t' h' v w]) (simp_all add: undisturbed_def)
    then show ?thesis using over x(1) by simp
  qed
  then show ?thesis using k by simp
qed

lemma listening_place:
  "(t, h, u, pos, hs, k) \<in> listening \<Longrightarrow>
   (\<exists>j. pos = Start_waits j) \<or> pos = Static \<or> pos = Shutdown_waits \<or> pos = Shutdown_decides ResettingTask \<or> pos = Shutdown_decides ResettingDevice"
  unfolding listening_def by (elim insertE emptyE) simp_all

lemma listening_can_hear:
  assumes "(t, h, u, control_at s, hs, k) \<in> listening" "fEvents s = x # xs" "x \<noteq> DeviceState.Error"
  shows "\<exists>s'. control_step d c s Controller s'"
proof -
  consider j where "control_at s = Start_waits j" | "control_at s = Static" | "control_at s = Shutdown_waits"
    | "control_at s = Shutdown_decides ResettingTask" | "control_at s = Shutdown_decides ResettingDevice"
    using listening_place [OF assms(1)] by blast
  then show ?thesis
  proof cases
    case (1 j)
    show ?thesis using control_step.start_hears [OF 1 assms(2,3)] by blast
  next
    case 2
    show ?thesis using control_step.static_hears [OF 2 assms(2)] by blast
  next
    case 3
    show ?thesis using control_step.hears [OF 3 assms(2,3)] by blast
  next
    case 4
    show ?thesis using control_step.passes_by [OF 4] by auto
  next
    case 5
    show ?thesis using control_step.passes_by [OF 5] by auto
  qed
qed

lemma exited_leaves:
  assumes "exited dev"
  shows "step d dev Work dev' \<longleftrightarrow> worker_at dev = Waiting \<and> dev' = dev\<lparr>worker_at := Left\<rparr>"
proof
  show "step d dev Work dev' \<Longrightarrow> worker_at dev = Waiting \<and> dev' = dev\<lparr>worker_at := Left\<rparr>"
    using assms by (elim step_Work) (auto simp: exited_def worker_takes_def)
qed (use assms step.leave in \<open>auto simp: exited_def worker_leaves_def\<close>)

lemma exited_left: "exited dev \<Longrightarrow> exited (dev\<lparr>worker_at := Left\<rparr>)" "heard c dev (dev\<lparr>worker_at := Left\<rparr>) = []" "leaves (dev\<lparr>worker_at := Left\<rparr>) = 0"
  by (simp_all add: exited_def heard_nothing leaves_def)

text \<open>The last situations: the worker can leave at any time, and the controller has the steps that are left otherwise.\<close>

lemma counts_down_exited:
  assumes "exited (device s)" "\<And>s'. control_step d c s Controller s' \<Longrightarrow> \<exists>m. k = Suc m \<and> life c (leaves (device s) + m) s'"
    and "0 < k \<Longrightarrow> \<exists>s'. control_step d c s Controller s'"
    and "life c k (s\<lparr>device := (device s)\<lparr>worker_at := Left\<rparr>\<rparr>)"
  shows "counts_down d c (leaves (device s) + k) s"
proof (rule counts_downI)
  fix s' assume "control_step d c s Worker s'"
  then have "worker_at (device s) = Waiting" "s' = s\<lparr>device := (device s)\<lparr>worker_at := Left\<rparr>\<rparr>"
    using exited_leaves [OF assms(1)] exited_left(2) by (auto simp: works_iff moved_def)
  then show "\<exists>m. leaves (device s) + k = Suc m \<and> life c m s'" using assms(4) by (simp add: leaves_def)
next
  assume "0 < leaves (device s) + k"
  then show "\<exists>s'. control_step d c s Worker s' \<or> control_step d c s Controller s'"
    using assms(1,3) exited_leaves [OF assms(1), of d] by (cases "0 < k") (auto simp: works_iff leaves_def exited_def split: if_splits)
qed (use assms(2) in fastforce)

context msm_backend
begin

lemma counts_down_listening:
  assumes l: "(t, h, u, control_at s, hs, k) \<in> listening" and p: "pass_at c t h u p (device s)"
    and ev: "[plugin_state t, plugin_state u] = hs @ fEvents s @ to_come t u p" and o: "owner s = Some ''control''" "undisturbed s"
  shows "counts_down dispatch c (k + pass_left h p) s"
proof (rule counts_downI)
  fix s' assume "control_step dispatch c s Worker s'"
  then obtain dev where w: "step dispatch (device s) Work dev" "s' = moved c dev s" by (auto simp: works_iff)
  have over: "p \<noteq> Over"
  proof
    assume "p = Over"
    then show False using p w(1) dev_at_idles by simp
  qed
  then have d: "pass_at c t h u (next_pass h p) dev" "to_come t u p = heard c (device s) dev @ to_come t u (next_pass h p)"
    using pass_worker [OF listening_self_ending [OF l] p] w(1) by auto
  then have "life c (k + pass_left h (next_pass h p)) s'" using l ev o w(2) by (intro life_listening [of t h u _ hs]) simp_all
  then show "\<exists>m. k + pass_left h p = Suc m \<and> life c m s'" using pass_left_next [OF over, of h] by simp
next
  fix s' assume c: "control_step dispatch c s Controller s'"
  show "\<exists>m. k + pass_left h p = Suc m \<and> life c m s'"
  proof (cases hs)
    case Nil
    then show ?thesis using life_hears_first [OF _ p _ o c] l ev by simp
  next
    case (Cons x xs)
    then have "hs = [plugin_state t]" using listening_second [of t h u "control_at s" x xs k] l by simp
    then show ?thesis using life_hears_second [OF _ p _ o c] l ev by simp
  qed
next
  show "\<exists>s'. control_step dispatch c s Worker s' \<or> control_step dispatch c s Controller s'"
  proof (cases "p = Over")
    case True
    have e: "DeviceState.Error \<notin> set (fEvents s)" using listening_events [OF l ev] .
    have "length hs \<le> 1" using listening_second [of t h u "control_at s" _ _ k] l by (cases hs) auto
    then have "fEvents s \<noteq> []" using True ev by (cases hs) auto
    then obtain x xs where x: "fEvents s = x # xs" by (cases "fEvents s") auto
    then show ?thesis using listening_can_hear [OF l x] e by auto
  next
    case False
    then obtain dev where "step dispatch (device s) Work dev" using pass_worker [OF listening_self_ending [OF l] p] by blast
    then show ?thesis unfolding works_iff by blast
  qed
qed

end

lemma counts_down_exiting:
  assumes "control_at s = Shutdown_waits" "fEvents s = [Exiting]" "exited (device s)" "owner s = Some ''control''"
  shows "counts_down d c (leaves (device s) + 2) s"
proof -
  let ?s = "s\<lparr>fEvents := [], control_at := Shutdown_decides Exiting\<rparr>"
  have i: "control_step d c s Controller s' \<longleftrightarrow> s' = ?s" for s' using hears_iff [OF assms(1), of d c s'] assms(2) by auto
  have "life c (leaves (device s) + 1) ?s" using life_ending [of ?s c] assms by simp
  moreover have "life c 2 (s\<lparr>device := (device s)\<lparr>worker_at := Left\<rparr>\<rparr>)"
    using life_exiting [of "s\<lparr>device := (device s)\<lparr>worker_at := Left\<rparr>\<rparr>" c] assms exited_left by (simp add: numeral_2_eq_2)
  ultimately show ?thesis using i assms(3) by (intro counts_down_exited) auto
qed

lemma counts_down_ending:
  assumes "control_at s = Shutdown_decides Exiting" "exited (device s)" "owner s = Some ''control''"
  shows "counts_down d c (leaves (device s) + 1) s"
proof -
  let ?s = "s\<lparr>fDeviceHasShutdown := True, owner := None, control_at := Finished\<rparr>"
  have i: "control_step d c s Controller s' \<longleftrightarrow> s' = ?s" for s' using ends_iff [OF assms(1,3)] .
  have "life c (leaves (device s)) ?s" using life_finished [of ?s c] assms by simp
  moreover have "life c 1 (s\<lparr>device := (device s)\<lparr>worker_at := Left\<rparr>\<rparr>)"
    using life_ending [of "s\<lparr>device := (device s)\<lparr>worker_at := Left\<rparr>\<rparr>" c] assms exited_left by simp
  ultimately show ?thesis using i assms(2) by (intro counts_down_exited) auto
qed

lemma counts_down_finished:
  assumes "control_at s = Finished" "exited (device s)" "owner s = None" "fDeviceHasShutdown s"
  shows "counts_down d c (leaves (device s)) s"
proof -
  have "life c 0 (s\<lparr>device := (device s)\<lparr>worker_at := Left\<rparr>\<rparr>)"
    using life_finished [of "s\<lparr>device := (device s)\<lparr>worker_at := Left\<rparr>\<rparr>" c] assms exited_left by simp
  then show ?thesis using counts_down_exited [OF assms(2), of d c 0] finished_iff [OF assms(1)] by auto
qed

inductive threads_run :: "(State list \<Rightarrow> Event \<Rightarrow> nat option) \<Rightarrow> nat \<Rightarrow> nat \<Rightarrow> control_system \<Rightarrow> control_system \<Rightarrow> bool" for d c where
  run_none: "threads_run d c 0 s s"
| run_step: "\<lbrakk>threads_run d c n s s'; thread a; control_step d c s' a s''\<rbrakk> \<Longrightarrow> threads_run d c (Suc n) s s''"

context msm_backend
begin

lemma life_counts_down: "life c n s \<Longrightarrow> counts_down dispatch c n s"
proof (induction rule: life.induct)
  case (life_asking st s tr e t h u w n)
  then show ?case by (rule counts_down_asking)
next
  case (life_listening t h u s hs k p)
  then show ?case by (rule counts_down_listening)
next
  case (life_begins s st)
  then show ?case by (rule counts_down_begins)
next
  case (life_knows s st)
  then show ?case by (rule counts_down_knows)
next
  case (life_leaving s)
  then show ?case by (rule counts_down_leaving)
next
  case (life_exiting s)
  then show ?case by (rule counts_down_exiting)
next
  case (life_ending s)
  then show ?case by (rule counts_down_ending)
next
  case (life_finished s)
  then show ?case by (rule counts_down_finished)
qed

lemma threads_run_life:
  "threads_run dispatch c m s s' \<Longrightarrow> life c n s \<Longrightarrow> m \<le> n \<and> life c (n - m) s'"
proof (induction rule: threads_run.induct)
  case (run_step m s s' a s'')
  then have "counts_down dispatch c (n - m) s'" using life_counts_down by blast
  then obtain k where k: "n - m = Suc k" "life c k s''" using run_step.hyps(2,3) unfolding counts_down_def by blast
  then have "Suc m \<le> n" "n - Suc m = k" by arith+
  then show ?case using k(2) by simp
qed simp

lemma life_goes_on:
  assumes "life c (m + n) s"
  shows "\<exists>s'. threads_run dispatch c m s s' \<and> life c n s'"
  using assms
proof (induction m arbitrary: n)
  case 0
  then show ?case using run_none by auto
next
  case (Suc m)
  from Suc.IH [of "Suc n"] Suc.prems obtain s1 where s1: "threads_run dispatch c m s s1" "life c (Suc n) s1" by auto
  then obtain a s' where "thread a" "control_step dispatch c s1 a s'" "life c n s'"
    using life_counts_down [OF s1(2)] by (auto simp: counts_down_def)
  then show ?case using run_step [OF s1(1)] by blast
qed

end

lemma life_0:
  assumes "life c 0 s"
  shows "control_at s = Finished \<and> GetCurrentState (machine (device s)) = EXITING \<and> worker_at (device s) = Left \<and> owner s = None \<and> fDeviceHasShutdown s"
  using assms
proof (cases rule: life.cases)
  case (life_asking st tr e t h u w)
  then show ?thesis using asking_listening by fastforce
next
  case (life_listening t h u hs k p)
  then show ?thesis using listening_first [of t h u "control_at s" k] listening_second [of t h u "control_at s"] by (cases hs) fastforce+
qed (auto simp: exited_def leaves_def GetCurrentState_def split: if_splits)

section \<open>Properties\<close>

lemma new_Control_dev_at:
  assumes "c = fresh []"
  shows "dev_at c IDLE Waiting None (device (new_Control control fresh controller started))"
  using assms by (auto simp: new_Control_def dev_at_def started_def FairMQStateMachine_def CallStateChangeCallbacks_def initial_state_def
      SubscribeToStateChange_def machine_defs regions_ok_def shown_state_def device_state_def ran_def inj_on_def Let_def)

lemma new_Control_life: "c = fresh [] \<Longrightarrow> life c 49 (new_Control ''static'' fresh None started)"
  by (rule life_asking [of IDLE _ InitDevice INIT_DEVICE INITIALIZING_DEVICE InitWrapper DEVICE_READY "Start_waits 0"])
    (use new_Control_dev_at in \<open>simp_all add: new_Control_def undisturbed_def asking_def\<close>)

text \<open>
  C8: In static mode the plugin takes a device through its whole life. From its start next to a device that has just been
  started, the threads of plugin and device take at most 49 steps, in whatever order; before that number one of them
  can go on; after it the device is in the state \<open>EXITING\<close>, its worker has left, the plugin has finished and
  given up control. This is when user code returns without an exception, no signal arrives and no other
  plugin interferes.
\<close>

theorem static_life_completes:
  assumes "msm_backend d" "threads_run d c n (new_Control ''static'' fresh None started) s" "c = fresh []"
  shows "n \<le> 49 \<and> (n < 49 \<longrightarrow> (\<exists>a s'. thread a \<and> control_step d c s a s')) \<and>
    (n = 49 \<longrightarrow> control_at s = Finished \<and> GetCurrentState (machine (device s)) = EXITING \<and> worker_at (device s) = Left \<and>
      owner s = None \<and> fDeviceHasShutdown s)"
proof -
  have l: "n \<le> 49" "life c (49 - n) s"
    using msm_backend.threads_run_life [OF assms(1,2) new_Control_life [of c fresh, OF assms(3)]] by simp_all
  then have "\<exists>a s'. thread a \<and> control_step d c s a s'" if "n < 49"
    using msm_backend.life_counts_down [OF assms(1) l(2)] that by (auto simp: counts_down_def)
  then show ?thesis using l life_0 [of c s] by auto
qed

theorem static_life_completes_witness:
  "\<exists>s. threads_run run_to_completion 7 49 (new_Control ''static'' (\<lambda>_. 7) None started) s \<and>
     control_at s = Finished \<and> GetCurrentState (machine (device s)) = EXITING"
proof -
  have "life 7 (49 + 0) (new_Control ''static'' (\<lambda>_. 7) None started)" using new_Control_life [of 7 "\<lambda>_. 7"] by simp
  from rtc.life_goes_on [OF this] obtain s where s: "threads_run run_to_completion 7 49 (new_Control ''static'' (\<lambda>_. 7) None started) s" by blast
  from static_life_completes [OF rtc.msm_backend_axioms s] show ?thesis using s by auto
qed

text \<open>
  C19: The shutdown sequence completes. When it begins while the device is at rest in \<open>IDLE\<close>, \<open>DEVICE_READY\<close> or
  \<open>READY\<close>, whatever is in the queue of states, then in whatever order the threads of plugin and device go on,
  after a number of steps that depends on the state alone the device is in the state \<open>EXITING\<close>, and before that one of
  them can go on.
\<close>

theorem shutdown_completes:
  assumes "msm_backend d" "control_at s = Shutdown_begins" "owner s = Some ''control''" "dev_at c st Waiting None (device s)"
    and "st \<in> {IDLE, DEVICE_READY, READY}" "threads_run d c n s s'"
  shows "n \<le> shutdown_steps st + 2 \<and> (n < shutdown_steps st + 2 \<longrightarrow> (\<exists>a s''. thread a \<and> control_step d c s' a s'')) \<and>
    (n = shutdown_steps st + 2 \<longrightarrow> control_at s' = Finished \<and> GetCurrentState (machine (device s')) = EXITING \<and> owner s' = None)"
proof -
  have "life c (shutdown_steps st + 2) s" using life_begins assms(2-5) by blast
  then have l: "n \<le> shutdown_steps st + 2" "life c (shutdown_steps st + 2 - n) s'"
    using msm_backend.threads_run_life [OF assms(1,6)] by simp_all
  then have "\<exists>a s''. thread a \<and> control_step d c s' a s''" if "n < shutdown_steps st + 2"
    using msm_backend.life_counts_down [OF assms(1) l(2)] that by (auto simp: counts_down_def)
  then show ?thesis using l life_0 [of c s'] by auto
qed

theorem shutdown_completes_witness:
  "\<exists>s'. threads_run run_to_completion 7 6
      ((new_Control ''interactive'' (\<lambda>_. 7) None started)\<lparr>fEvents := [Running], control_at := Shutdown_begins\<rparr>) s' \<and>
    control_at s' = Finished \<and> GetCurrentState (machine (device s')) = EXITING"
proof -
  let ?s = "(new_Control ''interactive'' (\<lambda>_. 7) None started)\<lparr>fEvents := [Running], control_at := Shutdown_begins\<rparr>"
  have s: "control_at ?s = Shutdown_begins" "owner ?s = Some ''control''" "dev_at 7 IDLE Waiting None (device ?s)" "IDLE \<in> {IDLE, DEVICE_READY, READY}"
    using new_Control_dev_at [of 7 "\<lambda>_. 7" "''interactive''" None] by (simp_all add: new_Control_def)
  then have "life 7 (6 + 0) ?s" using life_begins [of ?s 7 IDLE] by simp
  from rtc.life_goes_on [OF this] obtain s' where "threads_run run_to_completion 7 6 ?s s'" by blast
  with shutdown_completes [OF rtc.msm_backend_axioms s this] show ?thesis by auto
qed

text \<open>Whatever the actors do: what the system can come to.\<close>

definition control_reaches ::
    "(State list \<Rightarrow> Event \<Rightarrow> nat option) \<Rightarrow> nat \<Rightarrow> control_system \<Rightarrow> control_system \<Rightarrow> bool" where
  "control_reaches d c = (\<lambda>s s'. \<exists>a. control_step d c s a s')\<^sup>*\<^sup>*"

lemma reaches_refl: "control_reaches d c s s"
  by (simp add: control_reaches_def)

lemma reaches_step: "control_reaches d c s s' \<Longrightarrow> control_step d c s' a s'' \<Longrightarrow> control_reaches d c s s''"
  unfolding control_reaches_def by (rule rtranclp.rtrancl_into_rtrancl) auto

lemma threads_run_reaches: "threads_run d c n s s' \<Longrightarrow> control_reaches d c s s'"
  by (induction rule: threads_run.induct) (auto intro: reaches_refl reaches_step)

context msm_backend
begin

lemma worker_goes_on:
  assumes "self_ending t h u" "pass_at c t h u p (device s)" "p \<noteq> Over" "control_reaches dispatch c s0 s"
  shows "\<exists>s'. control_reaches dispatch c s0 s' \<and> pass_at c t h u (next_pass h p) (device s') \<and> control_at s' = control_at s \<and> owner s' = owner s \<and>
    handler_at s' = handler_at s \<and> interactive s' = interactive s \<and> fDeviceHasShutdown s' = fDeviceHasShutdown s \<and> to_come t u p = heard c (device s) (device s') @ to_come t u (next_pass h p) \<and>
    fEvents s' = fEvents s @ heard c (device s) (device s')"
proof -
  obtain dev where "step dispatch (device s) Work dev" "pass_at c t h u (next_pass h p) dev" "to_come t u p = heard c (device s) dev @ to_come t u (next_pass h p)"
    using pass_worker [OF assms(1-3)] by blast
  moreover from this(1) have "control_reaches dispatch c s0 (moved c dev s)" using control_step.works reaches_step [OF assms(4)] by blast
  ultimately show ?thesis by (intro exI [of _ "moved c dev s"]) (simp add: moved_def)
qed

lemma other_posts:
  assumes "c = fresh []"
  shows "\<exists>s. control_reaches dispatch c (new_Control control fresh (Some ''dds'') started) s \<and>
    pass_at c INITIALIZING_DEVICE InitWrapper DEVICE_READY Posted (device s) \<and> control_at s = No_controller \<and> handler_at s = Polls \<and> \<not> fDeviceHasShutdown s"
proof -
  let ?s = "new_Control control fresh (Some ''dds'') started"
  have d: "dev_at c IDLE Waiting None (device ?s)" using new_Control_dev_at [of c fresh] assms by simp
  have r: "row IDLE INIT_DEVICE = Some (INITIALIZING_DEVICE, DefaultFct)" "installed_handlers INIT_DEVICE = Some InitWrapper"
    by (simp_all add: row_def transition_table_def installed_handlers_def)
  let ?dev = "(device ?s)\<lparr>machine := (machine (device ?s))\<lparr>fState := INITIALIZING_DEVICE, fWorkAvailable := True, fWork := Some InitWrapper,
      regions := [INITIALIZING_DEVICE, OK]\<rparr>\<rparr>"
  have "step dispatch (device ?s) (Request (transition_of InitDevice)) ?dev" using dev_at_posts [OF d r] by (simp add: internal_event_def)
  then have "control_step dispatch c ?s (Other ''dds'') (moved c ?dev ?s)"
    by (rule control_step.other_asks [rotated 2]) (simp_all add: new_Control_def)
  then have "control_reaches dispatch c ?s (moved c ?dev ?s)" by (rule reaches_step [OF reaches_refl])
  moreover have "pass_at c INITIALIZING_DEVICE InitWrapper DEVICE_READY Posted ?dev"
    using dev_at_posted [OF d, of INITIALIZING_DEVICE InitWrapper] by (simp add: device_state_def)
  ultimately show ?thesis by (intro exI [of _ "moved c ?dev ?s"]) (simp add: moved_def new_Control_def)
qed

lemma shutdown_hangs:
  assumes "c = fresh []"
  shows "\<exists>s. control_reaches dispatch c (new_Control control fresh (Some ''dds'') started) s \<and> control_at s = Shutdown_waits \<and> fEvents s = [] \<and>
    dev_at c DEVICE_READY Waiting None (device s)"
proof -
  let ?s0 = "new_Control control fresh (Some ''dds'') started" and ?p = "pass_at c INITIALIZING_DEVICE InitWrapper DEVICE_READY"
  have se: "self_ending INITIALIZING_DEVICE InitWrapper DEVICE_READY" by (simp add: self_ending_def row_def transition_table_def)
  obtain s1 where s1: "control_reaches dispatch c ?s0 s1" "?p Posted (device s1)" "control_at s1 = No_controller" "handler_at s1 = Polls" "\<not> fDeviceHasShutdown s1"
    using other_posts [of c fresh control] assms by blast
  from worker_goes_on [OF se s1(2) _ s1(1)] obtain s2 where s2: "control_reaches dispatch c ?s0 s2" "?p Begun (device s2)"
    "control_at s2 = No_controller" "handler_at s2 = Polls" "\<not> fDeviceHasShutdown s2" using s1 by auto
  let ?s3 = "s2\<lparr>fDeviceShutdownRequested := True, handler_at := Joins\<rparr>"
  let ?s4 = "?s3\<lparr>owner := Some ''control'', control_at := Shutdown_begins, handler_at := Took_over\<rparr>"
  have "control_reaches dispatch c ?s0 ?s3" using reaches_step [OF s2(1) control_step.signal [OF s2(4)]] .
  moreover have "control_step dispatch c ?s3 Signal ?s4" by (rule control_step.joins) (use s2 in simp_all)
  ultimately have s4: "control_reaches dispatch c ?s0 ?s4" by (rule reaches_step)
  let ?s5 = "?s4\<lparr>control_at := Shutdown_knows (plugin_state (GetCurrentState (machine (device ?s4))))\<rparr>"
  have s5: "control_reaches dispatch c ?s0 ?s5" by (rule reaches_step [OF s4 control_step.begins]) simp
  have k: "control_at ?s5 = Shutdown_knows InitializingDevice" using dev_at_fState s2(2) by (simp add: GetCurrentState_def)
  have b: "?p Begun (device ?s5)" using s2(2) by simp
  from worker_goes_on [OF se b _ s5] obtain s6 where s6: "control_reaches dispatch c ?s0 s6" "?p At_work (device s6)" "control_at s6 = control_at ?s5" by auto
  from worker_goes_on [OF se s6(2) _ s6(1)] obtain s7 where s7: "control_reaches dispatch c ?s0 s7" "?p Closed (device s7)" "control_at s7 = control_at s6" by auto
  from worker_goes_on [OF se s7(2) _ s7(1)] obtain s8 where s8: "control_reaches dispatch c ?s0 s8" "?p Telling (device s8)" "control_at s8 = control_at s7" by auto
  from worker_goes_on [OF se s8(2) _ s8(1)] obtain s9 where s9: "control_reaches dispatch c ?s0 s9" "?p Over (device s9)" "control_at s9 = control_at s8" by auto
  have "control_at s9 = Shutdown_knows InitializingDevice" using s9(3) s8(3) s7(3) s6(3) k by simp
  from reaches_step [OF s9(1) control_step.empties [OF this]]
  have s10: "control_reaches dispatch c ?s0 (s9\<lparr>fEvents := [], control_at := Shutdown_decides InitializingDevice\<rparr>)" .
  have "control_reaches dispatch c ?s0 (s9\<lparr>fEvents := [], control_at := Shutdown_waits\<rparr>)"
    using reaches_step [OF s10 control_step.passes_by [of _ InitializingDevice]] by simp
  then show ?thesis using s9(2) by (intro exI [of _ "s9\<lparr>fEvents := [], control_at := Shutdown_waits\<rparr>"]) simp
qed

end

text \<open>
  C39: A state that the device reaches while the shutdown sequence begins can be lost, and the sequence then never ends: it
  asks for the state of the device first and empties the queue of states afterwards. When a signal arrives while
  another plugin has the device initialized, and the device is ready in between, the sequence drops that news,
  passes by the state that it asked for, and waits: queue and worker are empty, and none of the threads can go on.
\<close>

theorem shutdown_can_hang:
  assumes "msm_backend d" "c = fresh []"
  shows "\<exists>s. control_reaches d c (new_Control control fresh (Some ''dds'') started) s \<and> control_at s = Shutdown_waits \<and>
    GetCurrentState (machine (device s)) = DEVICE_READY \<and> (\<forall>a s'. thread a \<longrightarrow> \<not> control_step d c s a s')"
proof -
  obtain s where s: "control_reaches d c (new_Control control fresh (Some ''dds'') started) s" "control_at s = Shutdown_waits" "fEvents s = []"
    "dev_at c DEVICE_READY Waiting None (device s)" using msm_backend.shutdown_hangs [OF assms(1), of c fresh control] assms(2) by blast
  have "\<not> control_step d c s a s'" if "thread a" for a s'
    using that s hears_iff [OF s(2), of d c s'] dev_at_idles [OF s(4)] by (auto simp: thread_def works_iff)
  then show ?thesis using s(1,2) dev_at_fState [OF s(4)] by (auto simp: GetCurrentState_def)
qed

theorem shutdown_can_hang_witness:
  "\<exists>s. control_reaches run_to_completion 7 (new_Control ''static'' (\<lambda>_. 7) (Some ''dds'') started) s \<and> control_at s = Shutdown_waits \<and>
     (\<forall>a s'. thread a \<longrightarrow> \<not> control_step run_to_completion 7 s a s')"
  using shutdown_can_hang [OF rtc.msm_backend_axioms, of 7 "\<lambda>_. 7" "''static''"] by blast

lemma asking_32: "(st, pos, tr, e, t, h, u, w, 32) \<notin> asking"
  by (simp add: asking_def)

lemma listening_32:
  "(t, h, u, pos, hs, k) \<in> listening \<Longrightarrow> k + pass_left h p = 32 \<Longrightarrow>
   t = RUNNING \<and> h = RunWrapper \<and> u = READY \<and> pos = Start_waits 2 \<and> hs = [] \<and> p = Posted"
  unfolding listening_def by (elim insertE emptyE; cases p) simp_all

lemma life_32:
  assumes "life c 32 s"
  shows "control_at s = Start_waits 2 \<and> pass_at c RUNNING RunWrapper READY Posted (device s) \<and> fEvents s = [] \<and> undisturbed s"
  using assms
proof (cases rule: life.cases)
  case (life_listening t h u hs k p)
  have "t = RUNNING \<and> h = RunWrapper \<and> u = READY \<and> control_at s = Start_waits 2 \<and> hs = [] \<and> p = Posted"
    using listening_32 [OF life_listening(2)] life_listening(1) by simp
  then show ?thesis using life_listening by simp
qed (auto simp: asking_32 leaves_def split: if_splits)

lemma threads_run_handler: "threads_run d c n s s' \<Longrightarrow> handler_at s' = handler_at s"
proof (induction rule: threads_run.induct)
  case (run_step n s s' a s'')
  have "handler_at s'' = handler_at s'" using run_step.hyps(3,2)
    by (cases rule: control_step.cases) (auto simp: thread_def moved_def elim!: asks_cases)
  then show ?case using run_step.IH by simp
qed simp

context msm_backend
begin

text \<open>While a run goes on in static mode, the controller waits with an empty queue.\<close>

lemma life_running:
  assumes "c = fresh []"
  shows "\<exists>s. control_reaches dispatch c (new_Control ''static'' fresh None started) s \<and> control_at s = Static \<and> fEvents s = [] \<and>
    handler_at s = Polls \<and> worker_at (device s) = Working RunWrapper"
proof -
  let ?s0 = "new_Control ''static'' fresh None started" and ?p = "pass_at c RUNNING RunWrapper READY"
  have se: "self_ending RUNNING RunWrapper READY" by (simp add: self_ending_def)
  have "life c (17 + 32) ?s0" using new_Control_life [of c fresh] assms by simp
  then obtain s1 where "threads_run dispatch c 17 ?s0 s1" "life c 32 s1" using life_goes_on by blast
  then have s1: "control_reaches dispatch c ?s0 s1" "control_at s1 = Start_waits 2" "?p Posted (device s1)" "fEvents s1 = []" "\<not> interactive s1" "handler_at s1 = Polls"
    using threads_run_reaches threads_run_handler [of dispatch c 17 ?s0 s1] life_32 by (auto simp: undisturbed_def new_Control_def)
  from worker_goes_on [OF se s1(3) _ s1(1)] obtain s2 where s2: "control_reaches dispatch c ?s0 s2" "?p Begun (device s2)" "control_at s2 = Start_waits 2"
    "fEvents s2 = []" "\<not> interactive s2" "handler_at s2 = Polls" using s1 by auto
  from worker_goes_on [OF se s2(2) _ s2(1)] obtain s3 where s3: "control_reaches dispatch c ?s0 s3" "?p At_work (device s3)" "control_at s3 = Start_waits 2"
    "fEvents s3 = [Running]" "\<not> interactive s3" "handler_at s3 = Polls" using s2 by auto
  let ?r = "s3\<lparr>fEvents := [], control_at := Static\<rparr>"
  have "control_step dispatch c s3 Controller ?r"
    using control_step.start_hears [OF s3(3,4), of dispatch c] s3(5) by (simp add: after_startup_def numeral_2_eq_2)
  then have "control_reaches dispatch c ?s0 ?r" by (rule reaches_step [OF s3(1)])
  then show ?thesis using s3(2,6) by (intro exI [of _ ?r]) (simp add: dev_at_def)
qed

end

text \<open>
  In static mode a signal that arrives while the device runs makes the controller use the front of an empty queue, which is
  undefined: the wait for the next state ends when there is a state or when a shutdown is requested, and what
  follows reads the front of the queue in both cases.
\<close>

theorem signal_reads_empty_queue:
  assumes "msm_backend d" "c = fresh []"
  shows "\<exists>s s'. control_reaches d c (new_Control ''static'' fresh None started) s \<and> control_at s = Static \<and> fEvents s = [] \<and>
    worker_at (device s) = Working RunWrapper \<and> control_step d c s Signal s' \<and>
    control_step d c s' Controller (s'\<lparr>control_at := Front_of_empty\<rparr>)"
proof -
  obtain s where s: "control_reaches d c (new_Control ''static'' fresh None started) s" "control_at s = Static" "fEvents s = []"
    "handler_at s = Polls" "worker_at (device s) = Working RunWrapper" using msm_backend.life_running [OF assms(1), of c fresh] assms(2) by blast
  let ?s = "s\<lparr>fDeviceShutdownRequested := True, handler_at := Joins\<rparr>"
  have "control_step d c ?s Controller (?s\<lparr>control_at := Front_of_empty\<rparr>)"
    by (rule control_step.static_signalled) (use s in simp_all)
  then show ?thesis using s control_step.signal [OF s(4), of d c] by blast
qed

theorem signal_reads_empty_queue_witness:
  "\<exists>s. control_reaches run_to_completion 7 (new_Control ''static'' (\<lambda>_. 7) None started) s \<and> control_at s = Front_of_empty"
proof -
  obtain s s' where s: "control_reaches run_to_completion 7 (new_Control ''static'' (\<lambda>_. 7) None started) s"
    "control_step run_to_completion 7 s Signal s'" "control_step run_to_completion 7 s' Controller (s'\<lparr>control_at := Front_of_empty\<rparr>)"
    using signal_reads_empty_queue [OF rtc.msm_backend_axioms, of 7 "\<lambda>_. 7"] by blast
  then have "control_reaches run_to_completion 7 (new_Control ''static'' (\<lambda>_. 7) None started) (s'\<lparr>control_at := Front_of_empty\<rparr>)"
    using reaches_step by blast
  then show ?thesis by (intro exI conjI) (assumption, simp)
qed

end
