(* ===== verification/Plugin_Manager.thy ===== *)
theory Plugin_Manager
  imports FairMQ_Prelude
begin

text \<open>
  Loading and instantiation of plugins, \<open>fairmq/PluginManager.{h,cxx}\<close>, and the order in which
  \<open>fairmq/DeviceRunner.cxx\<close> puts the parts of a process together. The file system, the loading of shared
  libraries by \<open>boost::dll\<close> and the parsing of the command line are arguments: what kind of file a path names,
  what loading a plugin from a place gives, the values of the two options of the manager. Factories of plugins
  are functions from the services to a plugin or an exception.
\<close>

section \<open>The manager\<close>

datatype path_kind = Missing | Directory | Other_file

text \<open>The places from which the symbols of a plugin are loaded: the program itself or a directory.\<close>

datatype place = Program | In_directory string

datatype ('f, 'o) load_result = Loaded 'f "'o option" | No_such_file | Load_failed

record ('f, 'o, 'p) PluginManager =
  fSearchPaths :: "string list"
  fPluginFactories :: "string \<rightharpoonup> 'f"
  fPlugins :: "(string \<times> 'p) list"
  fPluginOrder :: "string list"
  fPluginProgOptions :: "string \<rightharpoonup> 'o"

definition new_PluginManager :: "('f, 'o, 'p) PluginManager" where
  "new_PluginManager =
     \<lparr>fSearchPaths = [''.''], fPluginFactories = Map.empty, fPlugins = [], fPluginOrder = [], fPluginProgOptions = Map.empty\<rparr>"

definition ValidateSearchPath :: "(string \<Rightarrow> path_kind) \<Rightarrow> string \<Rightarrow> unit outcome" where
  "ValidateSearchPath kind path =
     (if path = [] then Throws BadSearchPath
      else if kind path = Other_file then Throws BadSearchPath
      else Returns ())"

definition SetSearchPaths ::
    "(string \<Rightarrow> path_kind) \<Rightarrow> string list \<Rightarrow> ('f, 'o, 'p) PluginManager \<Rightarrow> ('f, 'o, 'p) PluginManager outcome" where
  "SetSearchPaths kind searchPaths m =
     and_then (fold_outcome (\<lambda>path _. ValidateSearchPath kind path) searchPaths ()) (\<lambda>_. Returns (m\<lparr>fSearchPaths := searchPaths\<rparr>))"

definition AppendSearchPath ::
    "(string \<Rightarrow> path_kind) \<Rightarrow> string \<Rightarrow> ('f, 'o, 'p) PluginManager \<Rightarrow> ('f, 'o, 'p) PluginManager outcome" where
  "AppendSearchPath kind path m =
     and_then (ValidateSearchPath kind path) (\<lambda>_. Returns (m\<lparr>fSearchPaths := fSearchPaths m @ [path]\<rparr>))"

definition PrependSearchPath ::
    "(string \<Rightarrow> path_kind) \<Rightarrow> string \<Rightarrow> ('f, 'o, 'p) PluginManager \<Rightarrow> ('f, 'o, 'p) PluginManager outcome" where
  "PrependSearchPath kind path m =
     and_then (ValidateSearchPath kind path) (\<lambda>_. Returns (m\<lparr>fSearchPaths := path # fSearchPaths m\<rparr>))"

subsection \<open>Loading\<close>

text \<open>What the manager keeps of a plugin that was loaded; options of a name that has some are kept as they are.\<close>

definition loaded :: "string \<Rightarrow> 'f \<Rightarrow> 'o option \<Rightarrow> ('f, 'o, 'p) PluginManager \<Rightarrow> ('f, 'o, 'p) PluginManager" where
  "loaded pluginName factory options m =
     m\<lparr>fPluginFactories := (fPluginFactories m)(pluginName \<mapsto> factory),
       fPluginProgOptions :=
         (case options of
            None \<Rightarrow> fPluginProgOptions m
          | Some opts \<Rightarrow> if fPluginProgOptions m pluginName = None then (fPluginProgOptions m)(pluginName \<mapsto> opts) else fPluginProgOptions m),
       fPluginOrder := fPluginOrder m @ [pluginName]\<rparr>"

definition LoadPluginStatic ::
    "(place \<Rightarrow> string \<Rightarrow> ('f, 'o) load_result) \<Rightarrow> string \<Rightarrow> ('f, 'o, 'p) PluginManager \<Rightarrow> ('f, 'o, 'p) PluginManager outcome" where
  "LoadPluginStatic load pluginName m =
     (if fPluginFactories m pluginName \<noteq> None then Returns m
      else case load Program pluginName of
             Loaded factory options \<Rightarrow> Returns (loaded pluginName factory options m)
           | _ \<Rightarrow> Throws PluginLoadError)"

definition LoadPluginPrelinkedDynamic ::
    "(place \<Rightarrow> string \<Rightarrow> ('f, 'o) load_result) \<Rightarrow> string \<Rightarrow> ('f, 'o, 'p) PluginManager \<Rightarrow> ('f, 'o, 'p) PluginManager outcome" where
  "LoadPluginPrelinkedDynamic load pluginName m =
     (if fPluginFactories m pluginName \<noteq> None then Returns m
      else case load Program pluginName of
             Loaded factory options \<Rightarrow> Returns (loaded pluginName factory options m)
           | _ \<Rightarrow> Throws PluginLoadError)"

fun search_loop ::
    "(place \<Rightarrow> string \<Rightarrow> ('f, 'o) load_result) \<Rightarrow> string \<Rightarrow> string list \<Rightarrow> ('f, 'o, 'p) PluginManager \<Rightarrow> ('f, 'o, 'p) PluginManager outcome" where
  "search_loop load pluginName [] m = Throws PluginLoadError"
| "search_loop load pluginName (searchPath # paths) m =
     (case load (In_directory searchPath) pluginName of
        Loaded factory options \<Rightarrow> Returns (loaded pluginName factory options m)
      | No_such_file \<Rightarrow> search_loop load pluginName paths m
      | Load_failed \<Rightarrow> Throws PluginLoadError)"

definition LoadPluginDynamic ::
    "(place \<Rightarrow> string \<Rightarrow> ('f, 'o) load_result) \<Rightarrow> string \<Rightarrow> ('f, 'o, 'p) PluginManager \<Rightarrow> ('f, 'o, 'p) PluginManager outcome" where
  "LoadPluginDynamic load pluginName m =
     (if fPluginFactories m pluginName \<noteq> None then Returns m else search_loop load pluginName (fSearchPaths m) m)"

definition LoadPlugin ::
    "(place \<Rightarrow> string \<Rightarrow> ('f, 'o) load_result) \<Rightarrow> string \<Rightarrow> ('f, 'o, 'p) PluginManager \<Rightarrow> ('f, 'o, 'p) PluginManager outcome" where
  "LoadPlugin load pluginName m =
     (if take 2 pluginName = ''p:'' then LoadPluginPrelinkedDynamic load (drop 2 pluginName) m
      else if take 2 pluginName = ''d:'' then LoadPluginDynamic load (drop 2 pluginName) m
      else if take 2 pluginName = ''s:'' then LoadPluginStatic load (drop 2 pluginName) m
      else LoadPluginDynamic load pluginName m)"

definition LoadPlugins ::
    "(place \<Rightarrow> string \<Rightarrow> ('f, 'o) load_result) \<Rightarrow> string list \<Rightarrow> ('f, 'o, 'p) PluginManager \<Rightarrow> ('f, 'o, 'p) PluginManager outcome" where
  "LoadPlugins load pluginNames m = fold_outcome (LoadPlugin load) pluginNames m"

text \<open>
  The constructor with arguments: the values of \<open>plugin-search-path\<close> are sorted into those that start with \<open><\<close>, with
  \<open>>\<close> and others. An option that was not given is \<open>None\<close>.
\<close>

definition option_paths :: "string list option \<Rightarrow> string list \<times> string list \<times> string list" where
  "option_paths opts =
     (let paths = (case opts of None \<Rightarrow> [] | Some ps \<Rightarrow> ps)
      in (map tl (filter (\<lambda>p. take 1 p = ''<'') paths), map tl (filter (\<lambda>p. take 1 p = ''>'') paths),
          filter (\<lambda>p. take 1 p \<noteq> ''<'' \<and> take 1 p \<noteq> ''>'') paths))"

definition PluginManager_args ::
    "(string \<Rightarrow> path_kind) \<Rightarrow> (place \<Rightarrow> string \<Rightarrow> ('f, 'o) load_result) \<Rightarrow> string list option \<Rightarrow> string list option \<Rightarrow>
     ('f, 'o, 'p) PluginManager outcome" where
  "PluginManager_args kind load search_path plugins =
     (let (prepends, appends, searchPaths) = option_paths search_path
      in and_then (SetSearchPaths kind searchPaths new_PluginManager)
           (\<lambda>m. and_then (fold_outcome (PrependSearchPath kind) prepends m)
              (\<lambda>m. and_then (fold_outcome (AppendSearchPath kind) appends m)
                 (\<lambda>m. case plugins of None \<Rightarrow> Returns m | Some names \<Rightarrow> LoadPlugins load names m))))"

subsection \<open>Instantiation\<close>

text \<open>
  A factory is given the services, which the constructor of the plugin may change. A name without a factory makes
  \<open>operator[]\<close> insert an empty function, whose call throws.
\<close>

type_synonym ('s, 'p) factory = "'s \<Rightarrow> ('p \<times> 's) outcome"

definition InstantiatePlugin ::
    "string \<Rightarrow> (('s, 'p) factory, 'o, 'p) PluginManager \<times> 's \<Rightarrow> ((('s, 'p) factory, 'o, 'p) PluginManager \<times> 's) outcome" where
  "InstantiatePlugin pluginName = (\<lambda>(m, services).
     if map_of (fPlugins m) pluginName \<noteq> None then Returns (m, services)
     else case fPluginFactories m pluginName of
            None \<Rightarrow> Throws RuntimeError
          | Some factory \<Rightarrow>
              map_outcome_result (\<lambda>(p, services). (m\<lparr>fPlugins := fPlugins m @ [(pluginName, p)]\<rparr>, services)) (factory services))"

fun instantiation_error :: "'a outcome \<Rightarrow> 'a outcome" where
  "instantiation_error (Throws e) = Throws PluginInstantiationError"
| "instantiation_error (Returns r) = Returns r"
| "instantiation_error Exits = Exits"
| "instantiation_error Undefined = Undefined"

definition InstantiatePlugins ::
    "(('s, 'p) factory, 'o, 'p) PluginManager \<times> 's \<Rightarrow> ((('s, 'p) factory, 'o, 'p) PluginManager \<times> 's) outcome" where
  "InstantiatePlugins = (\<lambda>(m, services).
     fold_outcome (\<lambda>pluginName s. instantiation_error (InstantiatePlugin pluginName s)) (fPluginOrder m) (m, services))"

section \<open>The runner\<close>

text \<open>
  What \<open>DeviceRunner::Run\<close> is given: the four hooks, as functions on the manager; whether \<open>ParseAll\<close> asks to leave,
  whether the last hook made a device, the two options that end the run early; and the services and the
  run of the state machine, which ends with the services or an exception. The printing, the registration of
  options and channel endpoints, and the wait for the release of control before the return are left out.
\<close>

datatype hook = Hook_LoadPlugins | Hook_SetCustomCmdLineOptions | Hook_ModifyRawCmdLineArgs | Hook_InstantiateDevice

record ('m, 's) runner =
  hooks :: "hook \<Rightarrow> 'm \<Rightarrow> 'm outcome"
  parse_leaves :: bool
  has_device :: bool
  print_channels :: bool
  print_version :: bool
  services :: 's
  state_machine :: "'s \<Rightarrow> 's outcome"

text \<open>The code that is returned, with whether \<open>END\<close> was requested before the device ran, and what has run.\<close>

datatype ('m, 's) run_result = Left_early int bool | Ran int 'm 's

definition Run_runner ::
    "(place \<Rightarrow> string \<Rightarrow> (('s, 'p) factory, 'o) load_result) \<Rightarrow> ((('s, 'p) factory, 'o, 'p) PluginManager, 's) runner \<Rightarrow>
     (('s, 'p) factory, 'o, 'p) PluginManager \<Rightarrow> ((('s, 'p) factory, 'o, 'p) PluginManager, 's) run_result outcome" where
  "Run_runner load r m =
     and_then (hooks r Hook_LoadPlugins m) (\<lambda>m.
     and_then (LoadPlugin load ''s:control'' m) (\<lambda>m.
     and_then (hooks r Hook_SetCustomCmdLineOptions m) (\<lambda>m.
     and_then (hooks r Hook_ModifyRawCmdLineArgs m) (\<lambda>m.
       if parse_leaves r then Returns (Left_early 0 False)
       else and_then (hooks r Hook_InstantiateDevice m) (\<lambda>m.
         if \<not> has_device r then Returns (Left_early 1 False)
         else if print_channels r then Returns (Left_early 0 True)
         else if print_version r then Returns (Left_early 0 True)
         else and_then (InstantiatePlugins (m, services r)) (\<lambda>(m, s).
                map_outcome_result (\<lambda>s. Ran 0 m s) (state_machine r s)))))))"

definition RunWithExceptionHandlers ::
    "(place \<Rightarrow> string \<Rightarrow> (('s, 'p) factory, 'o) load_result) \<Rightarrow> ((('s, 'p) factory, 'o, 'p) PluginManager, 's) runner \<Rightarrow>
     (('s, 'p) factory, 'o, 'p) PluginManager \<Rightarrow> ((('s, 'p) factory, 'o, 'p) PluginManager, 's) run_result outcome" where
  "RunWithExceptionHandlers load r m =
     (case Run_runner load r m of Throws e \<Rightarrow> Returns (Left_early 1 False) | res \<Rightarrow> res)"

section \<open>Which plugins there are, and in which order\<close>

text \<open>The plugins that are loaded are those in the list of their order, each once.\<close>

definition plugins_ok :: "('f, 'o, 'p) PluginManager \<Rightarrow> bool" where
  "plugins_ok m \<longleftrightarrow> distinct (fPluginOrder m) \<and> set (fPluginOrder m) = dom (fPluginFactories m)"

definition bare_name :: "string \<Rightarrow> string" where
  "bare_name pluginName = (if take 2 pluginName \<in> {''p:'', ''d:'', ''s:''} then drop 2 pluginName else pluginName)"

lemma loaded_simps [simp]:
  "fPluginOrder (loaded n f opts m) = fPluginOrder m @ [n]" "fPlugins (loaded n f opts m) = fPlugins m"
  "fPluginFactories (loaded n f opts m) = (fPluginFactories m)(n \<mapsto> f)" "fSearchPaths (loaded n f opts m) = fSearchPaths m"
  by (simp_all add: loaded_def)

lemma search_loop_loads: "search_loop load n paths m = Returns m' \<Longrightarrow> \<exists>f opts. m' = loaded n f opts m"
  by (induction load n paths m rule: search_loop.induct) (auto split: load_result.splits)

lemma LoadPlugin_loads:
  assumes "LoadPlugin load n m = Returns m'"
  shows "if fPluginFactories m (bare_name n) \<noteq> None then m' = m else \<exists>f opts. m' = loaded (bare_name n) f opts m"
  using assms search_loop_loads
  by (fastforce simp: LoadPlugin_def bare_name_def LoadPluginPrelinkedDynamic_def LoadPluginDynamic_def LoadPluginStatic_def
      split: if_splits load_result.splits)

lemma LoadPlugin_ok: "LoadPlugin load n m = Returns m' \<Longrightarrow> plugins_ok m \<Longrightarrow> plugins_ok m'"
  using LoadPlugin_loads [of load n m m'] by (auto simp: plugins_ok_def split: if_splits)

text \<open>The constructors of plugins called one after the other.\<close>

fun construct_all :: "(string \<times> ('s, 'p) factory) list \<Rightarrow> 's \<Rightarrow> ((string \<times> 'p) list \<times> 's) outcome" where
  "construct_all [] s = Returns ([], s)"
| "construct_all ((n, f) # fs) s =
     and_then (f s) (\<lambda>(p, s). map_outcome_result (\<lambda>(ps, s). ((n, p) # ps, s)) (construct_all fs s))"

lemma instantiate_names:
  assumes "distinct names" "set names \<subseteq> dom (fPluginFactories m)" "set names \<inter> fst ` set (fPlugins m) = {}"
  shows "fold_outcome (\<lambda>n s. instantiation_error (InstantiatePlugin n s)) names (m, s) =
    instantiation_error (map_outcome_result (\<lambda>(ps, s). (m\<lparr>fPlugins := fPlugins m @ ps\<rparr>, s))
      (construct_all (map (\<lambda>n. (n, the (fPluginFactories m n))) names) s))"
  using assms
proof (induction names arbitrary: m s)
  case Nil
  then show ?case by (simp add: map_outcome_result_def)
next
  case (Cons n names)
  then obtain f where f: "fPluginFactories m n = Some f" by auto
  have new: "map_of (fPlugins m) n = None" using Cons.prems(3) by (simp add: map_of_eq_None_iff)
  show ?case
  proof (cases "f s")
    case (Returns r)
    obtain p s1 where p: "r = (p, s1)" by (cases r)
    let ?m = "m\<lparr>fPlugins := fPlugins m @ [(n, p)]\<rparr>"
    have "fold_outcome (\<lambda>n s. instantiation_error (InstantiatePlugin n s)) names (?m, s1) =
      instantiation_error (map_outcome_result (\<lambda>(ps, s). (?m\<lparr>fPlugins := fPlugins ?m @ ps\<rparr>, s))
        (construct_all (map (\<lambda>n. (n, the (fPluginFactories ?m n))) names) s1))"
      using Cons.prems by (intro Cons.IH) auto
    then show ?thesis using f new Returns p
      by (cases "construct_all (map (\<lambda>n. (n, the (fPluginFactories m n))) names) s1")
        (simp_all add: InstantiatePlugin_def map_outcome_result_def split: prod.splits)
  qed (use f new in \<open>simp_all add: InstantiatePlugin_def map_outcome_result_def\<close>)
qed

section \<open>Properties\<close>

lemma ValidateSearchPath_Returns: "ValidateSearchPath kind p = Returns u \<longleftrightarrow> p \<noteq> [] \<and> kind p \<noteq> Other_file"
  by (simp add: ValidateSearchPath_def)

lemma LoadPlugin_searchPaths: "LoadPlugin load n m = Returns m' \<Longrightarrow> fSearchPaths m' = fSearchPaths m"
  using LoadPlugin_loads [of load n m m'] by (auto split: if_splits)

lemma LoadPlugins_searchPaths: "LoadPlugins load names m = Returns m' \<Longrightarrow> fSearchPaths m' = fSearchPaths m"
  unfolding LoadPlugins_def
  by (rule fold_outcome_invariant [where I = "\<lambda>x. fSearchPaths x = fSearchPaths m"]) (auto dest: LoadPlugin_searchPaths)

lemma prepend_all:
  "fold_outcome (PrependSearchPath kind) ps m = Returns m' \<Longrightarrow> fSearchPaths m' = rev ps @ fSearchPaths m"
  by (induction ps arbitrary: m) (auto simp: PrependSearchPath_def and_then_Returns_iff)

lemma append_all:
  "fold_outcome (AppendSearchPath kind) ps m = Returns m' \<Longrightarrow> fSearchPaths m' = fSearchPaths m @ ps"
  by (induction ps arbitrary: m) (auto simp: AppendSearchPath_def and_then_Returns_iff)


definition example_load :: "place \<Rightarrow> string \<Rightarrow> ((nat, nat) factory, nat) load_result" where
  "example_load place n =
     (if place = Program \<and> n = ''control'' then Loaded (\<lambda>s. Returns (s, Suc s)) (Some 0)
      else if place = In_directory ''/lib'' then Loaded (\<lambda>s. Returns (s, Suc s)) None
      else No_such_file)"


lemma LoadPlugins_keep:
  assumes "LoadPlugins load names m = Returns m'" "plugins_ok m \<and> fPlugins m = [] \<and> c \<notin> set (fPluginOrder m)" "c \<notin> bare_name ` set names"
  shows "plugins_ok m' \<and> fPlugins m' = [] \<and> c \<notin> set (fPluginOrder m')"
  using assms(1) unfolding LoadPlugins_def
proof (rule fold_outcome_invariant [where I = "\<lambda>x. plugins_ok x \<and> fPlugins x = [] \<and> c \<notin> set (fPluginOrder x)"])
  fix n x x' assume n: "n \<in> set names" and x: "plugins_ok x \<and> fPlugins x = [] \<and> c \<notin> set (fPluginOrder x)" and l: "LoadPlugin load n x = Returns x'"
  have "c \<noteq> bare_name n" using n assms(3) by auto
  then show "plugins_ok x' \<and> fPlugins x' = [] \<and> c \<notin> set (fPluginOrder x')"
    using x LoadPlugin_ok [OF l] LoadPlugin_loads [OF l] by (auto split: if_splits)
qed (use assms(2) in auto)

lemma construct_all_names: "construct_all fs s = Returns (ps, s') \<Longrightarrow> map fst ps = map fst fs"
proof (induction fs arbitrary: s ps)
  case (Cons nf fs)
  obtain n f where nf: "nf = (n, f)" by (cases nf)
  with Cons.prems obtain p s1 ps1 where "construct_all fs s1 = Returns (ps1, s')" "ps = (n, p) # ps1"
    by (auto simp: and_then_Returns_iff map_outcome_result_def)
  then show ?case using Cons.IH nf by simp
qed simp

definition example_runner :: "(((nat, nat) factory, nat, nat) PluginManager, nat) runner" where
  "example_runner =
     \<lparr>hooks = (\<lambda>h. if h = Hook_LoadPlugins then LoadPlugins example_load [''dds'', ''d:pmix'', ''dds''] else Returns),
      parse_leaves = False, has_device = True, print_channels = False, print_version = False, services = 0, state_machine = Returns\<rparr>"

text \<open>
  C20: When a device has run to its end, the plugins were constructed in the order in which they were loaded, each once and
  each with the services that the ones before it left, and the builtin \<open>control\<close> plugin was the last, so that every other
  plugin could take control of the device before it. This holds when the hooks do no more than load
  plugins in the hook for that, and \<open>control\<close> was not loaded before.
\<close>

theorem control_plugin_is_last:
  assumes run: "Run_runner load r m = Returns (Ran code m' s')" and m: "plugins_ok m" "fPlugins m = []"
    and hooks: "hooks r Hook_LoadPlugins = LoadPlugins load names" "\<And>h m. h \<noteq> Hook_LoadPlugins \<Longrightarrow> hooks r h m = Returns m"
    and new: "''control'' \<notin> set (fPluginOrder m)" "''control'' \<notin> bare_name ` set names"
  shows "code = 0 \<and> fPluginOrder m' \<noteq> [] \<and> last (fPluginOrder m') = ''control'' \<and> distinct (fPluginOrder m') \<and> map fst (fPlugins m') = fPluginOrder m' \<and>
    (\<exists>s. construct_all (map (\<lambda>n. (n, the (fPluginFactories m' n))) (fPluginOrder m')) (services r) = Returns (fPlugins m', s) \<and>
      state_machine r s = Returns s')"
proof -
  from run hooks obtain m1 m2 s where l: "LoadPlugins load names m = Returns m1" "LoadPlugin load ''s:control'' m1 = Returns m2"
    and i: "InstantiatePlugins (m2, services r) = Returns (m', s)" and e: "state_machine r s = Returns s'" "code = 0"
    by (auto simp: Run_runner_def and_then_Returns_iff map_outcome_result_def split: if_splits)
  have m1: "plugins_ok m1 \<and> fPlugins m1 = [] \<and> ''control'' \<notin> set (fPluginOrder m1)"
    by (rule LoadPlugins_keep [OF l(1)]) (use m new in auto)
  then have "fPluginFactories m1 ''control'' = None" by (auto simp: plugins_ok_def)
  then obtain f opts where "m2 = loaded ''control'' f opts m1" using LoadPlugin_loads [OF l(2)] by (auto simp: bare_name_def)
  then have m2: "plugins_ok m2" "fPlugins m2 = []" "fPluginOrder m2 = fPluginOrder m1 @ [''control'']"
    using m1 LoadPlugin_ok [OF l(2)] by simp_all
  let ?fs = "map (\<lambda>n. (n, the (fPluginFactories m2 n))) (fPluginOrder m2)"
  have "InstantiatePlugins (m2, services r) =
      instantiation_error (map_outcome_result (\<lambda>(ps, s). (m2\<lparr>fPlugins := fPlugins m2 @ ps\<rparr>, s)) (construct_all ?fs (services r)))"
    unfolding InstantiatePlugins_def split_conv by (rule instantiate_names) (use m2 in \<open>auto simp: plugins_ok_def\<close>)
  with i m2(2) obtain ps where ps: "construct_all ?fs (services r) = Returns (ps, s)" "m' = m2\<lparr>fPlugins := ps\<rparr>"
    by (cases "construct_all ?fs (services r)") (auto simp: map_outcome_result_def)
  then show ?thesis using e m2 construct_all_names [OF ps(1)] by (auto simp: plugins_ok_def comp_def)
qed

theorem control_plugin_is_last_witness:
  "\<exists>m' s'. Run_runner example_load example_runner (new_PluginManager\<lparr>fSearchPaths := [''/lib'']\<rparr>) = Returns (Ran 0 m' s') \<and>
     fPluginOrder m' = [''dds'', ''pmix'', ''control''] \<and> last (fPluginOrder m') = ''control'' \<and> map fst (fPlugins m') = fPluginOrder m'"
proof -
  let ?m = "new_PluginManager\<lparr>fSearchPaths := [''/lib'']\<rparr> :: ((nat, nat) factory, nat, nat) PluginManager"
  obtain m' s' where r: "Run_runner example_load example_runner ?m = Returns (Ran 0 m' s')" "fPluginOrder m' = [''dds'', ''pmix'', ''control'']"
    by (simp add: Run_runner_def example_runner_def LoadPlugins_def LoadPlugin_def LoadPluginDynamic_def LoadPluginStatic_def example_load_def
        new_PluginManager_def loaded_def InstantiatePlugins_def InstantiatePlugin_def map_outcome_result_def)
  have "plugins_ok ?m" "fPlugins ?m = []" "hooks example_runner Hook_LoadPlugins = LoadPlugins example_load [''dds'', ''d:pmix'', ''dds'']"
    "\<And>h m. h \<noteq> Hook_LoadPlugins \<Longrightarrow> hooks example_runner h m = Returns m" "''control'' \<notin> set (fPluginOrder ?m)"
    "''control'' \<notin> bare_name ` set [''dds'', ''d:pmix'', ''dds'']"
    by (simp_all add: plugins_ok_def new_PluginManager_def example_runner_def bare_name_def)
  from control_plugin_is_last [OF r(1) this] r show ?thesis by blast
qed

end
