(* ===== verification/Network.thy ===== *)
theory Network
  imports FairMQ_Prelude
begin

text \<open>
  The network helpers of \<open>fairmq/tools/Network.cxx\<close>. The answers of the operating system and of the
  resolver are parameters: \<open>ifaddrs\<close> is what \<open>getifaddrs\<close> lists (\<open>None\<close> where it fails), each entry
  with its name and, where it has an address, whether that is an IPv4 one and the numeric host that
  \<open>getnameinfo\<close> gives for it (\<open>None\<close> where that fails); \<open>route\<close> is the output of the command that
  prints the default route, in the pieces that \<open>fgets\<close> reads; \<open>resolve\<close> lists the endpoints of a
  host name, or throws.
\<close>

type_synonym ifaddr = "string \<times> (bool \<times> string option) option"

text \<open>The result code and the map filled so far; a failing \<open>getnameinfo\<close> ends the loop.\<close>

fun collect_ips :: "ifaddr list \<Rightarrow> (string \<times> string) list \<Rightarrow> int \<times> (string \<times> string) list" where
  "collect_ips [] addressMap = (0, addressMap)"
| "collect_ips ((name, addr) # ifas) addressMap =
     (case addr of
        None \<Rightarrow> collect_ips ifas addressMap
      | Some (inet, host) \<Rightarrow>
          if inet
          then (case host of
                  None \<Rightarrow> (-1, addressMap)
                | Some h \<Rightarrow> collect_ips ifas (map_insert name h addressMap))
          else collect_ips ifas addressMap)"

definition getHostIPs :: "ifaddr list option \<Rightarrow> int \<times> (string \<times> string) list" where
  "getHostIPs ifaddrs =
     (case ifaddrs of
        None \<Rightarrow> (-1, [])
      | Some ifas \<Rightarrow> collect_ips ifas [])"

definition getInterfaceIP :: "ifaddr list option \<Rightarrow> string \<Rightarrow> string" where
  "getInterfaceIP ifaddrs interface =
     (let (_, IPs) = getHostIPs ifaddrs
      in case map_of IPs interface of Some ip \<Rightarrow> ip | None \<Rightarrow> '''')"

definition is_space :: "char \<Rightarrow> bool" where
  "is_space c \<longleftrightarrow> c \<in> {CHR '' '', CHR 0x09, CHR 0x0A, CHR 0x0B, CHR 0x0C, CHR 0x0D}"

definition trim :: "string \<Rightarrow> string" where
  "trim s = rev (dropWhile is_space (rev (dropWhile is_space s)))"

definition getDefaultRouteNetworkInterface :: "string list option \<Rightarrow> string" where
  "getDefaultRouteNetworkInterface route =
     (case route of
        None \<Rightarrow> ''''
      | Some pieces \<Rightarrow> trim (concat pieces))"

definition getIpFromHostname :: "(string \<Rightarrow> (bool \<times> string) list outcome) \<Rightarrow> string \<Rightarrow> string" where
  "getIpFromHostname resolve hostname =
     (case resolve hostname of
        Returns endpoints \<Rightarrow>
          (case find fst endpoints of
             Some (_, address) \<Rightarrow> address
           | None \<Rightarrow> '''')
      | _ \<Rightarrow> '''')"

lemma collect_ips_keeps:
  "map_of m n = Some ip \<Longrightarrow> map_of (snd (collect_ips ifas m)) n = Some ip"
proof (induction ifas m rule: collect_ips.induct)
  case (2 name addr ifas m)
  then show ?case by (auto simp: map_of_map_insert split: option.splits)
qed simp

text \<open>The address of an interface is the first IPv4 address listed for its name.\<close>

lemma getInterfaceIP_first:
  assumes "ifaddrs = Some (before @ (n, Some (True, Some ip)) # after)"
    and "\<forall>(m, a) \<in> set before. m \<noteq> n \<and> (\<forall>h. a = Some (True, h) \<longrightarrow> h \<noteq> None)"
  shows "getInterfaceIP ifaddrs n = ip"
proof -
  have "map_of (snd (collect_ips (before @ (n, Some (True, Some ip)) # after) m)) n = Some ip" if "map_of m n = None" for m
    using assms(2) that
  proof (induction before arbitrary: m)
    case Nil
    then show ?case by (simp add: collect_ips_keeps map_of_map_insert)
  next
    case (Cons b bs)
    obtain k a where b: "b = (k, a)" by (cases b)
    have "k \<noteq> n" using Cons.prems(1) b by simp
    then have m': "map_of (map_insert k h m) n = None" for h using Cons.prems(2) by (simp add: map_of_map_insert)
    show ?case
    proof (cases a)
      case None
      then show ?thesis using Cons b by simp
    next
      case (Some ih)
      then show ?thesis using Cons b m' by (cases ih; cases "snd ih") auto
    qed
  qed
  from this [of "[]"] show ?thesis
    by (simp add: getInterfaceIP_def getHostIPs_def assms(1) case_prod_unfold)
qed

end
