(* ===== verification/Device.thy ===== *)
theory Device
  imports Device_State_Machine Prog_Options Network
begin

text \<open>
  The initialisation of a device, \<open>fairmq/FairMQDevice.{h,cxx}\<close>: taking over the configuration,
  adding transports, validating and attaching channels, and the handlers around the user's hooks. The
  worker runs these handlers; how their state changes interleave with those of other threads is the
  subject of \<open>Device_Worker\<close>, so that here a device records the events it requests and the states it
  announces. The sockets, the network and the random ports are parameters, collected in the record
  \<open>environment\<close>.
\<close>

section \<open>Devices and their environment\<close>

record ('s, 'f) environment =
  env_socket :: "'s FairMQSocket"
  CreateSocket :: "factory \<Rightarrow> string \<Rightarrow> string \<Rightarrow> 's outcome"
  has_nanomsg :: bool
  has_ofi :: bool
  new_uuid :: string
  env_ifaddrs :: "ifaddr list option"
  env_route :: "string list option"
  env_resolve :: "string \<Rightarrow> (bool \<times> string) list outcome"
  randomPort :: "nat \<Rightarrow> int \<Rightarrow> int \<Rightarrow> int"
  env_printers :: "'f printers"
  float_zero :: 'f

record ('s, 'f, 'c) FairMQDevice =
  dv_config :: "('s, 'f, 'c) FairMQProgOptions"
  dv_factory :: "factory option"
  fTransports :: "(Transport \<times> factory) list"
  fChannels :: "'s channel_map"
  fId :: string
  fRate :: 'f
  fPortRangeMin :: int
  fPortRangeMax :: int
  fDefaultTransportType :: Transport
  fInitialValidationFinished :: bool
  draws :: nat
  requested :: "Event list"
  announced_states :: "State list"

definition new_FairMQDevice ::
    "'f \<Rightarrow> ('s, 'f, 'c) FairMQProgOptions \<Rightarrow> ('s, 'f, 'c) FairMQDevice" where
  "new_FairMQDevice zero config =
     \<lparr>dv_config = config, dv_factory = None, fTransports = [], fChannels = [], fId = '''', fRate = zero,
      fPortRangeMin = 22000, fPortRangeMax = 32000, fDefaultTransportType = DEFAULT,
      fInitialValidationFinished = False, draws = 0, requested = [], announced_states = []\<rparr>"

definition request :: "Event \<Rightarrow> ('s, 'f, 'c) FairMQDevice \<Rightarrow> ('s, 'f, 'c) FairMQDevice" where
  "request e d = d\<lparr>requested := requested d @ [e]\<rparr>"

definition announce :: "State \<Rightarrow> ('s, 'f, 'c) FairMQDevice \<Rightarrow> ('s, 'f, 'c) FairMQDevice" where
  "announce s d = d\<lparr>announced_states := announced_states d @ [s]\<rparr>"

definition GetChannel :: "string \<Rightarrow> nat \<Rightarrow> ('s, 'f, 'c) FairMQDevice \<Rightarrow> 's FairMQChannel outcome" where
  "GetChannel channelName index d =
     and_then (map_at (map_of (fChannels d)) channelName) (\<lambda>cs. vector_at cs index)"

text \<open>A sub-channel is referred to by its channel and its index, where the source has a pointer to it.\<close>

definition put_channel ::
    "string \<times> nat \<Rightarrow> 's FairMQChannel \<Rightarrow> ('s, 'f, 'c) FairMQDevice \<Rightarrow> ('s, 'f, 'c) FairMQDevice" where
  "put_channel r c d =
     d\<lparr>fChannels := map (\<lambda>(n, cs). (n, if n = fst r then cs[snd r := c] else cs)) (fChannels d)\<rparr>"

subsection \<open>Configuration\<close>

definition get_string :: "string \<Rightarrow> ('s, 'f, 'c) FairMQProgOptions \<Rightarrow> string outcome" where
  "get_string key st = and_then (GetValue (VString '''') key st) as_string"

definition as_int :: "'f any_value \<Rightarrow> int outcome" where
  "as_int v = (case v of VInt i \<Rightarrow> Returns i | _ \<Rightarrow> Throws BadAnyCast)"

definition get_int_value :: "string \<Rightarrow> ('s, 'f, 'c) FairMQProgOptions \<Rightarrow> int outcome" where
  "get_int_value key st = and_then (GetValue (VInt 0) key st) as_int"

definition as_float :: "'f any_value \<Rightarrow> 'f outcome" where
  "as_float v = (case v of VFloat x \<Rightarrow> Returns x | _ \<Rightarrow> Throws BadAnyCast)"

definition SetNumIoThreads ::
    "('s, 'f) environment \<Rightarrow> int \<Rightarrow> ('s, 'f, 'c) FairMQDevice \<Rightarrow> ('s, 'f, 'c) FairMQDevice outcome" where
  "SetNumIoThreads E n d =
     map_outcome_result (\<lambda>c. d\<lparr>dv_config := c\<rparr>) (SetValue (env_printers E) ''io-threads'' (VInt n) (dv_config d))"

definition GetNumIoThreads :: "('s, 'f, 'c) FairMQDevice \<Rightarrow> int outcome" where
  "GetNumIoThreads d = get_int_value ''io-threads'' (dv_config d)"

definition SetPortRangeMin ::
    "('s, 'f) environment \<Rightarrow> int \<Rightarrow> ('s, 'f, 'c) FairMQDevice \<Rightarrow> ('s, 'f, 'c) FairMQDevice outcome" where
  "SetPortRangeMin E n d =
     map_outcome_result (\<lambda>c. d\<lparr>dv_config := c\<rparr>) (SetValue (env_printers E) ''port-range-min'' (VInt n) (dv_config d))"

definition SetPortRangeMax ::
    "('s, 'f) environment \<Rightarrow> int \<Rightarrow> ('s, 'f, 'c) FairMQDevice \<Rightarrow> ('s, 'f, 'c) FairMQDevice outcome" where
  "SetPortRangeMax E n d =
     map_outcome_result (\<lambda>c. d\<lparr>dv_config := c\<rparr>) (SetValue (env_printers E) ''port-range-max'' (VInt n) (dv_config d))"

definition SetTransport ::
    "('s, 'f) environment \<Rightarrow> string \<Rightarrow> ('s, 'f, 'c) FairMQDevice \<Rightarrow> ('s, 'f, 'c) FairMQDevice outcome" where
  "SetTransport E transport d =
     map_outcome_result (\<lambda>c. d\<lparr>dv_config := c\<rparr>) (SetValue (env_printers E) ''transport'' (VString transport) (dv_config d))"

definition SetConfig ::
    "('s, 'f, 'c) FairMQProgOptions \<Rightarrow> ('s, 'f, 'c) FairMQDevice \<Rightarrow> ('s, 'f, 'c) FairMQDevice" where
  "SetConfig config d = d\<lparr>dv_config := config\<rparr>"

definition AddChannel_dv ::
    "string \<Rightarrow> 's FairMQChannel \<Rightarrow> ('s, 'f, 'c) FairMQDevice \<Rightarrow> ('s, 'f, 'c) FairMQDevice" where
  "AddChannel_dv channelName channel d = d\<lparr>dv_config := AddChannel channelName channel (dv_config d)\<rparr>"

subsection \<open>Transports\<close>

definition AddTransport ::
    "('s, 'f) environment \<Rightarrow> Transport \<Rightarrow> ('s, 'f, 'c) FairMQDevice \<Rightarrow> (factory \<times> ('s, 'f, 'c) FairMQDevice) outcome" where
  "AddTransport E transport d =
     (case map_of (fTransports d) transport of
        None \<Rightarrow>
          and_then (TransportName_at transport)
            (\<lambda>name. and_then (CreateTransportFactory (has_nanomsg E) (has_ofi E) (new_uuid E) name (fId d))
              (\<lambda>tr. Returns (tr, d\<lparr>fTransports := fTransports d @ [(transport, tr)]\<rparr>)))
      | Some tr \<Rightarrow> Returns (tr, d))"

subsection \<open>Attaching channels\<close>

text \<open>
  \<open>BindEndpoint\<close>: after a failed bind, up to a thousand random ports of the range are tried. The state
  that the loop passes on has the endpoint, the socket and the number of ports drawn so far.
\<close>

definition with_port :: "string \<Rightarrow> int \<Rightarrow> string" where
  "with_port endpoint port =
     (case str_rfind CHR '':'' endpoint of
        None \<Rightarrow> int_to_string port
      | Some pos \<Rightarrow> take (pos + 1) endpoint @ int_to_string port)"

fun bind_loop ::
    "('s, 'f) environment \<Rightarrow> int \<Rightarrow> int \<Rightarrow> nat \<Rightarrow> string \<times> 's \<times> nat \<Rightarrow> bool \<times> string \<times> 's \<times> nat" where
  "bind_loop E lo hi attempts (endpoint, s, k) =
     (let (ok, s') = vBind (env_socket E) endpoint s
      in if ok then (True, endpoint, s', k)
         else (case attempts of
                 0 \<Rightarrow> (False, endpoint, s', k)
               | Suc n \<Rightarrow> bind_loop E lo hi n (with_port endpoint (randomPort E k lo hi), s', Suc k)))"

definition BindEndpoint ::
    "('s, 'f) environment \<Rightarrow> string \<Rightarrow> 's \<Rightarrow> ('s, 'f, 'c) FairMQDevice \<Rightarrow>
     bool \<times> string \<times> 's \<times> ('s, 'f, 'c) FairMQDevice" where
  "BindEndpoint E endpoint s d =
     (let (ok, e, s', k) = bind_loop E (fPortRangeMin d) (fPortRangeMax d) 1000 (endpoint, s, draws d)
      in (ok, e, s', d\<lparr>draws := k\<rparr>))"

definition ConnectEndpoint :: "('s, 'f) environment \<Rightarrow> string \<Rightarrow> 's \<Rightarrow> bool \<times> string \<times> 's" where
  "ConnectEndpoint E endpoint s = (True, endpoint, vConnect (env_socket E) endpoint s)"

text \<open>What an endpoint asks for: the modifier, whether to bind, and the address without the modifier.\<close>

definition parse_endpoint :: "string \<Rightarrow> string \<Rightarrow> bool \<times> bool \<times> string" where
  "parse_endpoint method endpoint =
     (if endpoint \<noteq> [] \<and> (hd endpoint = CHR ''+'' \<or> hd endpoint = CHR ''>'') then (True, False, tl endpoint)
      else if endpoint \<noteq> [] \<and> hd endpoint = CHR ''@'' then (True, True, tl endpoint)
      else (False, method = ''bind'', endpoint))"

text \<open>Host names of TCP addresses are resolved; \<open>None\<close> where that fails.\<close>

definition resolve_address :: "('s, 'f) environment \<Rightarrow> bool \<Rightarrow> string \<Rightarrow> string option" where
  "resolve_address E bind address =
     (if starts_with 6 ''tcp://'' address
      then let addressString = drop 6 address;
               hostPart = (case str_find CHR '':'' addressString of None \<Rightarrow> addressString | Some pos \<Rightarrow> take pos addressString);
               portPart = (case str_find CHR '':'' addressString of None \<Rightarrow> addressString | Some pos \<Rightarrow> drop (pos + 1) addressString)
           in if \<not> (bind \<and> hostPart = ''*'')
              then let resolvedHost = getIpFromHostname (env_resolve E) hostPart
                   in if resolvedHost = '''' then None
                      else Some (''tcp://'' @ resolvedHost @ '':'' @ portPart)
              else Some address
      else Some address)"

definition set_options :: "('s, 'f) environment \<Rightarrow> 's FairMQChannel \<Rightarrow> 's \<Rightarrow> 's" where
  "set_options E ch s =
     (let s = vSetOption (env_socket E) ''snd-hwm'' (fSndBufSize ch) s;
          s = vSetOption (env_socket E) ''rcv-hwm'' (fRcvBufSize ch) s;
          s = (if fSndKernelSize ch \<noteq> 0 then vSetOption (env_socket E) ''snd-size'' (fSndKernelSize ch) s else s)
      in if fRcvKernelSize ch \<noteq> 0 then vSetOption (env_socket E) ''rcv-size'' (fRcvKernelSize ch) s else s)"

text \<open>
  One round of the loop in \<open>AttachChannel\<close>: whether to go on, and the endpoint as it was attached.
\<close>

definition attach_endpoint ::
    "('s, 'f) environment \<Rightarrow> string \<Rightarrow> 's FairMQChannel \<times> ('s, 'f, 'c) FairMQDevice \<Rightarrow>
     (bool \<times> string \<times> 's FairMQChannel \<times> ('s, 'f, 'c) FairMQDevice) outcome" where
  "attach_endpoint E endpoint chd =
     (let (ch, d) = chd
      in case (case fSocket ch of
            Some s \<Rightarrow> Returns s
          | None \<Rightarrow> (case fTransportFactory ch of None \<Rightarrow> Undefined | Some f \<Rightarrow> CreateSocket E f (fType ch) (fName ch))) of
         Returns s \<Rightarrow>
           (let s = set_options E ch s;
                (connectionModifier, bind, address) = parse_endpoint (fMethod ch) endpoint
            in case resolve_address E bind address of
                 None \<Rightarrow> Returns (False, endpoint, ch\<lparr>fSocket := Some s\<rparr>, d)
               | Some address \<Rightarrow>
                   (let (success, address, s, d) =
                      (if bind then BindEndpoint E address s d
                       else let (ok, a, s') = ConnectEndpoint E address s in (ok, a, s', d));
                        endpoint = (if connectionModifier then (if bind then ''@'' else ''+'') else '''') @ address
                    in Returns (success, endpoint, ch\<lparr>fSocket := Some s\<rparr>, d)))
       | Throws e \<Rightarrow> (if e = SocketError then Returns (False, endpoint, ch, d) else Throws e)
       | Exits \<Rightarrow> Exits
       | Undefined \<Rightarrow> Undefined)"

fun attach_endpoints ::
    "('s, 'f) environment \<Rightarrow> string list \<Rightarrow> 's FairMQChannel \<times> ('s, 'f, 'c) FairMQDevice \<Rightarrow>
     (bool \<times> string list \<times> 's FairMQChannel \<times> ('s, 'f, 'c) FairMQDevice) outcome" where
  "attach_endpoints E [] chd = Returns (True, [], chd)"
| "attach_endpoints E (e # es) chd =
     and_then (attach_endpoint E e chd)
       (\<lambda>(ok, e', chd').
          if \<not> ok then Returns (False, e' # es, chd')
          else and_then (attach_endpoints E es chd') (\<lambda>(ok, es', chd''). Returns (ok, e' # es', chd'')))"

definition address_key :: "'s FairMQChannel \<Rightarrow> string outcome" where
  "address_key ch =
     and_then (GetChannelPrefix ch)
       (\<lambda>prefix. and_then (GetChannelIndex ch)
         (\<lambda>index. Returns (''chans.'' @ prefix @ ''.'' @ index @ ''.address'')))"

definition channel_transport ::
    "('s, 'f) environment \<Rightarrow> factory \<Rightarrow> 's FairMQChannel \<Rightarrow> ('s, 'f, 'c) FairMQDevice \<Rightarrow>
     ('s FairMQChannel \<times> ('s, 'f, 'c) FairMQDevice) outcome" where
  "channel_transport E dflt ch d =
     (if fTransportType ch = DEFAULT \<or> fTransportType ch = fTransportType_of dflt
      then Returns (InitTransport dflt ch, d)
      else and_then (AddTransport E (fTransportType ch) d) (\<lambda>(tr, d). Returns (InitTransport tr ch, d)))"

text \<open>The end of \<open>AttachChannel\<close>: a changed address is put into the channel and the configuration.\<close>

definition publish_address ::
    "('s, 'f) environment \<Rightarrow> string list \<Rightarrow> 's FairMQChannel \<Rightarrow> ('s, 'f, 'c) FairMQDevice \<Rightarrow>
     ('s FairMQChannel \<times> ('s, 'f, 'c) FairMQDevice) outcome" where
  "publish_address E endpoints ch d =
     (let newAddress = join_str '','' endpoints
      in if newAddress \<noteq> fAddress ch
         then let ch = UpdateAddress newAddress ch
              in and_then (address_key ch)
                (\<lambda>key. and_then (SetValue (env_printers E) key (VString newAddress) (dv_config d))
                  (\<lambda>c. Returns (ch, d\<lparr>dv_config := c\<rparr>)))
         else Returns (ch, d))"

definition AttachChannel ::
    "('s, 'f) environment \<Rightarrow> 's FairMQChannel \<Rightarrow> ('s, 'f, 'c) FairMQDevice \<Rightarrow>
     (bool \<times> 's FairMQChannel \<times> ('s, 'f, 'c) FairMQDevice) outcome" where
  "AttachChannel E ch d =
     (case dv_factory d of
        None \<Rightarrow> Undefined
      | Some dflt \<Rightarrow>
          and_then (channel_transport E dflt ch d)
            (\<lambda>(ch, d). and_then (attach_endpoints E (split_any '','' (fAddress ch)) (ch, d))
              (\<lambda>(ok, endpoints, ch, d).
                 if \<not> ok then Returns (False, ch, d)
                 else map_outcome_result (Pair True) (publish_address E endpoints ch d))))"

text \<open>\<open>AttachChannels\<close> returns the sub-channels that are left in the list.\<close>

fun AttachChannels ::
    "('s, 'f) environment \<Rightarrow> (string \<times> nat) list \<Rightarrow> ('s, 'f, 'c) FairMQDevice \<Rightarrow>
     ((string \<times> nat) list \<times> ('s, 'f, 'c) FairMQDevice) outcome" where
  "AttachChannels E [] d = Returns ([], d)"
| "AttachChannels E (r # rs) d =
     and_then (GetChannel (fst r) (snd r) d)
       (\<lambda>ch. and_then (ValidateChannel ch)
         (\<lambda>(valid, ch).
            if valid
            then and_then (AttachChannel E ch d)
              (\<lambda>(ok, ch, d).
                 if ok then AttachChannels E rs (put_channel r (SetModified False ch) d)
                 else and_then (AttachChannels E rs (put_channel r ch d)) (\<lambda>(left, d). Returns (r # left, d)))
            else and_then (AttachChannels E rs (put_channel r ch d)) (\<lambda>(left, d). Returns (r # left, d))))"

subsection \<open>InitWrapper\<close>

definition read_config ::
    "('s, 'f) environment \<Rightarrow> ('s, 'f, 'c) FairMQDevice \<Rightarrow> ('s, 'f, 'c) FairMQDevice outcome" where
  "read_config E d =
     and_then (get_string ''id'' (dv_config d))
     (\<lambda>ident. and_then (and_then (GetValue (VFloat (float_zero E)) ''rate'' (dv_config d)) as_float)
     (\<lambda>rate. and_then (get_int_value ''port-range-min'' (dv_config d))
     (\<lambda>lo. and_then (get_int_value ''port-range-max'' (dv_config d))
     (\<lambda>hi. and_then (get_string ''transport'' (dv_config d))
     (\<lambda>t. let d = d\<lparr>fId := ident, fRate := rate, fPortRangeMin := lo, fPortRangeMax := hi\<rparr>
          in Returns (case TransportType_at t of Returns tt \<Rightarrow> d\<lparr>fDefaultTransportType := tt\<rparr> | _ \<Rightarrow> d))))))"

text \<open>Inserting the channels of the configuration, or assigning them to channels of the same name.\<close>

definition merge_channel ::
    "string \<times> 's FairMQChannel list \<Rightarrow> ('s, 'f, 'c) FairMQDevice \<Rightarrow> ('s, 'f, 'c) FairMQDevice" where
  "merge_channel c d =
     (if fst c \<notin> fst ` set (fChannels d)
      then d\<lparr>fChannels := fChannels d @ [(fst c, map FairMQChannel_copy (snd c))]\<rparr>
      else d\<lparr>fChannels := map (\<lambda>(n, cs). (n, if n = fst c then map FairMQChannel_copy (snd c) else cs)) (fChannels d)\<rparr>)"

definition merge_channels :: "('s, 'f, 'c) FairMQDevice \<Rightarrow> ('s, 'f, 'c) FairMQDevice" where
  "merge_channels d = fold merge_channel (GetFairMQMap (dv_config d)) d"

text \<open>
  Sorting one sub-channel into the lists of binding and connecting ones: the state passed on has the
  device, the network interface and the two lists.
\<close>

definition sort_channel ::
    "('s, 'f) environment \<Rightarrow> string \<times> nat \<Rightarrow>
     ('s, 'f, 'c) FairMQDevice \<times> string \<times> (string \<times> nat) list \<times> (string \<times> nat) list \<Rightarrow>
     (('s, 'f, 'c) FairMQDevice \<times> string \<times> (string \<times> nat) list \<times> (string \<times> nat) list) outcome" where
  "sort_channel E r st =
     (let (d, networkInterface, binding, connecting) = st
      in and_then (GetChannel (fst r) (snd r) d)
        (\<lambda>vi. let vi = vi\<lparr>fName := subchannel_name (fst r) (snd r)\<rparr>
          in Returns
            (if fMethod vi = ''bind''
             then if fAddress vi = ''unspecified'' \<or> fAddress vi = ''''
                  then let networkInterface =
                          (if networkInterface = ''default'' then getDefaultRouteNetworkInterface (env_route E) else networkInterface);
                           vi = vi\<lparr>fAddress := ''tcp://'' @ getInterfaceIP (env_ifaddrs E) networkInterface @ '':1''\<rparr>
                       in (put_channel r vi d, networkInterface, binding @ [r], connecting)
                  else (put_channel r vi d, networkInterface, binding @ [r], connecting)
             else if fMethod vi = ''connect'' then (put_channel r vi d, networkInterface, binding, connecting @ [r])
             else if list_ex (\<lambda>c. c \<in> {CHR ''@'', CHR ''+'', CHR ''>''}) (fAddress vi)
             then (put_channel r vi d, networkInterface, binding, connecting @ [r])
             else (request ERROR_FOUND (put_channel r vi d), networkInterface, binding, connecting))))"

definition channel_refs :: "('s, 'f, 'c) FairMQDevice \<Rightarrow> (string \<times> nat) list" where
  "channel_refs d = concat (map (\<lambda>(n, cs). map (Pair n) [0..<length cs]) (fChannels d))"

text \<open>The part of \<open>InitWrapper\<close> up to the first attempt to connect.\<close>

definition begin_init ::
    "('s, 'f) environment \<Rightarrow> ('s, 'f, 'c) FairMQDevice \<Rightarrow>
     (int \<times> (string \<times> nat) list \<times> ('s, 'f, 'c) FairMQDevice) outcome" where
  "begin_init E d =
     and_then (read_config E d)
     (\<lambda>d. let d = merge_channels d
      in and_then (AddTransport E (fDefaultTransportType d) d)
     (\<lambda>(tr, d). let d = d\<lparr>dv_factory := Some tr\<rparr>
      in and_then (get_string ''network-interface'' (dv_config d))
     (\<lambda>nif. and_then (fold_outcome (sort_channel E) (channel_refs d) (d, nif, [], []))
     (\<lambda>(d, _, binding, connecting). and_then (AttachChannels E binding d)
     (\<lambda>(binding, d).
        let d = (if length binding > 0 then request ERROR_FOUND d else d);
            d = announce INITIALIZING_DEVICE d;
            d = d\<lparr>fInitialValidationFinished := True\<rparr>
        in and_then (get_int_value ''initialization-timeout'' (dv_config d))
     (\<lambda>timeout. and_then (AttachChannels E connecting d)
     (\<lambda>(connecting, d). Returns (timeout * 1000 div 50, connecting, d))))))))"

text \<open>
  One round of the loop that waits for the remaining channels. Other threads may have changed the
  configuration while the worker slept: \<open>others\<close> is what they did to it.
\<close>

definition refresh_address ::
    "string \<times> nat \<Rightarrow> ('s, 'f, 'c) FairMQDevice \<Rightarrow> ('s, 'f, 'c) FairMQDevice outcome" where
  "refresh_address r d =
     and_then (GetChannel (fst r) (snd r) d)
     (\<lambda>chan. and_then (address_key chan)
     (\<lambda>key. and_then (get_string key (dv_config d))
     (\<lambda>newAddress. Returns
        (if newAddress \<noteq> GetAddress chan then put_channel r (UpdateAddress newAddress chan) d else d))))"

definition connect_round ::
    "('s, 'f) environment \<Rightarrow> int \<Rightarrow> (('s, 'f, 'c) FairMQProgOptions \<Rightarrow> ('s, 'f, 'c) FairMQProgOptions) \<Rightarrow>
     int \<times> (string \<times> nat) list \<times> ('s, 'f, 'c) FairMQDevice \<Rightarrow>
     (int \<times> (string \<times> nat) list \<times> ('s, 'f, 'c) FairMQDevice) outcome" where
  "connect_round E maxAttempts others st =
     (let (numAttempts, left, d) = st; d = d\<lparr>dv_config := others (dv_config d)\<rparr>
      in and_then (fold_outcome refresh_address left d)
        (\<lambda>d. let d = (if numAttempts > maxAttempts then request ERROR_FOUND d else d)
          in and_then (AttachChannels E left d) (\<lambda>(left, d). Returns (numAttempts + 1, left, d))))"

text \<open>The loop, for what other threads do in its rounds; \<open>None\<close> where it has not ended by then.\<close>

fun connect_loop ::
    "('s, 'f) environment \<Rightarrow> int \<Rightarrow> (('s, 'f, 'c) FairMQProgOptions \<Rightarrow> ('s, 'f, 'c) FairMQProgOptions) list \<Rightarrow>
     int \<times> (string \<times> nat) list \<times> ('s, 'f, 'c) FairMQDevice \<Rightarrow> ('s, 'f, 'c) FairMQDevice outcome option" where
  "connect_loop E maxAttempts rounds (numAttempts, left, d) =
     (if left = [] then Some (Returns d)
      else case rounds of
             [] \<Rightarrow> None
           | others # rounds' \<Rightarrow>
               (case connect_round E maxAttempts others (numAttempts, left, d) of
                  Returns st \<Rightarrow> connect_loop E maxAttempts rounds' st
                | Throws e \<Rightarrow> Some (Throws e)
                | Exits \<Rightarrow> Some Exits
                | Undefined \<Rightarrow> Some Undefined))"

definition InitWrapper_dv ::
    "('s, 'f) environment \<Rightarrow> (('s, 'f, 'c) FairMQDevice \<Rightarrow> ('s, 'f, 'c) FairMQDevice outcome) \<Rightarrow>
     (('s, 'f, 'c) FairMQProgOptions \<Rightarrow> ('s, 'f, 'c) FairMQProgOptions) list \<Rightarrow>
     ('s, 'f, 'c) FairMQDevice \<Rightarrow> ('s, 'f, 'c) FairMQDevice outcome option" where
  "InitWrapper_dv E Init rounds d =
     (case begin_init E d of
        Returns (maxAttempts, left, d) \<Rightarrow>
          map_option
            (\<lambda>r. and_then r (\<lambda>d. and_then (Init d) (\<lambda>d. Returns (request internal_DEVICE_READY d))))
            (connect_loop E maxAttempts rounds (1, left, d))
      | Throws e \<Rightarrow> Some (Throws e)
      | Exits \<Rightarrow> Some Exits
      | Undefined \<Rightarrow> Some Undefined)"

subsection \<open>The other handlers\<close>

definition InitTaskWrapper_dv ::
    "(('s, 'f, 'c) FairMQDevice \<Rightarrow> ('s, 'f, 'c) FairMQDevice outcome) \<Rightarrow>
     ('s, 'f, 'c) FairMQDevice \<Rightarrow> ('s, 'f, 'c) FairMQDevice outcome" where
  "InitTaskWrapper_dv InitTask d =
     and_then (InitTask (announce INITIALIZING_TASK d)) (\<lambda>d. Returns (request internal_READY d))"

definition ResetTaskWrapper_dv ::
    "(('s, 'f, 'c) FairMQDevice \<Rightarrow> ('s, 'f, 'c) FairMQDevice outcome) \<Rightarrow>
     ('s, 'f, 'c) FairMQDevice \<Rightarrow> ('s, 'f, 'c) FairMQDevice outcome" where
  "ResetTaskWrapper_dv ResetTask d =
     and_then (ResetTask (announce RESETTING_TASK d)) (\<lambda>d. Returns (request internal_DEVICE_READY d))"

definition ResetWrapper_dv ::
    "(('s, 'f, 'c) FairMQDevice \<Rightarrow> ('s, 'f, 'c) FairMQDevice outcome) \<Rightarrow>
     ('s, 'f, 'c) FairMQDevice \<Rightarrow> ('s, 'f, 'c) FairMQDevice outcome" where
  "ResetWrapper_dv Reset d =
     and_then (Reset (announce RESETTING_DEVICE d)) (\<lambda>d. Returns (request internal_IDLE d))"

definition Reset :: "('s, 'f, 'c) FairMQDevice \<Rightarrow> ('s, 'f, 'c) FairMQDevice" where
  "Reset d = d\<lparr>fChannels := map (\<lambda>(n, cs). (n, map (\<lambda>c. c\<lparr>fSocket := None\<rparr>) cs)) (fChannels d)\<rparr>"

text \<open>
  \<open>SortChannel\<close> orders the sub-channels by their addresses; \<open>std::sort\<close> may order equal addresses either
  way, and a stable sort is one of its results.
\<close>

definition SortChannel :: "string \<Rightarrow> bool \<Rightarrow> ('s, 'f, 'c) FairMQDevice \<Rightarrow> ('s, 'f, 'c) FairMQDevice" where
  "SortChannel name reindex d =
     (if name \<in> fst ` set (fChannels d)
      then d\<lparr>fChannels := map (\<lambda>(n, cs).
             (n, if n = name
                 then let cs = sort_key fAddress cs
                      in if reindex then map (\<lambda>(i, c). c\<lparr>fName := subchannel_name name i\<rparr>) (enumerate 0 cs) else cs
                 else cs)) (fChannels d)\<rparr>
      else d)"

section \<open>Frame of the attaching operations\<close>

lemma map_of_replace:
  "map_of (map (\<lambda>(m, cs). (m, if m = n then cs[i := c] else cs)) xs) k =
     map_option (\<lambda>cs. if k = n then cs[i := c] else cs) (map_of xs k)"
  by (induction xs) auto

lemma GetChannel_put:
  assumes "GetChannel n i d = Returns c0"
  shows "GetChannel n' j (put_channel (n, i) c d) = (if n' = n \<and> j = i then Returns c else GetChannel n' j d)"
proof -
  have "map_of (fChannels (put_channel (n, i) c d)) n' =
      map_option (\<lambda>cs. if n' = n then cs[i := c] else cs) (map_of (fChannels d) n')"
    unfolding put_channel_def fst_conv snd_conv by (simp add: map_of_replace)
  then show ?thesis using assms
    by (cases "map_of (fChannels d) n'") (auto simp: GetChannel_def map_at_def vector_at_def split: if_splits option.splits)
qed

text \<open>The fields that attaching a channel leaves alone.\<close>

definition same_device :: "('s, 'f, 'c) FairMQDevice \<Rightarrow> ('s, 'f, 'c) FairMQDevice \<Rightarrow> bool" where
  "same_device d d' \<longleftrightarrow>
     fChannels d' = fChannels d \<and> requested d' = requested d \<and> announced_states d' = announced_states d \<and>
     dv_factory d' = dv_factory d \<and> fPortRangeMin d' = fPortRangeMin d \<and> fPortRangeMax d' = fPortRangeMax d"

lemma same_device_refl [simp]: "same_device d d"
  by (simp add: same_device_def)

lemma same_device_trans: "same_device d d' \<Longrightarrow> same_device d' d'' \<Longrightarrow> same_device d d''"
  by (simp add: same_device_def)

lemma BindEndpoint_frame: "BindEndpoint E e s d = (ok, e', s', d') \<Longrightarrow> same_device d d' \<and> dv_config d' = dv_config d"
  by (auto simp: BindEndpoint_def same_device_def split: prod.splits)

lemma AddTransport_frame:
  "AddTransport E t d = Returns (f, d') \<Longrightarrow> same_device d d' \<and> dv_config d' = dv_config d"
  by (auto simp: AddTransport_def and_then_Returns_iff same_device_def split: option.splits)

text \<open>What changes in a channel while its endpoints are attached is its socket, which is then there.\<close>

lemma attach_endpoint_Returns:
  assumes "attach_endpoint E e (ch, d) = Returns (ok, e', ch', d')"
  shows "same_device d d' \<and> dv_config d' = dv_config d \<and> ch' = ch\<lparr>fSocket := fSocket ch'\<rparr> \<and>
    (ok \<or> fSocket ch \<noteq> None \<longrightarrow> fSocket ch' \<noteq> None)"
  using assms
  by (auto simp: attach_endpoint_def Let_def ConnectEndpoint_def
      split: outcome.splits option.splits prod.splits if_splits dest!: BindEndpoint_frame)

lemma attach_endpoints_Returns:
  assumes "attach_endpoints E es (ch, d) = Returns (ok, es', ch', d')"
  shows "same_device d d' \<and> dv_config d' = dv_config d \<and> ch' = ch\<lparr>fSocket := fSocket ch'\<rparr> \<and>
     (ok \<and> es \<noteq> [] \<or> fSocket ch \<noteq> None \<longrightarrow> fSocket ch' \<noteq> None)"
  using assms
proof (induction es arbitrary: ch d es')
  case (Cons e es)
  from Cons.prems obtain ok1 e1 ch1 d1 where
    1: "attach_endpoint E e (ch, d) = Returns (ok1, e1, ch1, d1)"
      "(if \<not> ok1 then Returns (False, e1 # es, ch1, d1)
        else and_then (attach_endpoints E es (ch1, d1)) (\<lambda>(ok, es', chd''). Returns (ok, e1 # es', chd''))) = Returns (ok, es', ch', d')"
    by (auto simp: and_then_Returns_iff)
  note f = attach_endpoint_Returns [OF 1(1)]
  show ?case
  proof (cases ok1)
    case False
    then show ?thesis using 1(2) f by auto
  next
    case True
    then obtain es2 where 2: "attach_endpoints E es (ch1, d1) = Returns (ok, es2, ch', d')"
      using 1(2) by (auto simp: and_then_Returns_iff)
    have "ch' = ch\<lparr>fSocket := fSocket ch'\<rparr>" using Cons.IH [OF 2] f
      by (metis (no_types, lifting) FairMQChannel.surjective FairMQChannel.update_convs(1))
    moreover have "fSocket ch' \<noteq> None" using Cons.IH [OF 2] f \<open>ok1\<close> by blast
    ultimately show ?thesis using Cons.IH [OF 2] f same_device_trans by (metis (no_types, lifting))
  qed
qed simp

lemma channel_transport_Returns:
  "channel_transport E f ch d = Returns (ch', d') \<Longrightarrow>
     same_device d d' \<and> dv_config d' = dv_config d \<and> fName ch' = fName ch \<and> fAddress ch' = fAddress ch \<and>
     fSocket ch' = fSocket ch"
  by (auto simp: channel_transport_def InitTransport_def and_then_Returns_iff split: if_splits dest!: AddTransport_frame)

lemma publish_address_Returns:
  "publish_address E es ch d = Returns (ch', d') \<Longrightarrow>
     same_device d d' \<and> fName ch' = fName ch \<and> fAddress ch' = join_str '','' es \<and> fSocket ch' = fSocket ch"
  by (auto simp: publish_address_def Let_def UpdateAddress_def and_then_Returns_iff same_device_def split: if_splits)

lemma AttachChannel_cases:
  assumes "AttachChannel E ch d = Returns (ok, ch', d')"
  obtains f ch1 d1 es where "dv_factory d = Some f" "channel_transport E f ch d = Returns (ch1, d1)"
    "attach_endpoints E (split_any '','' (fAddress ch1)) (ch1, d1) = Returns (False, es, ch', d')" "\<not> ok"
  | f ch1 d1 es ch2 d2 where "dv_factory d = Some f" "channel_transport E f ch d = Returns (ch1, d1)"
    "attach_endpoints E (split_any '','' (fAddress ch1)) (ch1, d1) = Returns (True, es, ch2, d2)"
    "publish_address E es ch2 d2 = Returns (ch', d')" ok
proof -
  from assms obtain f ch1 d1 ok2 es ch2 d2 where *: "dv_factory d = Some f" "channel_transport E f ch d = Returns (ch1, d1)"
    "attach_endpoints E (split_any '','' (fAddress ch1)) (ch1, d1) = Returns (ok2, es, ch2, d2)"
    "(if \<not> ok2 then Returns (False, ch2, d2) else map_outcome_result (Pair True) (publish_address E es ch2 d2)) = Returns (ok, ch', d')"
    by (cases "dv_factory d") (auto simp: AttachChannel_def and_then_Returns_iff)
  show ?thesis
  proof (cases ok2)
    case True
    with *(4) have "publish_address E es ch2 d2 = Returns (ch', d')" ok
      by (auto simp: map_outcome_result_def and_then_Returns_iff)
    then show ?thesis using that(2) [OF *(1,2)] *(3) True by simp
  next
    case False
    with *(4) have "ch2 = ch'" "d2 = d'" "\<not> ok" by auto
    then show ?thesis using that(1) [OF *(1,2)] *(3) False by simp
  qed
qed

lemma AttachChannel_Returns:
  assumes "AttachChannel E ch d = Returns (ok, ch', d')"
  shows "same_device d d' \<and> (ok \<or> fSocket ch \<noteq> None \<longrightarrow> fSocket ch' \<noteq> None) \<and> fName ch' = fName ch"
  using assms
proof (cases rule: AttachChannel_cases)
  case (1 f ch1 d1 es)
  have "fName ch' = fName ch1" using attach_endpoints_Returns [OF 1(3)] by (cases ch1, cases ch') auto
  then show ?thesis using channel_transport_Returns [OF 1(2)] attach_endpoints_Returns [OF 1(3)] 1(4) same_device_trans by auto
next
  case (2 f ch1 d1 es ch2 d2)
  note a = attach_endpoints_Returns [OF 2(3)] and p = publish_address_Returns [OF 2(4)] and c = channel_transport_Returns [OF 2(2)]
  have "fName ch2 = fName ch1" using a by (cases ch1, cases ch2) auto
  moreover have "fSocket ch2 \<noteq> None" using a by auto
  ultimately show ?thesis using a p c same_device_trans by metis
qed

section \<open>Binding to a port\<close>

lemma with_port_split: "CHR '':'' \<notin> set p \<Longrightarrow> with_port (a @ CHR '':'' # p) q = a @ CHR '':'' # int_to_string q"
  by (simp add: with_port_def str_rfind_split)

lemma int_to_string_no_colon: "CHR '':'' \<notin> set (int_to_string i)"
  by (simp add: int_to_string_def)

text \<open>What a bind with retries can lead to: the given port or a drawn one, within the allowed draws.\<close>

lemma bind_loop_result:
  assumes "bind_loop E lo hi n (a @ CHR '':'' # p, s, k) = (ok, e, s', k')" "CHR '':'' \<notin> set p"
    and "\<And>k. lo \<le> randomPort E k lo hi \<and> randomPort E k lo hi \<le> hi"
  shows "(e = a @ CHR '':'' # p \<or> (\<exists>q. lo \<le> q \<and> q \<le> hi \<and> e = a @ CHR '':'' # int_to_string q)) \<and>
    k \<le> k' \<and> k' \<le> k + n \<and> (if ok then \<exists>s0. vBind (env_socket E) e s0 = (True, s') else k' = k + n)"
  using assms(1,2)
proof (induction n arbitrary: p s k)
  case 0
  then show ?case by (cases "vBind (env_socket E) (a @ CHR '':'' # p) s") (auto split: if_splits)
next
  case (Suc n)
  obtain b s1 where b: "vBind (env_socket E) (a @ CHR '':'' # p) s = (b, s1)" by force
  show ?case
  proof (cases b)
    case True
    then show ?thesis using Suc.prems(1) b by auto
  next
    case False
    let ?q = "randomPort E k lo hi"
    have "bind_loop E lo hi n (a @ CHR '':'' # int_to_string ?q, s1, Suc k) = (ok, e, s', k')"
      using Suc.prems b False by (simp add: with_port_split)
    from Suc.IH [OF this int_to_string_no_colon] show ?thesis using assms(3) [of k] by auto
  qed
qed

section \<open>Publishing addresses\<close>

text \<open>The address of a sub-channel of the device is the one in the configuration.\<close>

definition published :: "string \<times> nat \<Rightarrow> 's FairMQChannel \<Rightarrow> ('s, 'f, 'c) FairMQDevice \<Rightarrow> bool" where
  "published r ch d \<longleftrightarrow> lookup_var (dv_config d) (chan_key (fst r) (snd r) ''address'') = Some (VString (fAddress ch))"

lemma address_key_subchannel:
  "fName ch = subchannel_name n i \<Longrightarrow> address_key ch = Returns (chan_key n i ''address'')"
  by (simp add: address_key_def GetChannelPrefix_subchannel GetChannelIndex_subchannel chan_key_def)

lemma SetValue_lookup:
  assumes "SetValue F k v st = Returns st'" "sorted_map (fVarMap st)"
  shows "lookup_var st' k = Some v"
proof -
  from SetValue_Returns [OF assms(1)] obtain st2 where st2: "st' = EmitUpdate F k v st2"
    "fVarMap st2 = fVarMap (UpdateVarMap k v st)" by blast
  show ?thesis using lookup_UpdateVarMap [OF assms(2), of k v k]
    by (simp add: st2(1) EmitUpdate_def Let_def) (simp add: lookup_var_def st2(2))
qed

lemma publish_address_agrees:
  assumes "publish_address E es ch d = Returns (ch', d')" "fName ch = subchannel_name n i"
    and "config_agrees (dv_config d)" "map_of (fFairMQChannelMap (dv_config d)) n = Some cs" "i < length cs"
    and "published (n, i) ch d"
  shows "config_agrees (dv_config d') \<and> published (n, i) ch' d'"
proof (cases "join_str '','' es = fAddress ch")
  case True
  then show ?thesis using assms by (auto simp: publish_address_def)
next
  case False
  let ?a = "join_str '','' es" and ?k = "chan_key n i ''address''"
  have "address_key (UpdateAddress ?a ch) = Returns ?k"
    using assms(2) by (intro address_key_subchannel) (simp add: UpdateAddress_def)
  then obtain c where c: "SetValue (env_printers E) ?k (VString ?a) (dv_config d) = Returns c" "d' = d\<lparr>dv_config := c\<rparr>"
      "ch' = UpdateAddress ?a ch"
    using assms(1) False by (auto simp: publish_address_def Let_def and_then_Returns_iff)
  have "settable ''address'' (VString ?a)" by (simp add: settable_def)
  from SetValue_agrees [OF assms(3-5) this, of "env_printers E"] c(1) have "config_agrees c" by auto
  moreover have "lookup_var c ?k = Some (VString ?a)"
    using SetValue_lookup [OF c(1)] assms(3) by (simp add: config_agrees_def)
  ultimately show ?thesis using c(2,3) by (simp add: published_def UpdateAddress_def)
qed

lemma AttachChannel_agrees:
  assumes "AttachChannel E ch d = Returns (ok, ch', d')" "fName ch = subchannel_name n i"
    and "config_agrees (dv_config d)" "map_of (fFairMQChannelMap (dv_config d)) n = Some cs" "i < length cs"
    and "published (n, i) ch d"
  shows "config_agrees (dv_config d') \<and> published (n, i) ch' d'"
  using assms(1)
proof (cases rule: AttachChannel_cases)
  case (1 f ch1 d1 es)
  have "fAddress ch' = fAddress ch1" using attach_endpoints_Returns [OF 1(3)] by (cases ch1, cases ch') auto
  then show ?thesis
    using channel_transport_Returns [OF 1(2)] attach_endpoints_Returns [OF 1(3)] assms(3,6) by (simp add: published_def)
next
  case (2 f ch1 d1 es ch2 d2)
  note a = attach_endpoints_Returns [OF 2(3)] and c = channel_transport_Returns [OF 2(2)]
  have "fAddress ch2 = fAddress ch" "fName ch2 = fName ch" using a c by (cases ch1, cases ch2, auto)+
  moreover have "dv_config d2 = dv_config d" using a c by simp
  ultimately show ?thesis
    using publish_address_agrees [OF 2(4), of n i cs] assms by (simp add: published_def)
qed

section \<open>What initialisation achieves\<close>

definition attached :: "('s, 'f, 'c) FairMQDevice \<Rightarrow> string \<times> nat \<Rightarrow> bool" where
  "attached d r \<longleftrightarrow> (case GetChannel (fst r) (snd r) d of Returns ch \<Rightarrow> fSocket ch \<noteq> None | _ \<Rightarrow> False)"

lemma attached_iff: "attached d r \<longleftrightarrow> (\<exists>ch. GetChannel (fst r) (snd r) d = Returns ch \<and> fSocket ch \<noteq> None)"
  by (cases "GetChannel (fst r) (snd r) d") (auto simp: attached_def)

definition progressed :: "('s, 'f, 'c) FairMQDevice \<Rightarrow> ('s, 'f, 'c) FairMQDevice \<Rightarrow> bool" where
  "progressed d d' \<longleftrightarrow>
     (\<forall>r. attached d r \<longrightarrow> attached d' r) \<and> channel_refs d' = channel_refs d \<and> (\<exists>es. requested d' = requested d @ es)"

lemma progressed_refl [simp]: "progressed d d"
  by (simp add: progressed_def)

lemma progressed_trans: "progressed d d' \<Longrightarrow> progressed d' d'' \<Longrightarrow> progressed d d''"
  by (auto simp: progressed_def)

lemma same_device_progressed: "same_device d d' \<Longrightarrow> progressed d d'"
  by (simp add: same_device_def progressed_def attached_def GetChannel_def channel_refs_def)

lemma progressed_request [simp]: "progressed d (request e d)"
  by (simp add: progressed_def request_def attached_def GetChannel_def channel_refs_def)

lemma put_channel_refs [simp]: "channel_refs (put_channel r c d) = channel_refs d"
proof -
  have "map (\<lambda>(n, cs). map (Pair n) [0..<length cs]) (map (\<lambda>(n, cs). (n, if n = fst r then cs[snd r := c] else cs)) xs) =
      map (\<lambda>(n, cs). map (Pair n) [0..<length cs]) xs" for xs
    by (induction xs) auto
  moreover have "fChannels (put_channel r c d) = map (\<lambda>(n, cs). (n, if n = fst r then cs[snd r := c] else cs)) (fChannels d)"
    by (simp add: put_channel_def)
  ultimately show ?thesis unfolding channel_refs_def by (simp only:)
qed

lemma attached_put:
  assumes "GetChannel (fst r) (snd r) d = Returns c0"
  shows "attached (put_channel r c d) q = (if q = r then fSocket c \<noteq> None else attached d q)"
  using GetChannel_put [OF assms, of "fst q" "snd q" c] by (cases r, cases q) (auto simp: attached_def)

lemma progressed_put:
  assumes "GetChannel (fst r) (snd r) d = Returns c0" "fSocket c0 \<noteq> None \<Longrightarrow> fSocket c \<noteq> None"
  shows "progressed d (put_channel r c d)"
proof -
  have "attached (put_channel r c d) q" if "attached d q" for q
    using that assms attached_put [OF assms(1), of c q] by (auto simp: attached_def)
  moreover have "requested (put_channel r c d) = requested d" by (simp add: put_channel_def)
  ultimately show ?thesis by (simp add: progressed_def)
qed

lemma ValidateChannel_socket: "ValidateChannel c = Returns (b, c') \<Longrightarrow> fSocket c' = fSocket c \<and> fName c' = fName c"
  by (auto simp: ValidateChannel_def exit_on_exception_Returns_iff and_then_Returns_iff split: if_splits)

lemma GetChannel_same: "same_device d d' \<Longrightarrow> GetChannel n i d' = GetChannel n i d"
  by (simp add: same_device_def GetChannel_def)

lemma AttachChannels_progress:
  "AttachChannels E rs d = Returns (left, d') \<Longrightarrow>
     progressed d d' \<and> set left \<subseteq> set rs \<and> (\<forall>r \<in> set rs. r \<in> set left \<or> attached d' r)"
proof (induction rs arbitrary: d left)
  case (Cons r rs)
  from Cons.prems obtain ch valid ch1 where
    1: "GetChannel (fst r) (snd r) d = Returns ch" "ValidateChannel ch = Returns (valid, ch1)"
    by (auto simp: and_then_Returns_iff)
  have s1: "fSocket ch1 = fSocket ch" using ValidateChannel_socket [OF 1(2)] by simp
  have keep: ?case if p: "progressed d d1" "AttachChannels E rs d1 = Returns (left', d')" "left = r # left'" for d1 left'
    using Cons.IH [OF p(2)] p progressed_trans by auto
  show ?case
  proof (cases valid)
    case False
    then obtain left' where l: "AttachChannels E rs (put_channel r ch1 d) = Returns (left', d')" "left = r # left'"
      using Cons.prems 1 by (auto simp: and_then_Returns_iff)
    show ?thesis by (rule keep [OF progressed_put [OF 1(1)] l]) (simp add: s1)
  next
    case True
    then obtain ok ch2 d2 where 2: "AttachChannel E ch1 d = Returns (ok, ch2, d2)"
      using Cons.prems 1 by (auto simp: and_then_Returns_iff)
    note A = AttachChannel_Returns [OF 2]
    have g: "GetChannel (fst r) (snd r) d2 = Returns ch" using 1(1) GetChannel_same A by metis
    have p: "progressed d (put_channel r c d2)" if "fSocket c = fSocket ch2" for c
      using A s1 that by (intro progressed_trans [OF same_device_progressed progressed_put [OF g]]) auto
    show ?thesis
    proof (cases ok)
      case False
      then obtain left' where l: "AttachChannels E rs (put_channel r ch2 d2) = Returns (left', d')" "left = r # left'"
        using Cons.prems 1 2 True by (auto simp: and_then_Returns_iff)
      show ?thesis by (rule keep [OF p l]) simp
    next
      case ok: True
      let ?d = "put_channel r (SetModified False ch2) d2"
      have l: "AttachChannels E rs ?d = Returns (left, d')" using Cons.prems 1 2 True ok by simp
      have "attached ?d r" using attached_put [OF g, of "SetModified False ch2" r] A ok by (simp add: SetModified_def)
      moreover have "progressed d ?d" by (rule p) (simp add: SetModified_def)
      moreover have "progressed ?d d'" using Cons.IH [OF l] by blast
      ultimately show ?thesis using Cons.IH [OF l] progressed_trans by (metis insertCI list.simps(15) progressed_def set_ConsD subset_insertI2)
    qed
  qed
qed simp

lemma sort_channel_progress:
  assumes "sort_channel E r (d, nif, bs, cs) = Returns (d', nif', bs', cs')"
  shows "progressed d d' \<and> set bs \<subseteq> set bs' \<and> set cs \<subseteq> set cs' \<and>
    (r \<in> set bs' \<or> r \<in> set cs' \<or> ERROR_FOUND \<in> set (requested d'))"
proof -
  from assms obtain vi where vi: "GetChannel (fst r) (snd r) d = Returns vi"
    by (auto simp: sort_channel_def and_then_Returns_iff)
  have p: "progressed d (put_channel r c d)" if "fSocket c = fSocket vi" for c
    by (rule progressed_put [OF vi]) (simp add: that)
  have q: "progressed d (request ERROR_FOUND (put_channel r c d))" if "fSocket c = fSocket vi" for c
    using progressed_trans [OF p [OF that] progressed_request] .
  show ?thesis using assms vi p q
    by (auto simp: sort_channel_def Let_def request_def split: if_splits)
qed

lemma sort_channels_progress:
  assumes "fold_outcome (sort_channel E) rs (d, nif, bs, cs) = Returns (d', nif', bs', cs')"
  shows "progressed d d' \<and> set bs \<subseteq> set bs' \<and> set cs \<subseteq> set cs' \<and>
    (\<forall>r \<in> set rs. r \<in> set bs' \<or> r \<in> set cs' \<or> ERROR_FOUND \<in> set (requested d'))"
  using assms
proof (induction rs arbitrary: d nif bs cs)
  case (Cons r rs)
  then obtain d1 nif1 bs1 cs1 where 1: "sort_channel E r (d, nif, bs, cs) = Returns (d1, nif1, bs1, cs1)"
    "fold_outcome (sort_channel E) rs (d1, nif1, bs1, cs1) = Returns (d', nif', bs', cs')"
    by (auto simp: and_then_Returns_iff)
  note s = sort_channel_progress [OF 1(1)] and t = Cons.IH [OF 1(2)]
  have "set (requested d1) \<subseteq> set (requested d')" using t by (auto simp: progressed_def)
  then show ?case using s t progressed_trans by (auto 0 3)
qed simp

text \<open>The sub-channels of the device are attached or still to be attached, or an error was requested.\<close>

definition accounted :: "(string \<times> nat) list \<Rightarrow> ('s, 'f, 'c) FairMQDevice \<Rightarrow> bool" where
  "accounted rs d \<longleftrightarrow>
     (\<forall>r \<in> set (channel_refs d). r \<in> set rs \<or> attached d r) \<or> ERROR_FOUND \<in> set (requested d)"

lemma accounted_progressed: "accounted rs d \<Longrightarrow> progressed d d' \<Longrightarrow> accounted rs d'"
  unfolding accounted_def progressed_def by (metis UnCI set_append)

lemma AttachChannels_accounted:
  assumes "AttachChannels E rs d = Returns (left, d')" "accounted (rs @ qs) d"
  shows "accounted (left @ qs) d'"
proof -
  note a = AttachChannels_progress [OF assms(1)]
  have "accounted (rs @ qs) d'" using accounted_progressed assms(2) a by blast
  then show ?thesis using a by (auto simp: accounted_def)
qed

lemma begin_init_accounted:
  assumes "begin_init E d0 = Returns (k, left, d)"
  shows "accounted left d"
proof -
  from assms obtain d1 where 1: "read_config E d0 = Returns d1" unfolding begin_init_def and_then_Returns_iff by blast
  from assms 1 obtain tr d2 where 2: "AddTransport E (fDefaultTransportType (merge_channels d1)) (merge_channels d1) = Returns (tr, d2)"
    by (auto simp: begin_init_def Let_def and_then_Returns_iff)
  let ?d2 = "d2\<lparr>dv_factory := Some tr\<rparr>"
  from assms 1 2 obtain nif d3 nif' bs cs left1 d4 where
    3: "fold_outcome (sort_channel E) (channel_refs ?d2) (?d2, nif, [], []) = Returns (d3, nif', bs, cs)"
    and 4: "AttachChannels E bs d3 = Returns (left1, d4)"
    and 5: "AttachChannels E cs (announce INITIALIZING_DEVICE
        (if length left1 > 0 then request ERROR_FOUND d4 else d4)\<lparr>fInitialValidationFinished := True\<rparr>) = Returns (left, d)"
    by (auto simp: begin_init_def Let_def and_then_Returns_iff)
  note s = sort_channels_progress [OF 3]
  have "accounted (bs @ cs) d3" using s by (auto simp: accounted_def progressed_def)
  from AttachChannels_accounted [OF 4 this] have "accounted (left1 @ cs) d4" .
  moreover have "progressed d4 (announce INITIALIZING_DEVICE e\<lparr>fInitialValidationFinished := True\<rparr>)" if "progressed d4 e" for e
    using that by (simp add: progressed_def announce_def attached_def GetChannel_def channel_refs_def)
  ultimately have "accounted (left1 @ cs) (announce INITIALIZING_DEVICE
        (if length left1 > 0 then request ERROR_FOUND d4 else d4)\<lparr>fInitialValidationFinished := True\<rparr>)"
    by (auto intro: accounted_progressed)
  then have "accounted (cs @ []) (announce INITIALIZING_DEVICE
        (if length left1 > 0 then request ERROR_FOUND d4 else d4)\<lparr>fInitialValidationFinished := True\<rparr>)"
    by (auto simp: accounted_def announce_def request_def)
  from AttachChannels_accounted [OF 5 this] show ?thesis by simp
qed

lemma refresh_address_progress: "refresh_address r d = Returns d' \<Longrightarrow> progressed d d'"
  by (auto simp: refresh_address_def and_then_Returns_iff UpdateAddress_def split: if_splits intro!: progressed_put)

lemma refresh_addresses_progress: "fold_outcome refresh_address rs d = Returns d' \<Longrightarrow> progressed d d'"
  by (induction rs arbitrary: d) (auto simp: and_then_Returns_iff intro: progressed_trans dest: refresh_address_progress)

lemma connect_round_accounted:
  assumes "connect_round E k others (n, rs, d) = Returns (n', rs', d')" "accounted rs d"
  shows "accounted rs' d'"
proof -
  let ?d = "d\<lparr>dv_config := others (dv_config d)\<rparr>"
  from assms(1) obtain d1 where 1: "fold_outcome refresh_address rs ?d = Returns d1"
    "AttachChannels E rs (if n > k then request ERROR_FOUND d1 else d1) = Returns (rs', d')"
    by (auto simp: connect_round_def Let_def and_then_Returns_iff)
  have "progressed d ?d" by (simp add: progressed_def attached_def GetChannel_def channel_refs_def)
  then have "progressed d (if n > k then request ERROR_FOUND d1 else d1)"
    using refresh_addresses_progress [OF 1(1)] progressed_trans progressed_request by (metis (full_types))
  then have "accounted (rs @ []) (if n > k then request ERROR_FOUND d1 else d1)"
    unfolding append_Nil2 by (rule accounted_progressed [OF assms(2)])
  from AttachChannels_accounted [OF 1(2) this] show ?thesis by simp
qed

lemma connect_loop_accounted:
  "connect_loop E k rounds (n, rs, d) = Some (Returns d') \<Longrightarrow> accounted rs d \<Longrightarrow> accounted [] d'"
proof (induction rounds arbitrary: n rs d)
  case Nil
  then show ?case by (auto split: if_splits)
next
  case (Cons others rounds)
  show ?case
  proof (cases "rs = []")
    case False
    then obtain n1 rs1 d1 where 1: "connect_round E k others (n, rs, d) = Returns (n1, rs1, d1)"
      "connect_loop E k rounds (n1, rs1, d1) = Some (Returns d')"
      using Cons.prems(1) by (auto split: outcome.splits)
    show ?thesis by (rule Cons.IH [OF 1(2) connect_round_accounted [OF 1(1) Cons.prems(2)]])
  qed (use Cons.prems in simp)
qed

lemma InitWrapper_accounted:
  assumes "InitWrapper_dv E Init rounds d = Some (Returns d')"
    and "\<And>d d'. Init d = Returns d' \<Longrightarrow> progressed d d'"
  shows "accounted [] d' \<and> last (requested d') = internal_DEVICE_READY"
proof -
  from assms(1) obtain k rs d1 where 1: "begin_init E d = Returns (k, rs, d1)"
    by (auto simp: InitWrapper_dv_def split: outcome.splits)
  with assms(1) obtain d2 d3 where 2: "connect_loop E k rounds (1, rs, d1) = Some (Returns d2)" "Init d2 = Returns d3"
    "d' = request internal_DEVICE_READY d3"
    by (auto simp: InitWrapper_dv_def and_then_Returns_iff)
  have "accounted [] d2" by (rule connect_loop_accounted [OF 2(1) begin_init_accounted [OF 1]])
  then have "accounted [] d3" by (rule accounted_progressed [OF _ assms(2) [OF 2(2)]])
  then have "accounted [] d'" unfolding 2(3) by (rule accounted_progressed) simp
  then show ?thesis using 2(3) by (simp add: request_def)
qed

section \<open>Waiting for channels\<close>

text \<open>A sub-channel that connects to a TCP host with an unknown name is left over by every attempt.\<close>

definition unknown_host :: "('s, 'f) environment \<Rightarrow> factory \<Rightarrow> string \<Rightarrow> 's FairMQChannel \<Rightarrow> bool" where
  "unknown_host E f host ch \<longleftrightarrow>
     set host \<inter> {CHR '':'', CHR '','', CHR '';''} = {} \<and> getIpFromHostname (env_resolve E) host = '''' \<and>
     fMethod ch = ''connect'' \<and> fAddress ch = ''tcp://'' @ host @ '':5555'' \<and> fType ch \<in> set socketTypeNames \<and>
     0 \<le> fSndBufSize ch \<and> 0 \<le> fRcvBufSize ch \<and> 0 \<le> fSndKernelSize ch \<and> 0 \<le> fRcvKernelSize ch \<and> 0 \<le> fRateLogging ch \<and>
     fTransportType ch \<in> {DEFAULT, fTransportType_of f}"

definition unreachable :: "('s, 'f) environment \<Rightarrow> string \<times> nat \<Rightarrow> string \<Rightarrow> ('s, 'f, 'c) FairMQDevice \<Rightarrow> bool" where
  "unreachable E r host d \<longleftrightarrow>
     (\<exists>f ch. dv_factory d = Some f \<and> GetChannel (fst r) (snd r) d = Returns ch \<and>
        fName ch = subchannel_name (fst r) (snd r) \<and> unknown_host E f host ch \<and> published r ch d)"

lemma unknown_host_keeps:
  assumes "unknown_host E f host ch"
  shows "unknown_host E f host (InitTransport f ch)" "unknown_host E f host (ch\<lparr>fSocket := s\<rparr>)"
    "unknown_host E f host (ch\<lparr>fIsValid := b\<rparr>)"
  using assms by (auto simp: unknown_host_def InitTransport_def)

lemma unknown_host_config_ok:
  assumes "unknown_host E f host ch"
  shows "config_ok ch"
proof -
  have "split_any '';'' (fAddress ch) = [fAddress ch]" using assms by (intro split_any_no_sep) (auto simp: unknown_host_def)
  moreover have "endpoint_ok (fMethod ch) (fAddress ch)"
    using assms by (simp add: unknown_host_def endpoint_ok_def has_modifier_def socketMethodNames_def address_ok_def)
  ultimately show ?thesis using assms by (simp add: config_ok_def unknown_host_def)
qed

lemma resolve_unknown_host:
  assumes "unknown_host E f host ch"
  shows "resolve_address E False (fAddress ch) = None"
proof -
  have "str_find CHR '':'' (host @ '':5555'') = Some (length host)"
    using assms by (intro str_find_split) (simp add: unknown_host_def)
  then show ?thesis using assms by (simp add: resolve_address_def starts_with_def unknown_host_def)
qed

lemma AttachChannel_unknown_host:
  assumes "unknown_host E f host ch" "dv_factory d = Some f" "\<And>f t n. \<exists>s. CreateSocket E f t n = Returns s"
  shows "\<exists>ch'. AttachChannel E ch d = Returns (False, ch', d) \<and> unknown_host E f host ch' \<and> fName ch' = fName ch"
proof -
  let ?ch = "InitTransport f ch"
  note u = unknown_host_keeps(1) [OF assms(1)]
  have tr: "channel_transport E f ch d = Returns (?ch, d)"
    using assms(1) by (auto simp: channel_transport_def unknown_host_def)
  have sp: "split_any '','' (fAddress ?ch) = [fAddress ?ch]" using u by (intro split_any_no_sep) (auto simp: unknown_host_def)
  have "parse_endpoint (fMethod ?ch) (fAddress ?ch) = (False, False, fAddress ?ch)"
    using u by (simp add: parse_endpoint_def unknown_host_def)
  moreover have "\<exists>s. (case fSocket ?ch of Some s \<Rightarrow> Returns s
      | None \<Rightarrow> (case fTransportFactory ?ch of None \<Rightarrow> Undefined | Some f \<Rightarrow> CreateSocket E f (fType ?ch) (fName ?ch))) = Returns s"
    using assms(3) by (simp add: InitTransport_def split: option.split)
  ultimately obtain s where "attach_endpoint E (fAddress ?ch) (?ch, d) = Returns (False, fAddress ?ch, ?ch\<lparr>fSocket := Some s\<rparr>, d)"
    using resolve_unknown_host [OF u] by (force simp: attach_endpoint_def)
  then have "AttachChannel E ch d = Returns (False, ?ch\<lparr>fSocket := Some s\<rparr>, d)"
    using tr sp assms(2) by (simp add: AttachChannel_def)
  then show ?thesis using unknown_host_keeps(2) [OF u] by (auto simp: InitTransport_def)
qed

lemma refresh_published:
  assumes "GetChannel (fst r) (snd r) d = Returns ch" "fName ch = subchannel_name (fst r) (snd r)" "published r ch d"
  shows "refresh_address r d = Returns d"
  using assms address_key_subchannel [OF assms(2)]
  by (simp add: refresh_address_def get_string_def GetValue_def published_def as_string_def GetAddress_def)

lemma AttachChannels_unreachable:
  assumes "unreachable E r host d" "\<And>f t n. \<exists>s. CreateSocket E f t n = Returns s"
  shows "\<exists>d'. AttachChannels E [r] d = Returns ([r], d') \<and> unreachable E r host d' \<and>
    requested d' = requested d \<and> dv_config d' = dv_config d"
proof -
  from assms(1) obtain f ch where ch: "dv_factory d = Some f" "GetChannel (fst r) (snd r) d = Returns ch"
    "fName ch = subchannel_name (fst r) (snd r)" "unknown_host E f host ch" "published r ch d"
    by (auto simp: unreachable_def)
  have v: "ValidateChannel ch = Returns (True, ch\<lparr>fIsValid := True\<rparr>)"
    using unknown_host_config_ok [OF ch(4)] by (simp add: ValidateChannel_True_iff)
  from AttachChannel_unknown_host [OF unknown_host_keeps(3) [OF ch(4), of True] ch(1) assms(2)] obtain ch' where
    ch': "AttachChannel E (ch\<lparr>fIsValid := True\<rparr>) d = Returns (False, ch', d)" "unknown_host E f host ch'" "fName ch' = fName ch"
    by auto
  let ?d = "put_channel r ch' d"
  have "AttachChannels E [r] d = Returns ([r], ?d)" using ch(2) v ch'(1) by simp
  moreover have "GetChannel (fst r) (snd r) ?d = Returns ch'"
    using GetChannel_put [OF ch(2), of "fst r" "snd r" ch'] by simp
  moreover have "published r ch' ?d" using ch(4,5) ch'(2) by (simp add: published_def unknown_host_def put_channel_def)
  ultimately show ?thesis using ch' ch(1,3) by (auto simp: unreachable_def put_channel_def)
qed

lemma connect_round_unreachable:
  assumes "unreachable E r host d" "\<And>f t n. \<exists>s. CreateSocket E f t n = Returns s"
  shows "\<exists>d'. connect_round E k (\<lambda>c. c) (n, [r], d) = Returns (n + 1, [r], d') \<and> unreachable E r host d' \<and>
    requested d' = requested d @ (if n > k then [ERROR_FOUND] else [])"
proof -
  define d1 where "d1 = (if n > k then request ERROR_FOUND d else d)"
  have "unreachable E r host d1" using assms(1) by (auto simp: d1_def request_def unreachable_def GetChannel_def published_def)
  from AttachChannels_unreachable [OF this assms(2)] obtain d' where
    d': "AttachChannels E [r] d1 = Returns ([r], d')" "unreachable E r host d'" "requested d' = requested d1" by auto
  have "refresh_address r d = Returns d" using assms(1) by (auto simp: unreachable_def intro: refresh_published)
  then have "connect_round E k (\<lambda>c. c) (n, [r], d) = Returns (n + 1, [r], d')"
    using d'(1) by (simp add: connect_round_def d1_def del: AttachChannels.simps)
  then show ?thesis using d' by (simp add: d1_def request_def)
qed

lemma connect_loop_unreachable:
  assumes "\<And>f t n. \<exists>s. CreateSocket E f t n = Returns s"
  shows "unreachable E r host d \<Longrightarrow> connect_loop E k (replicate m (\<lambda>c. c)) (n, [r], d) = None"
proof (induction m arbitrary: n d)
  case (Suc m)
  from connect_round_unreachable [OF Suc.prems assms, of k n] obtain d' where
    "connect_round E k (\<lambda>c. c) (n, [r], d) = Returns (n + 1, [r], d')" "unreachable E r host d'" by blast
  then show ?case using Suc.IH [of d' "n + 1"] by (subst connect_loop.simps) (simp del: connect_loop.simps)
qed simp

section \<open>Properties\<close>

text \<open>
  C31: Binding with random ports is bounded: for an address that ends in a colon and a port, and a generator
  that draws from the given range, \<open>BindEndpoint\<close> draws at most a thousand ports, the endpoint it leaves is the
  given one or the same with a port of the range, and it reports success exactly when the socket accepted
  that endpoint; it reports a failure only after a thousand draws.
\<close>

theorem BindEndpoint_bounded:
  assumes "BindEndpoint E (a @ CHR '':'' # p) s d = (ok, e, s', d')" "CHR '':'' \<notin> set p"
    and "\<And>k. randomPort E k (fPortRangeMin d) (fPortRangeMax d) \<in> {fPortRangeMin d..fPortRangeMax d}"
  shows "(e = a @ CHR '':'' # p \<or> (\<exists>q \<in> {fPortRangeMin d..fPortRangeMax d}. e = a @ CHR '':'' # int_to_string q)) \<and>
    d' = d\<lparr>draws := draws d'\<rparr> \<and> draws d \<le> draws d' \<and> draws d' \<le> draws d + 1000 \<and>
    (if ok then \<exists>s0. vBind (env_socket E) e s0 = (True, s') else draws d' = draws d + 1000)"
proof -
  obtain k' where k': "bind_loop E (fPortRangeMin d) (fPortRangeMax d) 1000 (a @ CHR '':'' # p, s, draws d) = (ok, e, s', k')"
    and d': "d' = d\<lparr>draws := k'\<rparr>"
    using assms(1) by (auto simp: BindEndpoint_def simp del: bind_loop.simps split: prod.splits)
  from bind_loop_result [OF k' assms(2)] assms(3) show ?thesis unfolding d' by auto
qed

text \<open>A machine on which the first two ports are in use and one host is known.\<close>

definition busy_host :: "(nat, nat) environment" where
  "busy_host =
     \<lparr>env_socket = counting_socket\<lparr>vBind := \<lambda>e n. (2 \<le> n, Suc n)\<rparr>, CreateSocket = \<lambda>_ _ _. Returns 0,
      has_nanomsg = False, has_ofi = False, new_uuid = ''uuid'',
      env_ifaddrs = Some [(''lo'', Some (True, Some ''127.0.0.1''))], env_route = None,
      env_resolve = (\<lambda>h. Returns (if h = ''127.0.0.1'' then [(True, h)] else [])),
      randomPort = (\<lambda>k lo hi. lo + int k), env_printers = plain_printers, float_zero = 0\<rparr>"

definition local_vars :: "string \<Rightarrow> (string \<times> nat variable_value) list" where
  "local_vars address = map (\<lambda>(k, v). (k, \<lparr>v_value = v, v_defaulted = False\<rparr>))
     [(''chans.data.0.address'', VString address), (''id'', VString ''sink''), (''initialization-timeout'', VInt 1),
      (''network-interface'', VString ''lo''), (''port-range-max'', VInt 32000), (''port-range-min'', VInt 22000),
      (''rate'', VFloat 0), (''transport'', VString ''zeromq'')]"

definition local_device :: "string \<Rightarrow> string \<Rightarrow> (nat, nat, nat) FairMQDevice" where
  "local_device method address =
     new_FairMQDevice 0 (sink_config\<lparr>fVarMap := local_vars address,
       fFairMQChannelMap := [(''data'', [FairMQChannel_configured ''pull'' method address])]\<rparr>)"

definition first_port :: "(nat, nat) environment" where
  "first_port = busy_host\<lparr>randomPort := \<lambda>k lo hi. lo\<rparr>"

lemma first_port_fields [simp]:
  "CreateSocket first_port f t n = Returns 0" "env_printers first_port = plain_printers" "set_options first_port c s = s"
  by (simp_all add: first_port_def busy_host_def set_options_def counting_socket_def Let_def)

lemma first_port_bind:
  assumes "fPortRangeMin d = 22000" "draws d = 0"
  shows "BindEndpoint first_port ''tcp://*:5555'' 0 d = (True, ''tcp://*:22000'', 3, d\<lparr>draws := 2\<rparr>)"
proof -
  have c: "char_of (50 :: nat) = CHR ''2''" "char_of (48 :: nat) = CHR ''0''" by code_simp+
  have port: "with_port ''tcp://*:5555'' 22000 = ''tcp://*:22000''" "with_port ''tcp://*:22000'' 22000 = ''tcp://*:22000''"
    by (simp_all add: with_port_def int_to_string_def nat_to_string.simps digit_char_def c)
  have "bind_loop first_port 22000 hi (Suc (Suc n)) (''tcp://*:5555'', 0, 0) = (True, ''tcp://*:22000'', 3, 2)" for n hi
    using port by (simp add: first_port_def busy_host_def)
  from this [of _ 998] have "bind_loop first_port 22000 hi 1000 (''tcp://*:5555'', 0, 0) = (True, ''tcp://*:22000'', 3, 2)" for hi
    by (simp del: bind_loop.simps)
  then show ?thesis using assms by (simp add: BindEndpoint_def del: bind_loop.simps)
qed

theorem BindEndpoint_bounded_witness:
  "\<exists>d'. BindEndpoint first_port ''tcp://*:5555'' 0 (local_device ''bind'' ''tcp://*:5555'') =
     (True, ''tcp://*:22000'', 3, d') \<and> draws d' \<le> 1000"
proof -
  let ?d = "local_device ''bind'' ''tcp://*:5555''"
  have d: "fPortRangeMin ?d = 22000" "fPortRangeMax ?d = 32000" "draws ?d = 0"
    by (simp_all add: local_device_def new_FairMQDevice_def)
  note b = first_port_bind [OF d(1,3)]
  have "draws (?d\<lparr>draws := 2\<rparr>) \<le> draws ?d + 1000"
    using BindEndpoint_bounded [of first_port "''tcp://*''" "''5555''", simplified, OF b] d by (simp add: first_port_def)
  then show ?thesis using b d by simp
qed

text \<open>
  C32: Attaching a channel keeps device and configuration in agreement: where the configuration agrees with
  its channels and has the address of the sub-channel, \<open>AttachChannel\<close> leaves a configuration that agrees and
  has the address the sub-channel then has, the resolved hosts and the ports drawn included.
\<close>

theorem AttachChannel_publishes:
  assumes "AttachChannel E ch d = Returns (ok, ch', d')" "fName ch = subchannel_name n i"
    and "config_agrees (dv_config d)" "map_of (fFairMQChannelMap (dv_config d)) n = Some cs" "i < length cs"
    and "lookup_var (dv_config d) (chan_key n i ''address'') = Some (VString (fAddress ch))"
  shows "config_agrees (dv_config d') \<and>
    lookup_var (dv_config d') (chan_key n i ''address'') = Some (VString (fAddress ch')) \<and>
    (ok \<longrightarrow> fSocket ch' \<noteq> None)"
  using AttachChannel_agrees [OF assms(1-5)] AttachChannel_Returns [OF assms(1)] assms(6)
  by (simp add: published_def)

definition bound_config :: "(nat, nat, nat) FairMQProgOptions" where
  "bound_config =
     (case UpdateChannelMap [(''data'', [FairMQChannel_configured ''pull'' ''bind'' ''tcp://*:5555''])] sink_config of Returns st \<Rightarrow> st)"

lemma bound_config:
  "config_agrees bound_config"
  "fFairMQChannelMap bound_config = [(''data'', [FairMQChannel_copy (FairMQChannel_configured ''pull'' ''bind'' ''tcp://*:5555'')])]"
proof -
  have "sorted_map (fVarMap sink_config)"
    by (simp add: sink_config_def new_FairMQProgOptions_def ParseDefaults_def store_def)
  from UpdateChannelMap_agrees [OF this, of "[(''data'', [FairMQChannel_configured ''pull'' ''bind'' ''tcp://*:5555''])]"]
  show "config_agrees bound_config"
    "fFairMQChannelMap bound_config = [(''data'', [FairMQChannel_copy (FairMQChannel_configured ''pull'' ''bind'' ''tcp://*:5555'')])]"
    by (auto simp: bound_config_def)
qed

theorem AttachChannel_publishes_witness:
  "\<exists>ch' d'. AttachChannel first_port
       ((FairMQChannel_configured ''pull'' ''bind'' ''tcp://*:5555'')\<lparr>fName := ''data[0]''\<rparr>)
       ((new_FairMQDevice 0 bound_config)\<lparr>dv_factory := Some \<lparr>fTransportType_of = ZMQ, fkId = ''sink''\<rparr>\<rparr>) =
       Returns (True, ch', d') \<and>
     config_agrees (dv_config d') \<and>
     lookup_var (dv_config d') (chan_key ''data'' 0 ''address'') = Some (VString ''tcp://*:22000'')"
proof -
  let ?c = "FairMQChannel_configured ''pull'' ''bind'' ''tcp://*:5555'' :: nat FairMQChannel"
  let ?f = "\<lparr>fTransportType_of = ZMQ, fkId = ''sink''\<rparr>"
  let ?d = "(new_FairMQDevice 0 bound_config)\<lparr>dv_factory := Some ?f\<rparr>"
  let ?ch = "?c\<lparr>fName := ''data[0]''\<rparr>"
  let ?d2 = "?d\<lparr>draws := 2\<rparr>"
  have n: "''data[0]'' = subchannel_name ''data'' 0" by code_simp
  have b: "BindEndpoint first_port ''tcp://*:5555'' 0 ?d = (True, ''tcp://*:22000'', 3, ?d2)"
    by (rule first_port_bind) (simp_all add: new_FairMQDevice_def)
  define ch2 where "ch2 = (InitTransport ?f ?ch)\<lparr>fSocket := Some 3\<rparr>"
  have e: "attach_endpoint first_port ''tcp://*:5555'' (InitTransport ?f ?ch, ?d) = Returns (True, ''tcp://*:22000'', ch2, ?d2)"
    using b by (simp add: attach_endpoint_def InitTransport_def FairMQChannel_configured_def parse_endpoint_def
        resolve_address_def starts_with_def ch2_def)
  from SetValue_agrees [OF bound_config(1), of "''data''" _ 0 "''address''" "VString ''tcp://*:22000''" plain_printers] bound_config(2)
  obtain st' where st': "SetValue plain_printers (chan_key ''data'' 0 ''address'') (VString ''tcp://*:22000'') bound_config = Returns st'"
    by (auto simp: settable_def)
  let ?ch' = "UpdateAddress ''tcp://*:22000'' ch2" and ?d' = "?d2\<lparr>dv_config := st'\<rparr>"
  have "address_key ?ch' = Returns (chan_key ''data'' 0 ''address'')"
    using n by (intro address_key_subchannel) (simp add: ch2_def UpdateAddress_def InitTransport_def)
  then have p: "publish_address first_port [''tcp://*:22000''] ch2 ?d2 = Returns (?ch', ?d')"
    using st' by (simp add: publish_address_def ch2_def InitTransport_def FairMQChannel_configured_def new_FairMQDevice_def)
  have a: "AttachChannel first_port ?ch ?d = Returns (True, ?ch', ?d')"
    using e p by (simp add: AttachChannel_def channel_transport_def FairMQChannel_configured_def InitTransport_def map_outcome_result_def)
  have "lookup_var bound_config (chan_key ''data'' 0 ''address'') = Some (VString (fAddress ?ch))"
    using config_agreesD(1) [OF bound_config(1), of "''data''" _ 0] bound_config(2)
    by (simp add: channel_agrees_def member_values_def GetAddress_def FairMQChannel_copy_def FairMQChannel_configured_def)
  with AttachChannel_publishes [OF a, of "''data''" 0] n bound_config
  have "config_agrees (dv_config ?d') \<and> lookup_var (dv_config ?d') (chan_key ''data'' 0 ''address'') = Some (VString (fAddress ?ch'))"
    by (simp add: new_FairMQDevice_def)
  moreover have "fAddress ?ch' = ''tcp://*:22000''" by (simp add: UpdateAddress_def)
  ultimately show ?thesis using a by metis
qed

text \<open>
  C9: Initialisation leaves nothing behind: if \<open>InitWrapper\<close> returns, whatever other threads did to the
  configuration meanwhile and whatever the user's \<open>Init\<close> does besides closing sockets, then every
  sub-channel of the device has a socket, or an error was requested; the last request is
  \<open>internal_DEVICE_READY\<close>, also in the second case.
\<close>

theorem InitWrapper_attaches:
  assumes "InitWrapper_dv E Init rounds d = Some (Returns d')"
    and "\<And>d d'. Init d = Returns d' \<Longrightarrow> progressed d d'"
  shows "((\<forall>r \<in> set (channel_refs d'). \<exists>ch. GetChannel (fst r) (snd r) d' = Returns ch \<and> fSocket ch \<noteq> None) \<or>
      ERROR_FOUND \<in> set (requested d')) \<and> last (requested d') = internal_DEVICE_READY"
  using InitWrapper_accounted [OF assms] by (simp add: accounted_def attached_iff)

text \<open>A device with a bound channel and one that connects to an unknown host, after reading the configuration.\<close>

lemma local_vars_lookup:
  "map_of (local_vars a) ''id'' = Some \<lparr>v_value = VString ''sink'', v_defaulted = False\<rparr>"
  "map_of (local_vars a) ''rate'' = Some \<lparr>v_value = VFloat 0, v_defaulted = False\<rparr>"
  "map_of (local_vars a) ''port-range-min'' = Some \<lparr>v_value = VInt 22000, v_defaulted = False\<rparr>"
  "map_of (local_vars a) ''port-range-max'' = Some \<lparr>v_value = VInt 32000, v_defaulted = False\<rparr>"
  "map_of (local_vars a) ''transport'' = Some \<lparr>v_value = VString ''zeromq'', v_defaulted = False\<rparr>"
  "map_of (local_vars a) ''network-interface'' = Some \<lparr>v_value = VString ''lo'', v_defaulted = False\<rparr>"
  "map_of (local_vars a) ''initialization-timeout'' = Some \<lparr>v_value = VInt 1, v_defaulted = False\<rparr>"
  "map_of (local_vars a) ''chans.data.0.address'' = Some \<lparr>v_value = VString a, v_defaulted = False\<rparr>"
  by (simp_all add: local_vars_def)

definition local_sorted :: "string \<Rightarrow> string \<Rightarrow> (nat, nat, nat) FairMQDevice" where
  "local_sorted method address = (local_device method address)\<lparr>fId := ''sink'', fDefaultTransportType := ZMQ,
     fTransports := [(ZMQ, \<lparr>fTransportType_of = ZMQ, fkId = ''sink''\<rparr>)],
     dv_factory := Some \<lparr>fTransportType_of = ZMQ, fkId = ''sink''\<rparr>,
     fChannels := [(''data'', [(FairMQChannel_copy (FairMQChannel_configured ''pull'' method address))\<lparr>fName := subchannel_name ''data'' 0\<rparr>])]\<rparr>"

lemma begin_init_local:
  assumes "method = ''bind'' \<or> method = ''connect''" "address \<noteq> ''unspecified''" "address \<noteq> ''''" "has_nanomsg E = False" "has_ofi E = False"
  shows "begin_init E (local_device method address) =
    and_then (AttachChannels E (if method = ''bind'' then [(''data'', 0)] else []) (local_sorted method address))
     (\<lambda>(binding, d).
        let d = (if length binding > 0 then request ERROR_FOUND d else d);
            d = announce INITIALIZING_DEVICE d;
            d = d\<lparr>fInitialValidationFinished := True\<rparr>
        in and_then (get_int_value ''initialization-timeout'' (dv_config d))
     (\<lambda>timeout. and_then (AttachChannels E (if method = ''bind'' then [] else [(''data'', 0)]) d)
     (\<lambda>(connecting, d). Returns (timeout * 1000 div 50, connecting, d))))"
proof -
  let ?d0 = "(local_device method address)\<lparr>fId := ''sink'', fDefaultTransportType := ZMQ\<rparr>"
  have r: "read_config E (local_device method address) = Returns ?d0"
    by (simp add: read_config_def local_device_def new_FairMQDevice_def get_string_def get_int_value_def GetValue_def lookup_var_def
        local_vars_lookup as_string_def as_int_def as_float_def TransportType_at_def TransportTypes_def map_at_def)
  have m: "merge_channels ?d0 = ?d0\<lparr>fChannels := [(''data'', [FairMQChannel_copy (FairMQChannel_configured ''pull'' method address)])]\<rparr>"
    by (simp add: merge_channels_def GetFairMQMap_def merge_channel_def local_device_def new_FairMQDevice_def)
  let ?d1 = "?d0\<lparr>fChannels := [(''data'', [FairMQChannel_copy (FairMQChannel_configured ''pull'' method address)])],
     fTransports := [(ZMQ, \<lparr>fTransportType_of = ZMQ, fkId = ''sink''\<rparr>)]\<rparr>"
  have a: "AddTransport E ZMQ (merge_channels ?d0) = Returns (\<lparr>fTransportType_of = ZMQ, fkId = ''sink''\<rparr>, ?d1)"
    unfolding m by (simp add: AddTransport_def local_device_def new_FairMQDevice_def TransportName_at_def TransportNames_def map_at_def
        CreateTransportFactory_def)
  let ?d2 = "?d1\<lparr>dv_factory := Some \<lparr>fTransportType_of = ZMQ, fkId = ''sink''\<rparr>\<rparr>"
  have n: "get_string ''network-interface'' (dv_config ?d2) = Returns ''lo''"
    by (simp add: local_device_def new_FairMQDevice_def get_string_def GetValue_def lookup_var_def local_vars_lookup as_string_def)
  have s: "sort_channel E (''data'', 0) (?d2, ''lo'', [], []) =
      Returns (local_sorted method address, ''lo'', if method = ''bind'' then [(''data'', 0)] else [], if method = ''bind'' then [] else [(''data'', 0)])"
    using assms(1-3) by (auto simp: sort_channel_def GetChannel_def map_at_def vector_at_def put_channel_def local_sorted_def Let_def
        local_device_def new_FairMQDevice_def FairMQChannel_copy_def FairMQChannel_configured_def)
  have c: "channel_refs ?d2 = [(''data'', 0)]" by (simp add: channel_refs_def)
  have "fDefaultTransportType (merge_channels ?d0) = ZMQ" unfolding m by simp
  then show ?thesis using r a n s c by (simp add: begin_init_def)
qed

definition idle_host :: "(nat, nat) environment" where
  "idle_host = first_port\<lparr>env_socket := counting_socket\<rparr>"

lemma attach_local:
  "\<exists>ch d'. AttachChannels idle_host [(''data'', 0)] (local_sorted ''bind'' ''tcp://*:5555'') =
     Returns ([], d') \<and> dv_config d' = dv_config (local_sorted ''bind'' ''tcp://*:5555'') \<and>
     fChannels d' = [(''data'', [ch])] \<and> requested d' = []"
proof -
  let ?c = "(FairMQChannel_copy (FairMQChannel_configured ''pull'' ''bind'' ''tcp://*:5555'') :: nat FairMQChannel)
    \<lparr>fName := subchannel_name ''data'' 0\<rparr>"
  let ?d = "local_sorted ''bind'' ''tcp://*:5555''"
  have g: "GetChannel ''data'' 0 ?d = Returns ?c" by (simp add: GetChannel_def local_sorted_def map_at_def vector_at_def)
  have "config_ok ?c"
    by (simp add: config_ok_def FairMQChannel_copy_def FairMQChannel_configured_def socketTypeNames_def socketMethodNames_def
        endpoint_ok_def has_modifier_def address_ok_def)
  then have v: "ValidateChannel ?c = Returns (True, ?c\<lparr>fIsValid := True\<rparr>)" by (simp add: ValidateChannel_True_iff)
  have b: "BindEndpoint idle_host a s d = (True, a, Suc s, d)" for a s and d :: "(nat, nat, nat) FairMQDevice"
    by (simp add: BindEndpoint_def idle_host_def counting_socket_def)
  have s: "CreateSocket idle_host f t n = Returns 0" "set_options idle_host c s = s" for f t n c s
    by (simp_all add: idle_host_def set_options_def counting_socket_def Let_def)
  have "\<exists>ch. AttachChannel idle_host (?c\<lparr>fIsValid := True\<rparr>) ?d = Returns (True, ch, ?d)"
    by (simp add: AttachChannel_def channel_transport_def local_sorted_def FairMQChannel_copy_def FairMQChannel_configured_def
        InitTransport_def attach_endpoint_def s parse_endpoint_def resolve_address_def starts_with_def b publish_address_def
        map_outcome_result_def)
  then show ?thesis using g v by (auto simp: put_channel_def local_sorted_def local_device_def new_FairMQDevice_def)
qed

theorem InitWrapper_attaches_witness:
  "\<exists>d'. InitWrapper_dv idle_host Returns [] (local_device ''bind'' ''tcp://*:5555'') = Some (Returns d') \<and>
     ERROR_FOUND \<notin> set (requested d') \<and> (\<exists>ch. GetChannel ''data'' 0 d' = Returns ch \<and> fSocket ch \<noteq> None)"
proof -
  let ?d = "local_device ''bind'' ''tcp://*:5555''"
  from attach_local obtain ch d1 where d1: "AttachChannels idle_host [(''data'', 0)] (local_sorted ''bind'' ''tcp://*:5555'') = Returns ([], d1)"
    "dv_config d1 = dv_config (local_sorted ''bind'' ''tcp://*:5555'')" "fChannels d1 = [(''data'', [ch])]" "requested d1 = []" by auto
  let ?d2 = "(announce INITIALIZING_DEVICE d1)\<lparr>fInitialValidationFinished := True\<rparr>"
  have "get_int_value ''initialization-timeout'' (dv_config d1) = Returns 1"
    by (simp add: d1(2) local_sorted_def local_device_def new_FairMQDevice_def get_int_value_def GetValue_def lookup_var_def
        local_vars_lookup as_int_def)
  then have "begin_init idle_host ?d = Returns (20, [], ?d2)"
    using d1 by (subst begin_init_local) (simp_all add: idle_host_def first_port_def busy_host_def announce_def)
  then have i: "InitWrapper_dv idle_host Returns [] ?d = Some (Returns (request internal_DEVICE_READY ?d2))"
    by (simp add: InitWrapper_dv_def)
  have "((\<forall>r \<in> set (channel_refs (request internal_DEVICE_READY ?d2)).
      \<exists>ch. GetChannel (fst r) (snd r) (request internal_DEVICE_READY ?d2) = Returns ch \<and> fSocket ch \<noteq> None) \<or>
      ERROR_FOUND \<in> set (requested (request internal_DEVICE_READY ?d2)))"
    using InitWrapper_attaches [OF i] by simp
  then show ?thesis using i d1 by (simp add: request_def announce_def channel_refs_def)
qed

text \<open>
  C40: The time limit of the initialisation does not end it: while a channel connects to a host whose name
  cannot be resolved, \<open>InitWrapper\<close> is still in its loop after any number of rounds, and every round after
  \<open>maxAttempts\<close> requests \<open>ERROR_FOUND\<close> once more.
\<close>

theorem InitWrapper_never_gives_up:
  assumes "begin_init E d = Returns (k, [r], d1)" "unreachable E r host d1"
    and "\<And>f t n. \<exists>s. CreateSocket E f t n = Returns s"
  shows "InitWrapper_dv E Init (replicate m (\<lambda>c. c)) d = None \<and>
    (\<forall>n > k. \<exists>d'. connect_round E k (\<lambda>c. c) (n, [r], d1) = Returns (n + 1, [r], d') \<and> requested d' = requested d1 @ [ERROR_FOUND])"
  using assms(1) connect_loop_unreachable [OF assms(3,2), of k m 1] connect_round_unreachable [OF assms(2,3), of k]
  by (fastforce simp: InitWrapper_dv_def simp del: connect_loop.simps)

theorem InitWrapper_never_gives_up_witness:
  "InitWrapper_dv busy_host Returns (replicate 1000 (\<lambda>c. c)) (local_device ''connect'' ''tcp://nowhere:5555'') = None"
proof -
  let ?d = "local_device ''connect'' ''tcp://nowhere:5555''" and ?s = "local_sorted ''connect'' ''tcp://nowhere:5555''"
  let ?d1 = "(announce INITIALIZING_DEVICE ?s)\<lparr>fInitialValidationFinished := True\<rparr>"
  have cs: "\<exists>s. CreateSocket busy_host f t n = Returns s" for f t n by (simp add: busy_host_def)
  have "chan_key ''data'' 0 ''address'' = ''chans.data.0.address''" by code_simp
  then have "unreachable busy_host (''data'', 0) ''nowhere'' ?d1"
    by (simp add: unreachable_def unknown_host_def published_def announce_def local_sorted_def local_device_def new_FairMQDevice_def
        GetChannel_def map_at_def vector_at_def lookup_var_def local_vars_lookup FairMQChannel_copy_def FairMQChannel_configured_def
        socketTypeNames_def getIpFromHostname_def busy_host_def)
  from AttachChannels_unreachable [OF this cs] obtain d' where
    d': "AttachChannels busy_host [(''data'', 0)] ?d1 = Returns ([(''data'', 0)], d')" "unreachable busy_host (''data'', 0) ''nowhere'' d'" by auto
  have "get_int_value ''initialization-timeout'' (dv_config ?d1) = Returns 1"
    by (simp add: announce_def local_sorted_def local_device_def new_FairMQDevice_def get_int_value_def GetValue_def lookup_var_def
        local_vars_lookup as_int_def)
  then have "begin_init busy_host ?d = Returns (20, [(''data'', 0)], d')"
    using d' by (subst begin_init_local) (simp_all add: busy_host_def del: AttachChannels.simps(2))
  from InitWrapper_never_gives_up [OF this d'(2) cs] show ?thesis by blast
qed

end
