(* ===== verification/Socket_Rates.thy ===== *)
theory Socket_Rates
  imports Device Complex_Main
begin

text \<open>
  The rate logger of a running device, \<open>FairMQDevice::LogSocketRates\<close>: which sub-channels are logged, when,
  and which numbers. The threads that transfer data change the counters of the sockets meanwhile, so that
  what the logger reads and the milliseconds between its rounds are arguments. Rates are rational numbers
  in place of the floating-point numbers of the code.
\<close>

section \<open>The logger\<close>

record counters =
  bytesIn :: uint64
  msgIn :: uint64
  bytesOut :: uint64
  msgOut :: uint64

record logged_socket =
  filteredChannelName :: string
  logInterval :: int
  intervalCounter :: int
  last_counters :: counters

record rates =
  mbPerSecIn :: rat
  msgPerSecIn :: rat
  mbPerSecOut :: rat
  msgPerSecOut :: rat

definition read_counters :: "'s FairMQSocket \<Rightarrow> 's \<Rightarrow> counters" where
  "read_counters v s = \<lparr>bytesIn = vGetBytesRx v s, msgIn = vGetMessagesRx v s, bytesOut = vGetBytesTx v s, msgOut = vGetMessagesTx v s\<rparr>"

text \<open>The sub-channels that are logged, with their sockets; a missing socket is a null pointer.\<close>

definition filter_sockets :: "('s, 'f, 'c) FairMQDevice \<Rightarrow> (string \<times> int \<times> 's option) list" where
  "filter_sockets d =
     concat (map (\<lambda>(n, cs). map (\<lambda>(i, c). (subchannel_name n i, fRateLogging c, fSocket c))
                               (filter (\<lambda>(i, c). fRateLogging c > 0) (enumerate 0 cs))) (fChannels d))"

definition start_logging :: "'s FairMQSocket \<Rightarrow> ('s, 'f, 'c) FairMQDevice \<Rightarrow> logged_socket list outcome" where
  "start_logging v d =
     fold_outcome (\<lambda>(name, interval, socket) xs.
        case socket of
          None \<Rightarrow> Undefined
        | Some s \<Rightarrow> Returns (xs @ [\<lparr>filteredChannelName = name, logInterval = interval, intervalCounter = 0, last_counters = read_counters v s\<rparr>]))
       (filter_sockets d) []"

definition mb_rate :: "uint64 \<Rightarrow> uint64 \<Rightarrow> nat \<Rightarrow> rat" where
  "mb_rate new old ms = (of_nat (unat (new - old)) / (1000 * 1000)) / of_nat ms * 1000"

definition msg_rate :: "uint64 \<Rightarrow> uint64 \<Rightarrow> nat \<Rightarrow> rat" where
  "msg_rate new old ms = of_nat (unat (new - old)) / of_nat ms * 1000"

text \<open>One socket in one round, \<open>ms\<close> milliseconds after the round before.\<close>

definition log_socket :: "nat \<Rightarrow> counters \<Rightarrow> logged_socket \<Rightarrow> rates option \<times> logged_socket" where
  "log_socket ms new l =
     (let l = l\<lparr>intervalCounter := intervalCounter l + 1\<rparr>
      in if intervalCounter l = logInterval l
         then (Some \<lparr>mbPerSecIn = mb_rate (bytesIn new) (bytesIn (last_counters l)) ms,
                     msgPerSecIn = msg_rate (msgIn new) (msgIn (last_counters l)) ms,
                     mbPerSecOut = mb_rate (bytesOut new) (bytesOut (last_counters l)) ms,
                     msgPerSecOut = msg_rate (msgOut new) (msgOut (last_counters l)) ms\<rparr>,
               l\<lparr>intervalCounter := 0, last_counters := new\<rparr>)
         else (None, l))"

definition log_round :: "nat \<times> counters list \<Rightarrow> logged_socket list \<Rightarrow> (string \<times> rates) list \<times> logged_socket list" where
  "log_round r ls =
     (let res = map2 (log_socket (fst r)) (snd r) ls
      in (concat (map2 (\<lambda>(x, _) l. case x of None \<Rightarrow> [] | Some y \<Rightarrow> [(filteredChannelName l, y)]) res ls), map snd res))"

fun log_rounds :: "(nat \<times> counters list) list \<Rightarrow> logged_socket list \<Rightarrow> (string \<times> rates) list \<times> logged_socket list" where
  "log_rounds [] ls = ([], ls)"
| "log_rounds (r # rs) ls =
     (let (out, ls) = log_round r ls; (outs, ls) = log_rounds rs ls in (out @ outs, ls))"

section \<open>One socket\<close>

lemma log_round_one:
  "log_round (ms, [new]) [l] =
     (case log_socket ms new l of (x, l') \<Rightarrow> (case x of None \<Rightarrow> [] | Some y \<Rightarrow> [(filteredChannelName l, y)], [l']))"
  by (simp add: log_round_def Let_def split: prod.split option.split)

lemma log_rounds_silent:
  "intervalCounter l + int (length rs) < logInterval l \<Longrightarrow> 0 \<le> intervalCounter l \<Longrightarrow>
   log_rounds (map (\<lambda>(ms, new). (ms, [new])) rs) [l] = ([], [l\<lparr>intervalCounter := intervalCounter l + int (length rs)\<rparr>])"
proof (induction rs arbitrary: l)
  case (Cons r rs)
  let ?l = "l\<lparr>intervalCounter := intervalCounter l + 1\<rparr>"
  have "log_socket (fst r) (snd r) l = (None, ?l)" using Cons.prems by (simp add: log_socket_def Let_def)
  then show ?case using Cons.IH [of ?l] Cons.prems by (simp add: log_round_one case_prod_unfold algebra_simps)
qed simp

lemma log_rounds_append:
  "log_rounds (rs @ qs) ls = (let (out, ls) = log_rounds rs ls; (outs, ls) = log_rounds qs ls in (out @ outs, ls))"
  by (induction rs arbitrary: ls) (simp_all add: Let_def split: prod.split)

text \<open>The counter of a socket that transfers \<open>w\<close> units in every round, in its round \<open>j\<close>.\<close>

definition steady :: "counters \<Rightarrow> uint64 \<Rightarrow> nat \<Rightarrow> counters" where
  "steady c w j = c\<lparr>msgIn := msgIn c + of_nat j * w\<rparr>"

lemma msg_rate_steady:
  assumes "k * unat w < 2 ^ 64"
  shows "msg_rate (c + of_nat k * w) c ms = of_nat k * (of_nat (unat w) / of_nat ms * 1000)"
proof -
  have "(of_nat k * w :: uint64) = of_nat (k * unat w)" by simp
  then have "unat (of_nat k * w :: uint64) = k * unat w"
    using assms by (simp only: unsigned_of_nat) (simp add: take_bit_nat_eq_self)
  then show ?thesis by (simp add: msg_rate_def)
qed

section \<open>Properties\<close>

text \<open>
  A socket whose rate is logged every \<open>k\<close> rounds is logged with \<open>k\<close> times its rate: where a socket receives the
  same number of messages in each of \<open>k\<close> rounds of \<open>ms\<close> milliseconds, the logger prints one line for it, in
  the last of them, and that line has the messages of all \<open>k\<close> rounds over the time of one round.
\<close>

theorem rates_overestimated:
  assumes "logInterval l = int k" "0 < k" "intervalCounter l = 0" "k * unat w < 2 ^ 64" "0 < ms"
  shows "\<exists>r ls. log_rounds (map (\<lambda>j. (ms, [steady (last_counters l) w j])) [1..<k + 1]) [l] = ([(filteredChannelName l, r)], ls) \<and>
    msgPerSecIn r = of_nat k * (of_nat (unat w) / of_nat ms * 1000)"
proof -
  let ?f = "\<lambda>j. (ms, steady (last_counters l) w j)"
  have split: "[1..<k + 1] = [1..<k] @ [k]" using assms(2) by simp
  have "log_rounds (map (\<lambda>(ms, new). (ms, [new])) (map ?f [1..<k])) [l] = ([], [l\<lparr>intervalCounter := int (k - 1)\<rparr>])"
    using log_rounds_silent [of l "map ?f [1..<k]"] assms(1,2,3) by simp
  then have 1: "log_rounds (map (\<lambda>j. (ms, [steady (last_counters l) w j])) [1..<k]) [l] = ([], [l\<lparr>intervalCounter := int (k - 1)\<rparr>])"
    by (simp add: comp_def)
  have "\<exists>r ls. log_round (ms, [steady (last_counters l) w k]) [l\<lparr>intervalCounter := int (k - 1)\<rparr>] = ([(filteredChannelName l, r)], ls) \<and>
      msgPerSecIn r = msg_rate (msgIn (steady (last_counters l) w k)) (msgIn (last_counters l)) ms"
    using assms(1,2) by (simp add: log_round_one log_socket_def Let_def of_nat_diff)
  then obtain r ls where 2: "log_round (ms, [steady (last_counters l) w k]) [l\<lparr>intervalCounter := int (k - 1)\<rparr>] = ([(filteredChannelName l, r)], ls)"
    "msgPerSecIn r = msg_rate (msgIn (last_counters l) + of_nat k * w) (msgIn (last_counters l)) ms" by (auto simp: steady_def)
  show ?thesis unfolding split using 1 2 msg_rate_steady [OF assms(4)] by (simp add: log_rounds_append)
qed

theorem rates_overestimated_witness:
  "\<exists>r ls. log_rounds [(1000, [steady (read_counters counting_socket 0) 5 1]), (1000, [steady (read_counters counting_socket 0) 5 2])]
      [\<lparr>filteredChannelName = ''data[0]'', logInterval = 2, intervalCounter = 0, last_counters = read_counters counting_socket 0\<rparr>] =
      ([(''data[0]'', r)], ls) \<and> msgPerSecIn r = 10"
proof -
  let ?l = "\<lparr>filteredChannelName = ''data[0]'', logInterval = 2, intervalCounter = 0, last_counters = read_counters counting_socket 0\<rparr>"
  have "[1..<2 + 1] = [1, 2 :: nat]" by (simp add: upt_rec)
  then show ?thesis using rates_overestimated [of ?l 2 5 1000] by simp
qed

end
