(* ===== verification/Rate_Limiter.thy ===== *)
theory Rate_Limiter
  imports FairMQ_Prelude
begin

text \<open>
  The rate limiter of \<open>fairmq/tools/RateLimit.h\<close>, with which a device paces its calls of
  \<open>ConditionalRun\<close>. Durations are numbers of nanoseconds; the clock's readings are arguments. The
  division of a second by a floating-point rate in the constructor is an argument as well.
\<close>

section \<open>The limiter\<close>

text \<open>Integer division of C++, which truncates; a division by zero is undefined at its place.\<close>

definition tdiv :: "int \<Rightarrow> int \<Rightarrow> int" where
  "tdiv a b = sgn a * sgn b * (\<bar>a\<bar> div \<bar>b\<bar>)"

record RateLimiter =
  rl_tw :: int
  rl_ts :: int
  tw_req :: int
  start_time :: int
  rl_count :: int
  skip_check_count :: int

definition new_RateLimiter :: "bool \<Rightarrow> int \<Rightarrow> int \<Rightarrow> RateLimiter outcome" where
  "new_RateLimiter rate_le_0 period now =
     (let req = (if rate_le_0 then 1 else period)
      in if req = 0 then Undefined
         else let skip = max 1 (tdiv 5000000 req)
              in Returns \<lparr>rl_tw = 0, rl_ts = 0, tw_req = req, start_time = now, rl_count = skip, skip_check_count = skip\<rparr>)"

text \<open>How a check adapts the sleep time or the number of calls between checks; a failed assertion aborts.\<close>

definition adjust :: "RateLimiter \<Rightarrow> RateLimiter outcome" where
  "adjust L =
     (if rl_tw L > tdiv (tw_req L * 65) 64
      then if rl_ts L > 0
           then Returns (L\<lparr>rl_ts := max 0 (rl_ts L - tdiv ((rl_tw L - tw_req L) * skip_check_count L * 1) 2)\<rparr>)
           else if tw_req L = 0 then Undefined
           else Returns (L\<lparr>skip_check_count := min (tdiv 1000000000 (tw_req L)) (tdiv (skip_check_count L * 5 + 3) 4)\<rparr>)
      else if rl_tw L < tdiv (tw_req L * 63) 64
      then if tw_req L = 0 then Undefined
           else let min_skip_count = max 1 (tdiv 5000000 (tw_req L))
                in if skip_check_count L > min_skip_count
                   then if rl_ts L \<noteq> 0 then Exits
                        else Returns (L\<lparr>skip_check_count := max min_skip_count (tdiv (skip_check_count L * 3) 4)\<rparr>)
                   else Returns (L\<lparr>rl_ts := rl_ts L + tdiv ((tw_req L - rl_tw L) * (skip_check_count L * 7)) 8\<rparr>)
      else Returns L)"

text \<open>The time between calls as a check at time \<open>now\<close> deduces it.\<close>

definition measured :: "int \<Rightarrow> RateLimiter \<Rightarrow> int" where
  "measured now L =
     (if rl_tw L = 0 then tdiv (now - start_time L) (skip_check_count L)
      else tdiv (1 * rl_tw L + tdiv (3 * (now - start_time L)) (skip_check_count L)) 4)"

text \<open>A call at time \<open>now\<close>; the result is the time slept and the limiter.\<close>

definition maybe_sleep :: "int \<Rightarrow> RateLimiter \<Rightarrow> (int \<times> RateLimiter) outcome" where
  "maybe_sleep now L =
     (let L = L\<lparr>rl_count := rl_count L - 1\<rparr>
      in if rl_count L \<noteq> 0 then Returns (0, L)
         else if skip_check_count L = 0 then Undefined
         else and_then (adjust (L\<lparr>rl_tw := measured now L\<rparr>))
                (\<lambda>L. Returns (if rl_ts L > 0 then rl_ts L else 0,
                             L\<lparr>start_time := now, rl_count := skip_check_count L\<rparr>)))"

section \<open>Its invariant\<close>

lemma tdiv_nonneg [simp]: "0 \<le> a \<Longrightarrow> 0 \<le> b \<Longrightarrow> tdiv a b = a div b"
  by (cases "a = 0"; cases "b = 0") (simp_all add: tdiv_def)

definition min_skip :: "RateLimiter \<Rightarrow> int" where
  "min_skip L = max 1 (5000000 div tw_req L)"

definition limiter_ok :: "RateLimiter \<Rightarrow> bool" where
  "limiter_ok L \<longleftrightarrow>
     1 \<le> tw_req L \<and> tw_req L \<le> 1000000000 \<and> 0 \<le> rl_tw L \<and> 0 \<le> rl_ts L \<and>
     1 \<le> skip_check_count L \<and> skip_check_count L \<le> 1000000000 div tw_req L \<and>
     (min_skip L < skip_check_count L \<longrightarrow> rl_ts L = 0)"

lemma one_second: "1 \<le> r \<Longrightarrow> r \<le> 1000000000 \<Longrightarrow> 1 \<le> 1000000000 div r \<and> max 1 (5000000 div r) \<le> 1000000000 div (r :: int)"
proof
  assume r: "1 \<le> r" "r \<le> 1000000000"
  then have "r div r \<le> 1000000000 div r" by (intro zdiv_mono1) auto
  then show 1: "1 \<le> 1000000000 div r" using r by simp
  have "5000000 div r \<le> 1000000000 div r" using r by (intro zdiv_mono1) auto
  then show "max 1 (5000000 div r) \<le> 1000000000 div r" using 1 by simp
qed

lemma adjust_slow_sleeping:
  assumes "limiter_ok L" "rl_tw L > tw_req L * 65 div 64" "rl_ts L > 0"
  shows "\<exists>L'. adjust L = Returns L' \<and> limiter_ok L' \<and> tw_req L' = tw_req L"
proof -
  let ?t = "max 0 (rl_ts L - tdiv ((rl_tw L - tw_req L) * skip_check_count L * 1) 2)"
  have "adjust L = Returns (L\<lparr>rl_ts := ?t\<rparr>)" using assms by (simp add: adjust_def limiter_ok_def)
  moreover have "limiter_ok (L\<lparr>rl_ts := ?t\<rparr>)" using assms(1,3) by (auto simp: limiter_ok_def min_skip_def)
  ultimately show ?thesis by simp
qed

lemma adjust_slow:
  assumes "limiter_ok L" "rl_tw L > tw_req L * 65 div 64" "rl_ts L = 0"
  shows "\<exists>L'. adjust L = Returns L' \<and> limiter_ok L' \<and> tw_req L' = tw_req L"
proof -
  let ?c = "min (1000000000 div tw_req L) ((skip_check_count L * 5 + 3) div 4)"
  note a = assms(1) [unfolded limiter_ok_def]
  have "1 \<le> (skip_check_count L * 5 + 3) div 4" using a by linarith
  then have c: "1 \<le> ?c" "?c \<le> 1000000000 div tw_req L" using one_second [of "tw_req L"] a by auto
  have "adjust L = Returns (L\<lparr>skip_check_count := ?c\<rparr>)" using assms(2,3) a by (simp add: adjust_def)
  moreover have "limiter_ok (L\<lparr>skip_check_count := ?c\<rparr>)" using a c assms(3) by (simp add: limiter_ok_def)
  ultimately show ?thesis by simp
qed

lemma adjust_fast_skipping:
  assumes "limiter_ok L" "rl_tw L < tw_req L * 63 div 64" "min_skip L < skip_check_count L"
  shows "\<exists>L'. adjust L = Returns L' \<and> limiter_ok L' \<and> tw_req L' = tw_req L"
proof -
  let ?c = "max (min_skip L) (skip_check_count L * 3 div 4)"
  note a = assms(1) [unfolded limiter_ok_def]
  have "skip_check_count L * 3 div 4 \<le> skip_check_count L" using a by linarith
  then have c: "1 \<le> ?c" "?c \<le> 1000000000 div tw_req L" using assms(3) a by (auto simp: min_skip_def)
  have "\<not> rl_tw L > tw_req L * 65 div 64" using assms(2) a by linarith
  then have "adjust L = Returns (L\<lparr>skip_check_count := ?c\<rparr>)"
    using assms(2,3) a by (simp add: adjust_def Let_def min_skip_def)
  moreover have "limiter_ok (L\<lparr>skip_check_count := ?c\<rparr>)" using a c assms(3) by (simp add: limiter_ok_def)
  ultimately show ?thesis by simp
qed

lemma adjust_fast:
  assumes "limiter_ok L" "rl_tw L < tw_req L * 63 div 64" "\<not> min_skip L < skip_check_count L"
  shows "\<exists>L'. adjust L = Returns L' \<and> limiter_ok L' \<and> tw_req L' = tw_req L"
proof -
  let ?t = "rl_ts L + (tw_req L - rl_tw L) * (skip_check_count L * 7) div 8"
  note a = assms(1) [unfolded limiter_ok_def]
  have "rl_tw L \<le> tw_req L" using assms(2) a by linarith
  then have p: "0 \<le> (tw_req L - rl_tw L) * (skip_check_count L * 7)" using a by (intro mult_nonneg_nonneg) auto
  then have t: "0 \<le> ?t" using a by (simp add: pos_imp_zdiv_nonneg_iff)
  have q: "tdiv (tw_req L * 65) 64 = tw_req L * 65 div 64" "tdiv (tw_req L * 63) 64 = tw_req L * 63 div 64"
    "tdiv 5000000 (tw_req L) = 5000000 div tw_req L"
    "tdiv ((tw_req L - rl_tw L) * (skip_check_count L * 7)) 8 = (tw_req L - rl_tw L) * (skip_check_count L * 7) div 8"
    using a p by (intro tdiv_nonneg; simp)+
  have "\<not> rl_tw L > tw_req L * 65 div 64" using assms(2) a by linarith
  then have "adjust L = Returns (L\<lparr>rl_ts := ?t\<rparr>)"
    using assms(2,3) a unfolding adjust_def q Let_def min_skip_def [symmetric] by (simp del: tdiv_nonneg)
  moreover have "limiter_ok (L\<lparr>rl_ts := ?t\<rparr>)" using a t assms(3) by (auto simp: limiter_ok_def min_skip_def)
  ultimately show ?thesis by simp
qed

lemma adjust_ok:
  assumes "limiter_ok L"
  shows "\<exists>L'. adjust L = Returns L' \<and> limiter_ok L' \<and> tw_req L' = tw_req L"
proof -
  have n: "0 \<le> rl_ts L" "1 \<le> tw_req L" using assms by (simp_all add: limiter_ok_def)
  show ?thesis
  proof (cases "rl_tw L > tw_req L * 65 div 64")
    case True
    then show ?thesis using adjust_slow_sleeping [OF assms] adjust_slow [OF assms] n(1) by (cases "rl_ts L > 0") auto
  next
    case False
    show ?thesis
    proof (cases "rl_tw L < tw_req L * 63 div 64")
      case True
      then show ?thesis using adjust_fast_skipping [OF assms] adjust_fast [OF assms] by blast
    next
      case middle: False
      then have "adjust L = Returns L" using False n(2) by (simp add: adjust_def)
      then show ?thesis using assms by blast
    qed
  qed
qed

lemma limiter_ok_fields [simp]:
  "limiter_ok (L\<lparr>start_time := t\<rparr>) = limiter_ok L" "limiter_ok (L\<lparr>rl_count := c\<rparr>) = limiter_ok L"
  by (simp_all add: limiter_ok_def min_skip_def)

text \<open>A limiter between two calls: the next check comes within the calls it still counts.\<close>

definition limiter_runs :: "RateLimiter \<Rightarrow> bool" where
  "limiter_runs L \<longleftrightarrow> limiter_ok L \<and> 1 \<le> rl_count L \<and> rl_count L \<le> skip_check_count L"

lemma measured_nonneg:
  assumes "limiter_ok L" "start_time L \<le> now"
  shows "0 \<le> measured now L"
proof -
  have a: "0 \<le> rl_tw L" "1 \<le> skip_check_count L" using assms(1) by (simp_all add: limiter_ok_def)
  have n: "0 \<le> (now - start_time L) div skip_check_count L" "0 \<le> 3 * (now - start_time L) div skip_check_count L"
    using a assms(2) by (simp_all add: pos_imp_zdiv_nonneg_iff)
  moreover from n have "0 \<le> (rl_tw L + 3 * (now - start_time L) div skip_check_count L) div 4" using a by linarith
  ultimately show ?thesis using a assms(2) by (simp add: measured_def)
qed

lemma measured_count [simp]: "measured now (L\<lparr>rl_count := c\<rparr>) = measured now L"
  by (simp add: measured_def)

lemma maybe_sleep_runs:
  assumes "limiter_runs L" "start_time L \<le> now"
  shows "\<exists>s L'. maybe_sleep now L = Returns (s, L') \<and> limiter_runs L' \<and> tw_req L' = tw_req L \<and> 0 \<le> s \<and> start_time L' \<in> {start_time L, now}"
proof (cases "rl_count L = 1")
  case False
  then show ?thesis using assms by (auto simp: maybe_sleep_def Let_def limiter_runs_def)
next
  case True
  have a: "limiter_ok L" "1 \<le> skip_check_count L" using assms(1) by (simp_all add: limiter_runs_def limiter_ok_def)
  let ?L = "L\<lparr>rl_count := 0, rl_tw := measured now L\<rparr>"
  have "limiter_ok ?L" using a(1) measured_nonneg [OF a(1) assms(2)] by (simp add: limiter_ok_def min_skip_def)
  from adjust_ok [OF this] obtain L' where
    L': "adjust ?L = Returns L'" "limiter_ok L'" "tw_req L' = tw_req L" by auto
  have "maybe_sleep now L = Returns (if rl_ts L' > 0 then rl_ts L' else 0, L'\<lparr>start_time := now, rl_count := skip_check_count L'\<rparr>)"
    using True a(2) L'(1) by (simp add: maybe_sleep_def Let_def)
  then show ?thesis using L'(2,3) by (simp add: limiter_runs_def) (simp add: limiter_ok_def)
qed

definition call_at :: "int \<Rightarrow> RateLimiter \<Rightarrow> RateLimiter outcome" where
  "call_at now L = map_outcome_result snd (maybe_sleep now L)"

lemma calls_run:
  "limiter_runs L \<Longrightarrow> sorted (start_time L # ticks) \<Longrightarrow>
   \<exists>L'. fold_outcome call_at ticks L = Returns L' \<and> limiter_runs L' \<and> tw_req L' = tw_req L"
proof (induction ticks arbitrary: L)
  case (Cons now ticks)
  then obtain s L1 where L1: "maybe_sleep now L = Returns (s, L1)" "limiter_runs L1" "tw_req L1 = tw_req L"
    "start_time L1 \<in> {start_time L, now}" using maybe_sleep_runs [of L now] by auto
  then obtain L' where "fold_outcome call_at ticks L1 = Returns L'" "limiter_runs L'" "tw_req L' = tw_req L1"
    using Cons.IH [of L1] Cons.prems(2) by auto
  moreover have "call_at now L = Returns L1" using L1(1) by (simp add: call_at_def map_outcome_result_def)
  ultimately show ?case using L1(3) by simp
qed simp

lemma new_RateLimiter_runs:
  assumes "1 \<le> period" "period \<le> 1000000000"
  shows "\<exists>L. new_RateLimiter False period now = Returns L \<and> limiter_runs L \<and> tw_req L = period \<and> start_time L = now"
  using assms one_second [OF assms] by (simp add: new_RateLimiter_def Let_def limiter_runs_def limiter_ok_def min_skip_def)

section \<open>Properties\<close>



text \<open>A counter that has passed zero is counted down without a check.\<close>

lemma uncounted_call: "rl_count L \<le> 0 \<Longrightarrow> maybe_sleep now L = Returns (0, L\<lparr>rl_count := rl_count L - 1\<rparr>)"
  by (simp add: maybe_sleep_def Let_def)

lemma uncounted_calls:
  "rl_count L \<le> 0 \<Longrightarrow> fold_outcome call_at ticks L = Returns (L\<lparr>rl_count := rl_count L - int (length ticks)\<rparr>)"
proof (induction ticks arbitrary: L)
  case (Cons now ticks)
  have "call_at now L = Returns (L\<lparr>rl_count := rl_count L - 1\<rparr>)"
    using uncounted_call [OF Cons.prems] by (simp add: call_at_def map_outcome_result_def)
  then show ?case using Cons.IH [of "L\<lparr>rl_count := rl_count L - 1\<rparr>"] Cons.prems by (simp add: algebra_simps)
qed simp

lemma late_first_call:
  assumes "period > 1000000000" "now + period * 65 div 64 < late"
  shows "\<exists>L L1. new_RateLimiter False period now = Returns L \<and> maybe_sleep late L = Returns (0, L1) \<and>
    skip_check_count L1 = 0 \<and> rl_count L1 = 0 \<and> rl_ts L1 = 0"
proof -
  let ?L = "\<lparr>rl_tw = 0, rl_ts = 0, tw_req = period, start_time = now, rl_count = 1, skip_check_count = 1\<rparr>"
  have "5000000 div period = 0" "1000000000 div period = 0" using assms(1) by simp_all
  then have n: "new_RateLimiter False period now = Returns ?L" using assms(1) by (simp add: new_RateLimiter_def Let_def)
  have p: "0 \<le> period * 65 div 64" using assms(1) by simp
  have "adjust (?L\<lparr>rl_count := 0, rl_tw := late - now\<rparr>) = Returns (?L\<lparr>rl_count := 0, rl_tw := late - now, skip_check_count := 0\<rparr>)"
    using assms \<open>1000000000 div period = 0\<close> by (simp add: adjust_def)
  then have "maybe_sleep late ?L = Returns (0, ?L\<lparr>rl_count := 0, rl_tw := late - now, skip_check_count := 0, start_time := late\<rparr>)"
    using assms(2) p by (simp add: maybe_sleep_def Let_def measured_def)
  then show ?thesis using n by auto
qed

text \<open>
  A rate below one call per second is not kept: if the first call comes late, by more than a 64th of the
  period, the number of calls between checks becomes zero, and from then on the limiter neither checks
  the time nor sleeps, whenever and however often it is called.
\<close>

theorem slow_rates_not_limited:
  assumes "period > 1000000000" "now + period * 65 div 64 < late"
  shows "\<exists>L L1. new_RateLimiter False period now = Returns L \<and> call_at late L = Returns L1 \<and>
    (\<exists>L2. fold_outcome call_at ticks L1 = Returns L2 \<and> (\<exists>L3. maybe_sleep next L2 = Returns (0, L3)))"
proof -
  from late_first_call [OF assms] obtain L L1 where
    L: "new_RateLimiter False period now = Returns L" "maybe_sleep late L = Returns (0, L1)" "rl_count L1 = 0" by blast
  then show ?thesis using uncounted_calls [of L1 ticks] uncounted_call by (simp add: call_at_def map_outcome_result_def)
qed

theorem slow_rates_not_limited_witness:
  "\<exists>L L1. new_RateLimiter False 2000000000 0 = Returns L \<and> call_at 3000000000 L = Returns L1 \<and>
    (\<exists>L2. fold_outcome call_at [3000000001, 3000000002] L1 = Returns L2 \<and> (\<exists>L3. maybe_sleep 3000000003 L2 = Returns (0, L3)))"
  by (rule slow_rates_not_limited) simp_all

end
