(* ===== verification/Device_Run.thy ===== *)
theory Device_Run
  imports Device Rate_Limiter
begin

text \<open>
  The running device, \<open>RunWrapper\<close> and the data callbacks of \<open>fairmq/FairMQDevice.{h,cxx}\<close>: registering
  callbacks, handling the input of one channel, polling several channels of one transport, and polling
  several transports in threads of their own. The user's callbacks and hooks are functions on a state
  \<open>'u\<close> of the user's. What other threads and the poller report in the rounds of a loop is an argument,
  a list with one element for each round; a loop that has not ended when the list is used up is \<open>None\<close>.
\<close>

section \<open>The running device\<close>

type_synonym 'u msg_callback = "message \<Rightarrow> int \<Rightarrow> 'u \<Rightarrow> (bool \<times> 'u) outcome"
type_synonym 'u parts_callback = "message list \<Rightarrow> int \<Rightarrow> 'u \<Rightarrow> (bool \<times> 'u) outcome"

record ('s, 'f, 'c, 'u) running =
  rn_device :: "('s, 'f, 'c) FairMQDevice"
  fDataCallbacks :: bool
  fMsgInputs :: "(string \<times> 'u msg_callback) list"
  fMultipartInputs :: "(string \<times> 'u parts_callback) list"
  fMultitransportInputs :: "(Transport \<times> string list) list"
  fChannelRegistry :: "(string \<times> nat \<times> nat) list"
  fInputChannelKeys :: "string list"
  fInterrupted :: bool
  interrupted_transports :: "Transport list"
  rn_user :: 'u

definition on_device ::
    "(('s, 'f, 'c) FairMQDevice \<Rightarrow> ('s, 'f, 'c) FairMQDevice) \<Rightarrow> ('s, 'f, 'c, 'u) running \<Rightarrow> ('s, 'f, 'c, 'u) running" where
  "on_device f st = st\<lparr>rn_device := f (rn_device st)\<rparr>"

text \<open>\<open>OnData\<close> for messages and for multipart messages; a second callback for a channel is dropped.\<close>

definition add_input_key :: "string \<Rightarrow> ('s, 'f, 'c, 'u) running \<Rightarrow> ('s, 'f, 'c, 'u) running" where
  "add_input_key channelName st =
     (if channelName \<in> set (fInputChannelKeys st) then st
      else st\<lparr>fInputChannelKeys := fInputChannelKeys st @ [channelName]\<rparr>)"

definition OnData_msg ::
    "string \<Rightarrow> 'u msg_callback \<Rightarrow> ('s, 'f, 'c, 'u) running \<Rightarrow> ('s, 'f, 'c, 'u) running" where
  "OnData_msg channelName callback st =
     add_input_key channelName
       (st\<lparr>fDataCallbacks := True, fMsgInputs := map_insert channelName callback (fMsgInputs st)\<rparr>)"

definition OnData_parts ::
    "string \<Rightarrow> 'u parts_callback \<Rightarrow> ('s, 'f, 'c, 'u) running \<Rightarrow> ('s, 'f, 'c, 'u) running" where
  "OnData_parts channelName callback st =
     add_input_key channelName
       (st\<lparr>fDataCallbacks := True, fMultipartInputs := map_insert channelName callback (fMultipartInputs st)\<rparr>)"

definition RegisterChannelEndpoint ::
    "string \<Rightarrow> nat \<Rightarrow> nat \<Rightarrow> ('s, 'f, 'c, 'u) running \<Rightarrow> bool \<times> ('s, 'f, 'c, 'u) running" where
  "RegisterChannelEndpoint channelName minNumSubChannels maxNumSubChannels st =
     (channelName \<notin> fst ` set (fChannelRegistry st),
      st\<lparr>fChannelRegistry := map_insert channelName (minNumSubChannels, maxNumSubChannels) (fChannelRegistry st)\<rparr>)"

definition Unblock :: "('s, 'f, 'c, 'u) running \<Rightarrow> ('s, 'f, 'c, 'u) running" where
  "Unblock st = st\<lparr>interrupted_transports := map fst (fTransports (rn_device st)), fInterrupted := True\<rparr>"

section \<open>Handling one input\<close>

definition run_callback ::
    "('m \<Rightarrow> int \<Rightarrow> 'u \<Rightarrow> (bool \<times> 'u) outcome) \<Rightarrow> 'm \<Rightarrow> int \<Rightarrow> ('s, 'f, 'c, 'u) running \<Rightarrow>
     (bool \<times> ('s, 'f, 'c, 'u) running) outcome" where
  "run_callback callback input i st =
     and_then (callback input i (rn_user st)) (\<lambda>(proceed, u). Returns (proceed, st\<lparr>rn_user := u\<rparr>))"

definition HandleMsgInput ::
    "('s, 'f) environment \<Rightarrow> string \<Rightarrow> 'u msg_callback \<Rightarrow> nat \<Rightarrow> ('s, 'f, 'c, 'u) running \<Rightarrow>
     (bool \<times> ('s, 'f, 'c, 'u) running) outcome" where
  "HandleMsgInput E chName callback i st =
     and_then (GetChannel chName i (rn_device st))
       (\<lambda>ch. case fTransportFactory ch of
          None \<Rightarrow> Undefined
        | Some f \<Rightarrow>
            and_then (Receive (env_socket E) (CreateMessage_empty f) ch)
              (\<lambda>(n, input, ch).
                 let st = on_device (put_channel (chName, i) ch) st
                 in if n \<ge> 0 then run_callback callback input (int i) st else Returns (False, st)))"

definition HandleMultipartInput ::
    "('s, 'f) environment \<Rightarrow> string \<Rightarrow> 'u parts_callback \<Rightarrow> nat \<Rightarrow> ('s, 'f, 'c, 'u) running \<Rightarrow>
     (bool \<times> ('s, 'f, 'c, 'u) running) outcome" where
  "HandleMultipartInput E chName callback i st =
     and_then (GetChannel chName i (rn_device st))
       (\<lambda>ch. and_then (Receive_vec (env_socket E) [] ch)
          (\<lambda>(n, input, ch).
             let st = on_device (put_channel (chName, i) ch) st
             in if n \<ge> 0 then run_callback callback input 0 st else Returns (False, st)))"

section \<open>One input channel\<close>

text \<open>A loop that goes on while the device is running and the handled input asks to proceed.\<close>

fun input_loop ::
    "('r \<Rightarrow> 'st \<Rightarrow> (bool \<times> 'st) outcome) \<Rightarrow> (bool \<times> 'r) list \<Rightarrow> 'st \<Rightarrow> 'st outcome option" where
  "input_loop h [] st = None"
| "input_loop h ((is_running, r) # rounds) st =
     (if \<not> is_running then Some (Returns st)
      else case h r st of
             Returns (proceed, st') \<Rightarrow> if proceed then input_loop h rounds st' else Some (Returns st')
           | Throws e \<Rightarrow> Some (Throws e)
           | Exits \<Rightarrow> Some Exits
           | Undefined \<Rightarrow> Some Undefined)"

definition HandleSingleChannelInput ::
    "('s, 'f) environment \<Rightarrow> (bool \<times> 'r) list \<Rightarrow> ('s, 'f, 'c, 'u) running \<Rightarrow> ('s, 'f, 'c, 'u) running outcome option" where
  "HandleSingleChannelInput E rounds st =
     (if fMsgInputs st \<noteq> []
      then input_loop (\<lambda>_ st. and_then (vector_at (fInputChannelKeys st) 0)
             (\<lambda>key. HandleMsgInput E key (snd (hd (fMsgInputs st))) 0 st)) rounds st
      else if fMultipartInputs st \<noteq> []
      then input_loop (\<lambda>_ st. and_then (vector_at (fInputChannelKeys st) 0)
             (\<lambda>key. HandleMultipartInput E key (snd (hd (fMultipartInputs st))) 0 st)) rounds st
      else Some (Returns st))"

section \<open>Several input channels\<close>

definition add_multitransport ::
    "Transport \<Rightarrow> string \<Rightarrow> (Transport \<times> string list) list \<Rightarrow> (Transport \<times> string list) list" where
  "add_multitransport t k m =
     (if t \<notin> fst ` set m then m @ [(t, [k])]
      else map (\<lambda>(t', ks). (t', if t' = t then ks @ [k] else ks)) m)"

definition group_input ::
    "string \<Rightarrow> ('s, 'f, 'c, 'u) running \<Rightarrow> ('s, 'f, 'c, 'u) running outcome" where
  "group_input k st =
     and_then (GetChannel k 0 (rn_device st))
       (\<lambda>ch. Returns (st\<lparr>fMultitransportInputs := add_multitransport (fTransportType ch) k (fMultitransportInputs st)\<rparr>))"

definition set_multipart :: "bool \<Rightarrow> string \<Rightarrow> ('s, 'f, 'c) FairMQDevice \<Rightarrow> ('s, 'f, 'c) FairMQDevice" where
  "set_multipart b name d =
     d\<lparr>fChannels := map (\<lambda>(n, cs). (n, if n = name then map (\<lambda>c. c\<lparr>fMultipart := b\<rparr>) cs else cs)) (fChannels d)\<rparr>"

definition mark_input ::
    "bool \<Rightarrow> string \<Rightarrow> ('s, 'f, 'c, 'u) running \<Rightarrow> ('s, 'f, 'c, 'u) running outcome" where
  "mark_input b name st =
     and_then (map_at (map_of (fChannels (rn_device st))) name) (\<lambda>_. Returns (on_device (set_multipart b name) st))"

definition prepare_inputs :: "('s, 'f, 'c, 'u) running \<Rightarrow> ('s, 'f, 'c, 'u) running outcome" where
  "prepare_inputs st =
     and_then (fold_outcome group_input (fInputChannelKeys st) (st\<lparr>fMultitransportInputs := []\<rparr>))
     (\<lambda>st. and_then (fold_outcome (mark_input False) (map fst (fMsgInputs st)) st)
     (\<lambda>st. fold_outcome (mark_input True) (map fst (fMultipartInputs st)) st))"

text \<open>An input that the poller reports, and the loops over the inputs in one round.\<close>

definition handle_ready ::
    "('s, 'f) environment \<Rightarrow> string \<Rightarrow> nat \<Rightarrow> ('s, 'f, 'c, 'u) running \<Rightarrow> (bool \<times> ('s, 'f, 'c, 'u) running) outcome" where
  "handle_ready E ch i st =
     and_then (GetChannel ch i (rn_device st))
       (\<lambda>c. if fMultipart c
            then and_then (map_at (map_of (fMultipartInputs st)) ch) (\<lambda>callback. HandleMultipartInput E ch callback i st)
            else and_then (map_at (map_of (fMsgInputs st)) ch) (\<lambda>callback. HandleMsgInput E ch callback i st))"

fun poll_channel ::
    "('s, 'f) environment \<Rightarrow> (string \<Rightarrow> nat \<Rightarrow> bool) \<Rightarrow> string \<Rightarrow> nat list \<Rightarrow> ('s, 'f, 'c, 'u) running \<Rightarrow>
     (bool \<times> ('s, 'f, 'c, 'u) running) outcome" where
  "poll_channel E ready ch [] st = Returns (True, st)"
| "poll_channel E ready ch (i # is) st =
     (if ready ch i
      then and_then (handle_ready E ch i st)
        (\<lambda>(proceed, st). if proceed then poll_channel E ready ch is st else Returns (False, st))
      else poll_channel E ready ch is st)"

fun poll_channels ::
    "('s, 'f) environment \<Rightarrow> (string \<Rightarrow> nat \<Rightarrow> bool) \<Rightarrow> string list \<Rightarrow> ('s, 'f, 'c, 'u) running \<Rightarrow>
     (bool \<times> ('s, 'f, 'c, 'u) running) outcome" where
  "poll_channels E ready [] st = Returns (True, st)"
| "poll_channels E ready (ch # chs) st =
     and_then (map_at (map_of (fChannels (rn_device st))) ch)
       (\<lambda>cs. and_then (poll_channel E ready ch [0..<length cs] st)
          (\<lambda>(proceed, st). if proceed then poll_channels E ready chs st else Returns (False, st)))"

text \<open>
  With inputs of several transports the work is done by one thread for each of them, see below; what these
  do until they have ended is the argument \<open>threads\<close>.
\<close>

definition HandleMultipleChannelInput ::
    "('s, 'f) environment \<Rightarrow> (('s, 'f, 'c, 'u) running \<Rightarrow> ('s, 'f, 'c, 'u) running outcome option) \<Rightarrow>
     (bool \<times> (string \<Rightarrow> nat \<Rightarrow> bool)) list \<Rightarrow> ('s, 'f, 'c, 'u) running \<Rightarrow> ('s, 'f, 'c, 'u) running outcome option" where
  "HandleMultipleChannelInput E threads rounds st =
     (case prepare_inputs st of
        Returns st \<Rightarrow>
          if length (fMultitransportInputs st) > 1 then threads st
          else (case and_then (vector_at (fInputChannelKeys st) 0) (\<lambda>key. GetChannel key 0 (rn_device st)) of
                  Returns ch \<Rightarrow>
                    (if fTransportFactory ch = None then Some Undefined
                     else input_loop (\<lambda>ready st. poll_channels E ready (fInputChannelKeys st) st) rounds st)
                | Throws e \<Rightarrow> Some (Throws e)
                | Exits \<Rightarrow> Some Exits
                | Undefined \<Rightarrow> Some Undefined)
      | Throws e \<Rightarrow> Some (Throws e)
      | Exits \<Rightarrow> Some Exits
      | Undefined \<Rightarrow> Some Undefined)"

section \<open>RunWrapper\<close>

text \<open>
  The user's hooks, and what the environment decides: whether the configured rate limits the loop, the
  rate limiter's parameters for it, and the rounds of the loops with whether the device is still running,
  what the poller reports and the time. The threads of several transports are as above.
\<close>

record ('s, 'f, 'c, 'u) hooks =
  PreRun :: "'u \<Rightarrow> 'u outcome"
  ConditionalRun :: "'u \<Rightarrow> (bool \<times> 'u) outcome"
  RunHook :: "'u \<Rightarrow> 'u outcome"
  PostRun :: "'u \<Rightarrow> 'u outcome"
  rate_limits :: "'f \<Rightarrow> bool"
  limiter_for :: "'f \<Rightarrow> bool \<times> int"
  threads_do :: "('s, 'f, 'c, 'u) running \<Rightarrow> ('s, 'f, 'c, 'u) running outcome option"

definition user_hook :: "('u \<Rightarrow> 'u outcome) \<Rightarrow> ('s, 'f, 'c, 'u) running \<Rightarrow> ('s, 'f, 'c, 'u) running outcome" where
  "user_hook h st = map_outcome_result (\<lambda>u. st\<lparr>rn_user := u\<rparr>) (h (rn_user st))"

text \<open>One turn of the loop around \<open>ConditionalRun\<close>, at the time \<open>now\<close> when it asks the limiter.\<close>

definition conditional_turn ::
    "('s, 'f, 'c, 'u) hooks \<Rightarrow> (string \<Rightarrow> nat \<Rightarrow> bool) \<times> int \<Rightarrow> ('s, 'f, 'c, 'u) running \<times> RateLimiter \<Rightarrow>
     (bool \<times> ('s, 'f, 'c, 'u) running \<times> RateLimiter) outcome" where
  "conditional_turn H r stl =
     (let (st, L) = stl
      in and_then (ConditionalRun H (rn_user st))
        (\<lambda>(again, u).
           let st = st\<lparr>rn_user := u\<rparr>
           in if \<not> again then Returns (False, st, L)
              else if rate_limits H (fRate (rn_device st))
              then and_then (maybe_sleep (snd r) L) (\<lambda>(_, L). Returns (True, st, L))
              else Returns (True, st, L)))"

definition and_finally :: "'a outcome option \<Rightarrow> ('a \<Rightarrow> 'b outcome) \<Rightarrow> 'b outcome option" where
  "and_finally x f = map_option (\<lambda>r. and_then r f) x"

definition run_body ::
    "('s, 'f) environment \<Rightarrow> ('s, 'f, 'c, 'u) hooks \<Rightarrow> int \<Rightarrow> (bool \<times> (string \<Rightarrow> nat \<Rightarrow> bool) \<times> int) list \<Rightarrow>
     ('s, 'f, 'c, 'u) running \<Rightarrow> ('s, 'f, 'c, 'u) running outcome option" where
  "run_body E H start rounds st =
     (case user_hook (PreRun H) st of
        Returns st \<Rightarrow>
          if fDataCallbacks st
          then (case (if length (fInputChannelKeys st) = 1
                      then and_then (vector_at (fInputChannelKeys st) 0)
                        (\<lambda>key. and_then (map_at (map_of (fChannels (rn_device st))) key) (\<lambda>cs. Returns (length cs = 1)))
                      else Returns False) of
                  Returns single \<Rightarrow>
                    if single then HandleSingleChannelInput E rounds st
                    else HandleMultipleChannelInput E (threads_do H) (map (\<lambda>(b, r, _). (b, r)) rounds) st
                | Throws e \<Rightarrow> Some (Throws e)
                | Exits \<Rightarrow> Some Exits
                | Undefined \<Rightarrow> Some Undefined)
          else (case case_prod new_RateLimiter (limiter_for H (fRate (rn_device st))) start of
                  Returns L \<Rightarrow>
                    and_finally (input_loop (conditional_turn H) rounds (st, L)) (\<lambda>(st, _). user_hook (RunHook H) st)
                | Throws e \<Rightarrow> Some (Throws e)
                | Exits \<Rightarrow> Some Exits
                | Undefined \<Rightarrow> Some Undefined)
      | Throws e \<Rightarrow> Some (Throws e)
      | Exits \<Rightarrow> Some Exits
      | Undefined \<Rightarrow> Some Undefined)"

text \<open>
  An \<open>out_of_range\<close> that leaves the body is caught; \<open>after_throw\<close> is the state it leaves behind, about which
  nothing is assumed. \<open>still_running\<close> is the test of the state after the body.
\<close>

definition RunWrapper_dv ::
    "('s, 'f) environment \<Rightarrow> ('s, 'f, 'c, 'u) hooks \<Rightarrow> int \<Rightarrow> (bool \<times> (string \<Rightarrow> nat \<Rightarrow> bool) \<times> int) list \<Rightarrow>
     ('s, 'f, 'c, 'u) running \<Rightarrow> bool \<Rightarrow> ('s, 'f, 'c, 'u) running \<Rightarrow> ('s, 'f, 'c, 'u) running outcome option" where
  "RunWrapper_dv E H start rounds after_throw still_running st =
     (let st = on_device (announce RUNNING) st;
          st = st\<lparr>fInterrupted := False,
                  interrupted_transports := filter (\<lambda>t. t \<notin> fst ` set (fTransports (rn_device st))) (interrupted_transports st)\<rparr>;
          finish = (\<lambda>st. user_hook (PostRun H) (if still_running then on_device (request internal_READY) st else st))
      in map_option
        (\<lambda>r. case r of
           Returns st \<Rightarrow> finish st
         | Throws e \<Rightarrow> if e = OutOfRange then finish after_throw else Throws e
         | Exits \<Rightarrow> Exits
         | Undefined \<Rightarrow> Undefined)
        (run_body E H start rounds st))"

section \<open>Several transports\<close>

text \<open>
  \<open>PollForTransport\<close>, one thread for each transport: at the test of its loop; about to look at the channels
  left in this round; looking at the sub-channels left of a channel; gone. A step is the code between two
  accesses to what the threads share; handling an input is one step, since it holds \<open>fMultitransportMutex\<close>.
\<close>

datatype thread_at =
    At_loop
  | At_channels "string list"
  | At_inputs string "nat list" "string list"
  | Thread_left

record ('s, 'f, 'c, 'u) poll_system =
  ps_run :: "('s, 'f, 'c, 'u) running"
  fMultitransportProceed :: bool
  ps_threads :: "(string list \<times> thread_at) list"
  handled :: "bool list"

text \<open>\<open>handled\<close> records what handling the inputs returned. The arguments \<open>is_running\<close> and \<open>ready\<close> are what the
  thread sees of the device's state and of its poller, when it looks.\<close>

fun thread_step ::
    "('s, 'f) environment \<Rightarrow> bool \<Rightarrow> bool \<Rightarrow> string list \<Rightarrow> thread_at \<Rightarrow> ('s, 'f, 'c, 'u) poll_system \<Rightarrow>
     (thread_at \<times> ('s, 'f, 'c, 'u) poll_system) outcome" where
  "thread_step E is_running ready channelKeys At_loop s =
     Returns (if is_running \<and> fMultitransportProceed s then At_channels channelKeys else Thread_left, s)"
| "thread_step E is_running ready channelKeys (At_channels []) s = Returns (At_loop, s)"
| "thread_step E is_running ready channelKeys (At_channels (ch # chs)) s =
     (case map_of (fChannels (rn_device (ps_run s))) ch of
        None \<Rightarrow> Returns (Thread_left, s\<lparr>ps_run := on_device (request ERROR_FOUND) (ps_run s)\<rparr>)
      | Some cs \<Rightarrow> Returns (At_inputs ch [0..<length cs] chs, s))"
| "thread_step E is_running ready channelKeys (At_inputs ch [] chs) s =
     Returns (if fMultitransportProceed s then At_channels chs else At_loop, s)"
| "thread_step E is_running ready channelKeys (At_inputs ch (i # is) chs) s =
     (if \<not> ready then Returns (At_inputs ch is chs, s)
      else if \<not> fMultitransportProceed s then Returns (At_inputs ch [] chs, s)
      else case handle_ready E ch i (ps_run s) of
             Returns (proceed, st) \<Rightarrow>
               Returns (At_inputs ch (if proceed then is else []) chs,
                        s\<lparr>ps_run := st, fMultitransportProceed := proceed, handled := handled s @ [proceed]\<rparr>)
           | Throws e \<Rightarrow> Returns (Thread_left, s\<lparr>ps_run := on_device (request ERROR_FOUND) (ps_run s)\<rparr>)
           | Exits \<Rightarrow> Exits
           | Undefined \<Rightarrow> Undefined)"
| "thread_step E is_running ready channelKeys Thread_left s = Returns (Thread_left, s)"

definition HandleMultipleTransportInput :: "('s, 'f, 'c, 'u) running \<Rightarrow> ('s, 'f, 'c, 'u) poll_system" where
  "HandleMultipleTransportInput st =
     \<lparr>ps_run = st, fMultitransportProceed = True,
      ps_threads = map (\<lambda>(t, keys). (keys, At_loop)) (fMultitransportInputs st), handled = []\<rparr>"

inductive poll_step ::
    "('s, 'f) environment \<Rightarrow> ('s, 'f, 'c, 'u) poll_system \<Rightarrow> ('s, 'f, 'c, 'u) poll_system \<Rightarrow> bool"
  for E where
  thread: "\<lbrakk>k < length (ps_threads s); ps_threads s ! k = (keys, at); at \<noteq> Thread_left;
            thread_step E is_running ready keys at s = Returns (at', s')\<rbrakk> \<Longrightarrow>
           poll_step E s (s'\<lparr>ps_threads := (ps_threads s)[k := (keys, at')]\<rparr>)"

section \<open>Stopping the threads\<close>

text \<open>Once an input asked to stop, no other is handled.\<close>

definition stopped_in_order :: "('s, 'f, 'c, 'u) poll_system \<Rightarrow> bool" where
  "stopped_in_order s \<longleftrightarrow>
     (\<exists>n. handled s = replicate n True @ (if fMultitransportProceed s then [] else [False]))"

lemma thread_step_order:
  assumes "thread_step E b r keys at s = Returns (at', s')" "stopped_in_order s"
  shows "stopped_in_order s'"
proof (cases "handled s' = handled s \<and> fMultitransportProceed s' = fMultitransportProceed s")
  case True
  then show ?thesis using assms(2) by (simp add: stopped_in_order_def)
next
  case False
  then have p: "fMultitransportProceed s" "handled s' = handled s @ [fMultitransportProceed s']"
    using assms(1) by (cases "(E, b, r, keys, at, s)" rule: thread_step.cases;
        auto split: if_splits option.splits outcome.splits)+
  from assms(2) p(1) obtain n where "handled s = replicate n True" by (auto simp: stopped_in_order_def)
  then show ?thesis using p(2) replicate_append_same [of n True] unfolding stopped_in_order_def
    by (cases "fMultitransportProceed s'") (metis append_Nil2 replicate_Suc, auto)
qed

lemma poll_step_order: "poll_step E s s' \<Longrightarrow> stopped_in_order s \<Longrightarrow> stopped_in_order s'"
  by (erule poll_step.cases) (auto dest!: thread_step_order simp: stopped_in_order_def)

text \<open>How many steps a thread can still take when no input is handled any more.\<close>

definition channel_size :: "('s, 'f, 'c, 'u) running \<Rightarrow> string \<Rightarrow> nat" where
  "channel_size st ch = (case map_of (fChannels (rn_device st)) ch of None \<Rightarrow> 0 | Some cs \<Rightarrow> length cs)"

fun steps_left :: "('s, 'f, 'c, 'u) running \<Rightarrow> thread_at \<Rightarrow> nat" where
  "steps_left st At_loop = 1"
| "steps_left st (At_channels []) = 2"
| "steps_left st (At_channels (ch # chs)) = 3 + channel_size st ch"
| "steps_left st (At_inputs ch is chs) = 2 + length is"
| "steps_left st Thread_left = 0"

definition poll_bound :: "('s, 'f, 'c, 'u) poll_system \<Rightarrow> nat" where
  "poll_bound s = sum_list (map (\<lambda>(keys, at). steps_left (ps_run s) at) (ps_threads s))"

lemma thread_step_stopped:
  assumes "\<not> fMultitransportProceed s" "at \<noteq> Thread_left"
  shows "\<exists>at' s'. thread_step E b r keys at s = Returns (at', s') \<and> \<not> fMultitransportProceed s' \<and>
    ps_threads s' = ps_threads s \<and> fChannels (rn_device (ps_run s')) = fChannels (rn_device (ps_run s)) \<and>
    steps_left (ps_run s) at' < steps_left (ps_run s) at"
  using assms
  by (cases "(E, b, r, keys, at, s)" rule: thread_step.cases)
    (auto simp: channel_size_def on_device_def request_def split: option.splits)

lemma steps_left_cong:
  "fChannels (rn_device st') = fChannels (rn_device st) \<Longrightarrow> steps_left st' at = steps_left st at"
  by (cases "(st, at)" rule: steps_left.cases) (simp_all add: channel_size_def)

lemma sum_list_update_less:
  fixes xs :: "nat list"
  assumes "k < length xs" "x < xs ! k"
  shows "sum_list (xs[k := x]) < sum_list xs"
  using assms elem_le_sum_list [OF assms(1)] by (simp add: sum_list_update)

lemma poll_step_stopped:
  assumes "poll_step E s s'" "\<not> fMultitransportProceed s"
  shows "\<not> fMultitransportProceed s' \<and> poll_bound s' < poll_bound s"
  using assms(1)
proof (cases rule: poll_step.cases)
  case (thread k keys at b r at' s1)
  from thread_step_stopped [OF assms(2) thread(4), of E b r keys] thread(5) have
    1: "\<not> fMultitransportProceed s1" "fChannels (rn_device (ps_run s1)) = fChannels (rn_device (ps_run s))"
      "steps_left (ps_run s) at' < steps_left (ps_run s) at" by auto
  let ?f = "\<lambda>(keys, at). steps_left (ps_run s) at"
  have "poll_bound s' = sum_list (map (\<lambda>(keys, at). steps_left (ps_run s1) at) ((ps_threads s)[k := (keys, at')]))"
    unfolding thread(1) poll_bound_def by simp
  also have "\<dots> = sum_list (map ?f ((ps_threads s)[k := (keys, at')]))" using steps_left_cong [OF 1(2)] by simp
  also have "\<dots> = sum_list ((map ?f (ps_threads s))[k := steps_left (ps_run s) at'])" by (simp add: map_update)
  also have "\<dots> < sum_list (map ?f (ps_threads s))"
    using 1(3) thread(2,3) by (intro sum_list_update_less) auto
  finally show ?thesis using 1(1) thread(1) by (simp add: poll_bound_def)
qed

lemma poll_steps_stopped:
  "(poll_step E ^^ n) s s' \<Longrightarrow> \<not> fMultitransportProceed s \<Longrightarrow> n + poll_bound s' \<le> poll_bound s \<and> \<not> fMultitransportProceed s'"
proof (induction n arbitrary: s')
  case (Suc n)
  from Suc.prems(1) obtain s1 where "(poll_step E ^^ n) s s1" "poll_step E s1 s'" by auto
  with Suc.IH [of s1] Suc.prems(2) poll_step_stopped [of E s1 s'] show ?case by fastforce
qed simp

lemma poll_stuck_left:
  assumes "\<not> fMultitransportProceed s" "\<And>s'. \<not> poll_step E s s'"
  shows "\<forall>t \<in> set (ps_threads s). snd t = Thread_left"
proof
  fix t assume "t \<in> set (ps_threads s)"
  then obtain k where k: "k < length (ps_threads s)" "ps_threads s ! k = t" by (auto simp: in_set_conv_nth)
  show "snd t = Thread_left"
  proof (rule ccontr)
    assume left: "snd t \<noteq> Thread_left"
    then obtain at' s' where "thread_step E True True (fst t) (snd t) s = Returns (at', s')"
      using thread_step_stopped [OF assms(1)] by blast
    then show False using poll_step.thread [OF k(1), of "fst t" "snd t"] k(2) left assms(2) by (metis surjective_pairing)
  qed
qed

section \<open>The fast path for one channel\<close>

text \<open>What preparing for polling changes where there is one input channel.\<close>

definition marked :: "bool \<Rightarrow> string \<Rightarrow> Transport \<Rightarrow> ('s, 'f, 'c, 'u) running \<Rightarrow> ('s, 'f, 'c, 'u) running" where
  "marked b k t st = on_device (set_multipart b k) (st\<lparr>fMultitransportInputs := [(t, [k])]\<rparr>)"

lemma marked_fields [simp]:
  "fInputChannelKeys (marked b k t st) = fInputChannelKeys st" "fMsgInputs (marked b k t st) = fMsgInputs st"
  "fMultipartInputs (marked b k t st) = fMultipartInputs st" "rn_user (marked b k t st) = rn_user st"
  "fMultitransportInputs (marked b k t st) = [(t, [k])]"
  "rn_device (marked b k t st) = set_multipart b k (rn_device st)"
  by (simp_all add: marked_def on_device_def)

lemma map_of_set_multipart:
  "map_of (fChannels (set_multipart b k d)) k = map_option (map (\<lambda>c. c\<lparr>fMultipart := b\<rparr>)) (map_of (fChannels d) k)"
proof -
  have "map_of (map (\<lambda>(n, cs). (n, if n = k then map f cs else cs)) xs) k = map_option (map f) (map_of xs k)" for f and xs :: "(string \<times> 'x list) list"
    by (induction xs) auto
  then show ?thesis by (simp add: set_multipart_def)
qed

lemma GetChannel_set_multipart:
  "GetChannel k i (set_multipart b k d) = map_outcome_result (\<lambda>c. c\<lparr>fMultipart := b\<rparr>) (GetChannel k i d)"
  by (simp add: GetChannel_def map_of_set_multipart map_at_def vector_at_def map_outcome_result_def split: option.split)

lemma put_set_multipart:
  "put_channel (k, i) (c\<lparr>fMultipart := b\<rparr>) (set_multipart b k d) = set_multipart b k (put_channel (k, i) c d)"
  by (simp add: put_channel_def set_multipart_def case_prod_unfold map_update)

lemma on_socket_multipart:
  "on_socket f (c\<lparr>fMultipart := b\<rparr>) = map_outcome_result (\<lambda>(n, m, c). (n, m, c\<lparr>fMultipart := b\<rparr>)) (on_socket f c)"
  by (simp add: on_socket_def map_outcome_result_def split: option.split prod.split)

lemma CheckReceive_multipart:
  "CheckReceiveCompatibility (c\<lparr>fMultipart := b\<rparr>) m = CheckReceiveCompatibility c m"
  by (simp add: CheckReceiveCompatibility_def NewMessage_def)

lemma Receive_multipart:
  "Receive v m (c\<lparr>fMultipart := b\<rparr>) = map_outcome_result (\<lambda>(n, m, c). (n, m, c\<lparr>fMultipart := b\<rparr>)) (Receive v m c)"
  by (cases "CheckReceiveCompatibility c m")
    (simp_all add: Receive_def CheckReceive_multipart on_socket_multipart map_outcome_result_def)

lemma Receive_vec_multipart:
  "Receive_vec v [] (c\<lparr>fMultipart := b\<rparr>) =
     map_outcome_result (\<lambda>(n, m, c). (n, m, c\<lparr>fMultipart := b\<rparr>)) (Receive_vec v [] c)"
  by (simp add: Receive_vec_def on_socket_multipart)

lemma put_marked:
  "on_device (put_channel (k, i) (c\<lparr>fMultipart := b\<rparr>)) (marked b k t st) = marked b k t (on_device (put_channel (k, i) c) st)"
  by (simp add: marked_def on_device_def put_set_multipart)

lemma run_callback_marked:
  "run_callback cb m i (marked b k t st) = map_outcome_result (apsnd (marked b k t)) (run_callback cb m i st)"
proof -
  have "(marked b k t st)\<lparr>rn_user := u\<rparr> = marked b k t (st\<lparr>rn_user := u\<rparr>)" for u by (simp add: marked_def on_device_def)
  then show ?thesis by (cases "cb m i (rn_user st)") (auto simp: run_callback_def map_outcome_result_def)
qed

lemma HandleMsgInput_marked:
  "HandleMsgInput E k cb i (marked b k t st) = map_outcome_result (apsnd (marked b k t)) (HandleMsgInput E k cb i st)"
proof (cases "GetChannel k i (rn_device st)")
  case (Returns c)
  show ?thesis
  proof (cases "fTransportFactory c")
    case (Some f)
    then show ?thesis using Returns
      by (cases "Receive (env_socket E) (CreateMessage_empty f) c")
        (auto simp: HandleMsgInput_def GetChannel_set_multipart Receive_multipart map_outcome_result_def [of "\<lambda>(n, m, c). _ n m c"]
          map_outcome_result_def [of "\<lambda>c. c\<lparr>fMultipart := b\<rparr>"] put_marked run_callback_marked Let_def,
          simp_all add: map_outcome_result_def)
  qed (simp add: HandleMsgInput_def GetChannel_set_multipart Returns map_outcome_result_def)
qed (simp_all add: HandleMsgInput_def GetChannel_set_multipart map_outcome_result_def)

lemma HandleMultipartInput_marked:
  "HandleMultipartInput E k cb i (marked b k t st) = map_outcome_result (apsnd (marked b k t)) (HandleMultipartInput E k cb i st)"
proof (cases "GetChannel k i (rn_device st)")
  case (Returns c)
  then show ?thesis
    by (cases "Receive_vec (env_socket E) [] c")
      (auto simp: HandleMultipartInput_def GetChannel_set_multipart Receive_vec_multipart map_outcome_result_def [of "\<lambda>(n, m, c). _ n m c"]
        map_outcome_result_def [of "\<lambda>c. c\<lparr>fMultipart := b\<rparr>"] put_marked run_callback_marked Let_def,
        simp_all add: map_outcome_result_def)
qed (simp_all add: HandleMultipartInput_def GetChannel_set_multipart map_outcome_result_def)

text \<open>A device with one input channel that has one sub-channel, and a callback of one kind for it.\<close>

definition one_input :: "bool \<Rightarrow> string \<Rightarrow> ('s, 'f, 'c, 'u) running \<Rightarrow> bool" where
  "one_input b k st \<longleftrightarrow>
     fInputChannelKeys st = [k] \<and> (\<exists>c. map_of (fChannels (rn_device st)) k = Some [c]) \<and>
     (if b then fMsgInputs st = [] \<and> (\<exists>cb. fMultipartInputs st = [(k, cb)])
      else fMultipartInputs st = [] \<and> (\<exists>cb. fMsgInputs st = [(k, cb)]))"

definition handle_single ::
    "('s, 'f) environment \<Rightarrow> bool \<Rightarrow> string \<Rightarrow> ('s, 'f, 'c, 'u) running \<Rightarrow> (bool \<times> ('s, 'f, 'c, 'u) running) outcome" where
  "handle_single E b k st =
     (if b then HandleMultipartInput E k (snd (hd (fMultipartInputs st))) 0 st
      else HandleMsgInput E k (snd (hd (fMsgInputs st))) 0 st)"

lemma handle_single_marked:
  "handle_single E b k (marked b' k t st) = map_outcome_result (apsnd (marked b' k t)) (handle_single E b k st)"
  by (simp add: handle_single_def HandleMsgInput_marked HandleMultipartInput_marked)

lemma one_input_user [simp]: "one_input b k (st\<lparr>rn_user := u\<rparr>) = one_input b k st"
  by (simp add: one_input_def)

lemma one_input_after:
  assumes "one_input b k st" "handle_single E b k st = Returns (p, st')"
  shows "one_input b k st'"
proof -
  have put: "one_input b k (on_device (put_channel (k, 0) c) st)" for c
    using assms(1) map_of_replace [of k 0 c "fChannels (rn_device st)" k]
    unfolding one_input_def on_device_def put_channel_def fst_conv snd_conv by auto
  have "\<exists>c u. st' = (on_device (put_channel (k, 0) c) st)\<lparr>rn_user := u\<rparr>"
  proof -
    have "on_device (put_channel (k, 0) c) st = (on_device (put_channel (k, 0) c) st)\<lparr>rn_user := rn_user st\<rparr>" for c
      by (simp add: on_device_def)
    then show ?thesis using assms(2)
      by (auto simp: handle_single_def HandleMsgInput_def HandleMultipartInput_def and_then_Returns_iff run_callback_def Let_def
          split: if_splits option.splits)
  qed
  then show ?thesis using put by auto
qed

lemma poll_one_input:
  assumes "one_input b k st"
  shows "poll_channels E ready (fInputChannelKeys (marked b k t st)) (marked b k t st) =
    (if ready k 0 then map_outcome_result (apsnd (marked b k t)) (handle_single E b k st) else Returns (True, marked b k t st))"
proof -
  from assms obtain c where c: "map_of (fChannels (rn_device st)) k = Some [c]" by (auto simp: one_input_def)
  then have "GetChannel k 0 (rn_device st) = Returns c" by (simp add: GetChannel_def map_at_def vector_at_def)
  then have "GetChannel k 0 (rn_device (marked b k t st)) = Returns (c\<lparr>fMultipart := b\<rparr>)"
    by (simp add: GetChannel_set_multipart map_outcome_result_def)
  then have "handle_ready E k 0 (marked b k t st) = handle_single E b k (marked b k t st)"
    using assms by (auto simp: handle_ready_def handle_single_def one_input_def map_at_def)
  moreover have "fInputChannelKeys st = [k]" using assms by (simp add: one_input_def)
  ultimately show ?thesis using c
    by (cases "handle_single E b k st")
      (auto simp: handle_single_marked map_outcome_result_def map_of_set_multipart map_at_def)
qed

text \<open>Rounds without input are skipped.\<close>

lemma input_loop_simulation:
  assumes "\<And>st r. I st \<Longrightarrow> h' r (g st) = (if has_input r then map_outcome_result (apsnd g) (h r st) else Returns (True, g st))"
    and "\<And>st r p st'. I st \<Longrightarrow> h r st = Returns (p, st') \<Longrightarrow> I st'"
  shows "I st \<Longrightarrow> input_loop h' rounds (g st) =
    map_option (map_outcome_result g) (input_loop h (filter (\<lambda>(b, r). \<not> b \<or> has_input r) rounds) st)"
proof (induction rounds arbitrary: st)
  case (Cons br rounds)
  obtain b r where br: "br = (b, r)" by (cases br)
  note h' = assms(1) [OF Cons.prems, of r]
  show ?case
  proof (cases "h r st")
    case (Returns pst)
    obtain p st' where pst: "pst = (p, st')" by (cases pst)
    have "I st'" using assms(2) Cons.prems Returns pst by blast
    then show ?thesis using h' Cons.IH [of st'] Cons.IH [OF Cons.prems] Returns pst br
      by (simp add: map_outcome_result_def)
  qed (use h' br Cons.IH [OF Cons.prems] in \<open>simp_all add: map_outcome_result_def\<close>)
qed simp

lemma prepare_one_input:
  assumes "one_input b k st" "GetChannel k 0 (rn_device st) = Returns c"
  shows "prepare_inputs st = Returns (marked b k (fTransportType c) st)"
proof -
  have "map_of (fChannels (rn_device st)) k \<noteq> None" using assms(1) by (auto simp: one_input_def)
  then show ?thesis using assms
    by (auto simp: prepare_inputs_def one_input_def group_input_def mark_input_def add_multitransport_def marked_def map_at_def
        on_device_def split: if_splits)
qed

lemma input_loop_cong:
  assumes "\<And>st r. I st \<Longrightarrow> h' r st = h r st" "\<And>st r p st'. I st \<Longrightarrow> h r st = Returns (p, st') \<Longrightarrow> I st'"
  shows "I st \<Longrightarrow> input_loop h' rounds st = input_loop h rounds st"
proof (induction rounds arbitrary: st)
  case (Cons br rounds)
  then show ?case using assms by (cases br; cases "h (snd br) st") auto
qed simp

lemma HandleSingle_one_input:
  assumes "one_input b k st"
  shows "HandleSingleChannelInput E rounds st = input_loop (\<lambda>_. handle_single E b k) rounds st"
proof -
  let ?h = "\<lambda>_ st. and_then (vector_at (fInputChannelKeys st) 0) (\<lambda>key.
      if b then HandleMultipartInput E key (snd (hd (fMultipartInputs st))) 0 st else HandleMsgInput E key (snd (hd (fMsgInputs st))) 0 st)"
  have "input_loop ?h rounds st = input_loop (\<lambda>_. handle_single E b k) rounds st"
    using assms
  proof (rule input_loop_cong [rotated 2])
    show "?h r st = handle_single E b k st" if "one_input b k st" for r st
      using that by (auto simp: one_input_def vector_at_def handle_single_def)
  qed (rule one_input_after)
  then show ?thesis using assms
    by (cases b) (auto simp: HandleSingleChannelInput_def one_input_def)
qed

section \<open>A device with two inputs\<close>

text \<open>Its callbacks count the calls; the one for messages asks to stop.\<close>

definition input_channel :: "Transport \<Rightarrow> nat FairMQChannel" where
  "input_channel t =
     InitTransport \<lparr>fTransportType_of = t, fkId = ''sink''\<rparr>
       ((FairMQChannel_configured ''pull'' ''bind'' ''tcp://*:5555'')\<lparr>fSocket := Some 0\<rparr>)"

definition new_running :: "('s, 'f, 'c) FairMQDevice \<Rightarrow> 'u \<Rightarrow> ('s, 'f, 'c, 'u) running" where
  "new_running d u =
     \<lparr>rn_device = d, fDataCallbacks = False, fMsgInputs = [], fMultipartInputs = [], fMultitransportInputs = [],
      fChannelRegistry = [], fInputChannelKeys = [], fInterrupted = False, interrupted_transports = [], rn_user = u\<rparr>"

definition two_inputs :: "(nat, nat, nat, nat) running" where
  "two_inputs =
     (OnData_msg ''a'' (\<lambda>m i u. Returns (False, Suc u)) (OnData_parts ''b'' (\<lambda>ms i u. Returns (True, Suc u))
       (new_running ((new_FairMQDevice 0 sink_config)\<lparr>fChannels := [(''a'', [input_channel ZMQ]), (''b'', [input_channel SHM])]\<rparr>) 0)))
     \<lparr>fMultitransportInputs := [(ZMQ, [''a'']), (SHM, [''b''])]\<rparr>"

definition one_running :: "(nat, nat, nat, nat) running" where
  "one_running =
     OnData_msg ''a'' (\<lambda>m i u. Returns (u < 1, Suc u))
       (new_running ((new_FairMQDevice 0 sink_config)\<lparr>fChannels := [(''a'', [input_channel ZMQ])]\<rparr>) 0)"

lemma handle_a:
  "\<exists>st. handle_ready first_port ''a'' 0 two_inputs = Returns (False, st)"
  by (simp add: handle_ready_def two_inputs_def OnData_msg_def OnData_parts_def add_input_key_def new_running_def
      GetChannel_def map_at_def vector_at_def input_channel_def InitTransport_def FairMQChannel_configured_def map_insert_def
      HandleMsgInput_def Receive_def CheckReceiveCompatibility_def CreateMessage_empty_def on_socket_def first_port_def busy_host_def
      counting_socket_def run_callback_def on_device_def Let_def GetSize_def)

section \<open>Properties\<close>

text \<open>
  C4: With several transports, once the callback of an input has returned false, or receiving it has failed, no
  callback is called any more, in whatever order the threads of the transports run: the results of all
  inputs handled so far are true, but for the last one where the threads were told to stop.
\<close>

theorem no_callback_after_stop:
  assumes "(poll_step E)\<^sup>*\<^sup>* (HandleMultipleTransportInput st) s"
  shows "\<exists>n. handled s = replicate n True @ (if fMultitransportProceed s then [] else [False])"
proof -
  have "stopped_in_order (HandleMultipleTransportInput st)" by (simp add: stopped_in_order_def HandleMultipleTransportInput_def)
  with assms have "stopped_in_order s" by (induction rule: rtranclp_induct) (auto intro: poll_step_order)
  then show ?thesis by (simp add: stopped_in_order_def)
qed

theorem no_callback_after_stop_witness:
  "\<exists>s. (poll_step first_port)\<^sup>*\<^sup>* (HandleMultipleTransportInput two_inputs) s \<and> handled s = [False] \<and> \<not> fMultitransportProceed s"
proof -
  let ?s0 = "HandleMultipleTransportInput two_inputs" and ?E = first_port
  have th: "ps_threads ?s0 = [([''a''], At_loop), ([''b''], At_loop)]" "fMultitransportProceed ?s0" "ps_run ?s0 = two_inputs" "handled ?s0 = []"
    by (simp_all add: HandleMultipleTransportInput_def two_inputs_def)
  have ch: "map_of (fChannels (rn_device two_inputs)) ''a'' = Some [input_channel ZMQ]"
    by (simp add: two_inputs_def OnData_msg_def OnData_parts_def add_input_key_def new_running_def)
  let ?s1 = "?s0\<lparr>ps_threads := [([''a''], At_channels [''a'']), ([''b''], At_loop)]\<rparr>"
  let ?s2 = "?s0\<lparr>ps_threads := [([''a''], At_inputs ''a'' [0] []), ([''b''], At_loop)]\<rparr>"
  obtain st where st: "handle_ready ?E ''a'' 0 two_inputs = Returns (False, st)" using handle_a by blast
  let ?s3 = "?s0\<lparr>ps_run := st, fMultitransportProceed := False, handled := [False],
    ps_threads := [([''a''], At_inputs ''a'' [] []), ([''b''], At_loop)]\<rparr>"
  have "poll_step ?E ?s0 ?s1"
    using poll_step.thread [of 0 ?s0 "[''a'']" At_loop ?E True True "At_channels [''a'']" ?s0] th by simp
  moreover have "poll_step ?E ?s1 ?s2"
    using poll_step.thread [of 0 ?s1 "[''a'']" "At_channels [''a'']" ?E True True "At_inputs ''a'' [0] []" ?s1] th ch by simp
  moreover have "poll_step ?E ?s2 ?s3"
    using poll_step.thread [of 0 ?s2 "[''a'']" "At_inputs ''a'' [0] []" ?E True True "At_inputs ''a'' [] []"
        "?s2\<lparr>ps_run := st, fMultitransportProceed := False, handled := [False]\<rparr>"] th st by simp
  ultimately have r: "(poll_step ?E)\<^sup>*\<^sup>* ?s0 ?s3" by (meson converse_rtranclp_into_rtranclp rtranclp.rtrancl_refl)
  from no_callback_after_stop [OF r] have "\<exists>n. handled ?s3 = replicate n True @ [False]" by simp
  then show ?thesis using r by (intro exI [of _ ?s3]) simp
qed

text \<open>
  C27: Once told to stop, the threads of the transports end: whatever the pollers report and however the threads are
  scheduled, they take no more steps together than the sum of what each still has to look at in its
  round, and when no step is left every thread has left its loop, so that joining them returns.
\<close>

theorem transport_threads_terminate:
  assumes "\<not> fMultitransportProceed s" "(poll_step E ^^ n) s s'"
  shows "n \<le> poll_bound s \<and> ((\<forall>s''. \<not> poll_step E s' s'') \<longrightarrow> (\<forall>t \<in> set (ps_threads s'). snd t = Thread_left))"
  using poll_steps_stopped [OF assms(2,1)] poll_stuck_left [of s' E] by auto

theorem transport_threads_terminate_witness:
  "\<exists>s s' :: (nat, nat, nat, nat) poll_system. \<not> fMultitransportProceed s \<and> (poll_step first_port ^^ 2) s s' \<and>
     2 \<le> poll_bound s \<and> (\<forall>t \<in> set (ps_threads s'). snd t = Thread_left)"
proof -
  let ?s = "(HandleMultipleTransportInput two_inputs)\<lparr>fMultitransportProceed := False\<rparr>"
  have th: "ps_threads ?s = [([''a''], At_loop), ([''b''], At_loop)]"
    by (simp add: HandleMultipleTransportInput_def two_inputs_def)
  let ?s1 = "?s\<lparr>ps_threads := [([''a''], Thread_left), ([''b''], At_loop)]\<rparr>"
  let ?s2 = "?s\<lparr>ps_threads := [([''a''], Thread_left), ([''b''], Thread_left)]\<rparr>"
  have "poll_step first_port ?s ?s1"
    using poll_step.thread [of 0 ?s "[''a'']" At_loop first_port True True Thread_left ?s] th by simp
  moreover have "poll_step first_port ?s1 ?s2"
    using poll_step.thread [of 1 ?s1 "[''b'']" At_loop first_port True True Thread_left ?s1] th by simp
  ultimately have r: "(poll_step first_port ^^ 2) ?s ?s2" by (auto simp: numeral_2_eq_2)
  have stuck: "\<not> poll_step first_port ?s2 s''" for s''
    by (auto simp: less_Suc_eq elim!: poll_step.cases)
  have "\<not> fMultitransportProceed ?s" by simp
  from transport_threads_terminate [OF this r] stuck show ?thesis using r by (intro exI [of _ ?s] exI [of _ ?s2]) simp
qed

text \<open>
  C12: The lightweight handling of a single input is equivalent to polling: where the device has one input channel
  with one sub-channel and a callback of one kind, \<open>HandleMultipleChannelInput\<close> does what
  \<open>HandleSingleChannelInput\<close> does in the rounds in which there is input, with the same calls, the same
  sockets and the same end, and differs only in the note of the channel's kind and transport.
\<close>

theorem fast_path_equivalent:
  assumes "one_input b k st" "GetChannel k 0 (rn_device st) = Returns c" "fTransportFactory c \<noteq> None"
  shows "HandleMultipleChannelInput E threads rounds st =
    map_option (map_outcome_result (marked b k (fTransportType c)))
      (HandleSingleChannelInput E (filter (\<lambda>(is_running, ready). \<not> is_running \<or> ready k 0) rounds) st)"
proof -
  let ?g = "marked b k (fTransportType c)"
  have "GetChannel k 0 (rn_device (?g st)) = Returns (c\<lparr>fMultipart := b\<rparr>)"
    using assms(2) by (simp add: GetChannel_set_multipart map_outcome_result_def)
  moreover have "vector_at (fInputChannelKeys (?g st)) 0 = Returns k" using assms(1) by (simp add: one_input_def vector_at_def)
  ultimately have "HandleMultipleChannelInput E threads rounds st =
      input_loop (\<lambda>ready st. poll_channels E ready (fInputChannelKeys st) st) rounds (?g st)"
    using prepare_one_input [OF assms(1,2)] assms(3) by (auto simp: HandleMultipleChannelInput_def)
  also have "\<dots> = map_option (map_outcome_result ?g) (input_loop (\<lambda>_. handle_single E b k)
      (filter (\<lambda>(is_running, ready). \<not> is_running \<or> ready k 0) rounds) st)"
    by (rule input_loop_simulation [where I = "one_input b k" and has_input = "\<lambda>ready. ready k 0", OF _ _ assms(1)])
      (rule poll_one_input, assumption, rule one_input_after)
  finally show ?thesis unfolding HandleSingle_one_input [OF assms(1)] .
qed

theorem fast_path_equivalent_witness:
  "\<exists>st1. HandleSingleChannelInput first_port [(True, \<lambda>(_ :: string) (_ :: nat). True), (True, \<lambda>_ _. True), (True, \<lambda>_ _. True)] one_running = Some (Returns st1) \<and>
     rn_user st1 = 2 \<and>
     HandleMultipleChannelInput first_port (\<lambda>_. None)
       [(True, \<lambda>_ _. True), (True, \<lambda>_ _. False), (True, \<lambda>_ _. True), (True, \<lambda>_ _. True)] one_running =
     Some (Returns (marked False ''a'' ZMQ st1))"
proof -
  let ?rs = "[(True, \<lambda>_ _. True), (True, \<lambda>_ _. False), (True, \<lambda>_ _. True), (True, \<lambda>_ _. True)]"
  have o: "one_input False ''a'' one_running"
    by (simp add: one_input_def one_running_def OnData_msg_def add_input_key_def new_running_def map_insert_def)
  have g: "GetChannel ''a'' 0 (rn_device one_running) = Returns (input_channel ZMQ)"
    by (simp add: GetChannel_def one_running_def OnData_msg_def add_input_key_def new_running_def map_at_def vector_at_def)
  have f: "fTransportFactory (input_channel ZMQ) \<noteq> None" "fTransportType (input_channel ZMQ) = ZMQ"
    by (simp_all add: input_channel_def InitTransport_def)
  have "\<exists>st1. HandleSingleChannelInput first_port [(True, \<lambda>(_ :: string) (_ :: nat). True), (True, \<lambda>_ _. True), (True, \<lambda>_ _. True)] one_running =
      Some (Returns st1) \<and> rn_user st1 = 2"
    unfolding HandleSingle_one_input [OF o]
    by (simp add: handle_single_def one_running_def OnData_msg_def add_input_key_def new_running_def map_insert_def HandleMsgInput_def
      GetChannel_def map_at_def vector_at_def input_channel_def InitTransport_def FairMQChannel_configured_def put_channel_def
      Receive_def CheckReceiveCompatibility_def CreateMessage_empty_def on_socket_def first_port_def busy_host_def
      counting_socket_def run_callback_def on_device_def Let_def GetSize_def)
  then obtain st1 where
    "HandleSingleChannelInput first_port [(True, \<lambda>(_ :: string) (_ :: nat). True), (True, \<lambda>_ _. True), (True, \<lambda>_ _. True)] one_running =
      Some (Returns st1)" "rn_user st1 = 2" by blast
  then show ?thesis using fast_path_equivalent [OF o g f(1), of first_port "\<lambda>_. None" ?rs] f(2)
    by (intro exI [of _ st1]) (simp add: map_outcome_result_def)
qed

end
