(* ===== verification/Poller.thy ===== *)
theory Poller
  imports Channel
begin

text \<open>
  The pollers of the ZeroMQ and the shared-memory transport, \<open>fairmq/zeromq/FairMQPollerZMQ.cxx\<close> and
  \<open>fairmq/shmem/FairMQPollerSHM.cxx\<close>, which differ in what they do with an unknown channel, and the names
  of socket types and options of \<open>FairMQSocketZMQ\<close> and \<open>FairMQSocketSHM\<close>. The ZeroMQ library is an
  argument: the type of a socket as \<open>zmq_getsockopt\<close> gives it, and what \<open>zmq_poll\<close> reports.
\<close>

section \<open>Constants\<close>

datatype zmq_constant =
    ZMQ_SUB | ZMQ_PUB | ZMQ_XSUB | ZMQ_XPUB | ZMQ_PUSH | ZMQ_PULL | ZMQ_REQ | ZMQ_REP | ZMQ_DEALER | ZMQ_ROUTER | ZMQ_PAIR
  | ZMQ_SNDHWM | ZMQ_RCVHWM | ZMQ_SNDBUF | ZMQ_RCVBUF | ZMQ_SNDMORE | ZMQ_RCVMORE | ZMQ_LINGER
  | ZMQ_DONTWAIT | ZMQ_DONTWAIT_SNDMORE | constant_int int

definition zmq_constants :: "(string \<times> zmq_constant) list" where
  "zmq_constants =
     [('''', constant_int 0), (''sub'', ZMQ_SUB), (''pub'', ZMQ_PUB), (''xsub'', ZMQ_XSUB), (''xpub'', ZMQ_XPUB),
      (''push'', ZMQ_PUSH), (''pull'', ZMQ_PULL), (''req'', ZMQ_REQ), (''rep'', ZMQ_REP), (''dealer'', ZMQ_DEALER),
      (''router'', ZMQ_ROUTER), (''pair'', ZMQ_PAIR),
      (''snd-hwm'', ZMQ_SNDHWM), (''rcv-hwm'', ZMQ_RCVHWM), (''snd-size'', ZMQ_SNDBUF), (''rcv-size'', ZMQ_RCVBUF),
      (''snd-more'', ZMQ_SNDMORE), (''rcv-more'', ZMQ_RCVMORE), (''linger'', ZMQ_LINGER)]"

definition GetConstant :: "string \<Rightarrow> zmq_constant" where
  "GetConstant constant = (case map_of zmq_constants constant of Some c \<Rightarrow> c | None \<Rightarrow> constant_int (-1))"

definition GetConstant_shm :: "string \<Rightarrow> zmq_constant" where
  "GetConstant_shm constant =
     (case map_of (zmq_constants @ [(''no-block'', ZMQ_DONTWAIT), (''snd-more no-block'', ZMQ_DONTWAIT_SNDMORE)]) constant of
        Some c \<Rightarrow> c | None \<Rightarrow> constant_int (-1))"

section \<open>Pollers\<close>

text \<open>Events are the pair of the bits \<open>ZMQ_POLLIN\<close> and \<open>ZMQ_POLLOUT\<close>. An item that was not filled in is \<open>None\<close>.\<close>

record 's zmq_pollitem =
  item_socket :: 's
  item_events :: "bool \<times> bool"
  item_revents :: "bool \<times> bool"

record 's FairMQPoller =
  fItems :: "'s zmq_pollitem option list"
  fOffsetMap :: "string \<rightharpoonup> nat"

definition SetItemEvents :: "zmq_constant \<Rightarrow> (bool \<times> bool) outcome" where
  "SetItemEvents type =
     (if type \<in> {ZMQ_REQ, ZMQ_REP, ZMQ_PAIR, ZMQ_DEALER, ZMQ_ROUTER} then Returns (True, True)
      else if type \<in> {ZMQ_PUSH, ZMQ_PUB, ZMQ_XPUB} then Returns (False, True)
      else if type \<in> {ZMQ_PULL, ZMQ_SUB, ZMQ_XSUB} then Returns (True, False)
      else Exits)"

text \<open>The socket of a channel; a channel without one fails an assertion.\<close>

definition GetSocket :: "'s FairMQChannel \<Rightarrow> 's outcome" where
  "GetSocket c = (case fSocket c of None \<Rightarrow> Exits | Some s \<Rightarrow> Returns s)"

definition poll_item :: "('s \<Rightarrow> zmq_constant) \<Rightarrow> 's FairMQChannel \<Rightarrow> 's zmq_pollitem outcome" where
  "poll_item zmq_type c =
     and_then (GetSocket c)
       (\<lambda>s. and_then (SetItemEvents (zmq_type s))
          (\<lambda>ev. Returns \<lparr>item_socket = s, item_events = ev, item_revents = (False, False)\<rparr>))"

text \<open>A poller for a list of channels, for sub-channels of a channel map by name, and for two sockets.\<close>

definition FairMQPoller_channels :: "('s \<Rightarrow> zmq_constant) \<Rightarrow> 's FairMQChannel list \<Rightarrow> 's FairMQPoller outcome" where
  "FairMQPoller_channels zmq_type channels =
     map_outcome_result (\<lambda>items. \<lparr>fItems = items, fOffsetMap = Map.empty\<rparr>)
       (fold_outcome (\<lambda>c items. and_then (poll_item zmq_type c) (\<lambda>it. Returns (items @ [Some it]))) channels [])"

definition add_offset ::
    "(string \<rightharpoonup> 's FairMQChannel list) \<Rightarrow> string \<Rightarrow> (string \<rightharpoonup> nat) \<times> nat \<Rightarrow> ((string \<rightharpoonup> nat) \<times> nat) outcome" where
  "add_offset channelsMap channel mo =
     and_then (map_at channelsMap channel) (\<lambda>cs. Returns ((fst mo)(channel \<mapsto> snd mo), snd mo + length cs))"

definition fill_item ::
    "('s \<Rightarrow> zmq_constant) \<Rightarrow> nat \<Rightarrow> 's FairMQChannel list \<Rightarrow> nat \<Rightarrow> 's zmq_pollitem option list \<Rightarrow> 's zmq_pollitem option list outcome" where
  "fill_item zmq_type offset cs i items =
     and_then (poll_item zmq_type (cs ! i)) (\<lambda>it. Returns (items[offset + i := Some it]))"

definition fill_channel ::
    "('s \<Rightarrow> zmq_constant) \<Rightarrow> (string \<rightharpoonup> 's FairMQChannel list) \<Rightarrow> (string \<rightharpoonup> nat) \<Rightarrow> string \<Rightarrow> 's zmq_pollitem option list \<Rightarrow>
     's zmq_pollitem option list outcome" where
  "fill_channel zmq_type channelsMap offsets channel items =
     and_then (map_at channelsMap channel)
       (\<lambda>cs. fold_outcome (fill_item zmq_type (case offsets channel of Some off \<Rightarrow> off | None \<Rightarrow> 0) cs) [0..<length cs] items)"

text \<open>\<open>exits\<close> tells the shared-memory poller, which exits on an unknown channel, from the other, which throws.\<close>

definition FairMQPoller_map ::
    "bool \<Rightarrow> ('s \<Rightarrow> zmq_constant) \<Rightarrow> (string \<rightharpoonup> 's FairMQChannel list) \<Rightarrow> string list \<Rightarrow> 's FairMQPoller outcome" where
  "FairMQPoller_map exits zmq_type channelsMap channelList =
     (case and_then (fold_outcome (add_offset channelsMap) channelList (Map.empty, 0))
             (\<lambda>(offsets, fNumItems).
                and_then (fold_outcome (fill_channel zmq_type channelsMap offsets) channelList (replicate fNumItems None))
                  (\<lambda>items. Returns \<lparr>fItems = items, fOffsetMap = offsets\<rparr>)) of
        Throws e \<Rightarrow> if exits then Exits else Throws OutOfRange
      | r \<Rightarrow> r)"

definition FairMQPoller_sockets :: "('s \<Rightarrow> zmq_constant) \<Rightarrow> 's \<Rightarrow> 's \<Rightarrow> 's FairMQPoller outcome" where
  "FairMQPoller_sockets zmq_type cmdSocket dataSocket =
     and_then (SetItemEvents (zmq_type dataSocket))
       (\<lambda>ev. Returns
          \<lparr>fItems = [Some \<lparr>item_socket = cmdSocket, item_events = (True, False), item_revents = (False, False)\<rparr>,
                     Some \<lparr>item_socket = dataSocket, item_events = ev, item_revents = (False, False)\<rparr>],
           fOffsetMap = Map.empty\<rparr>)"

text \<open>What \<open>zmq_poll\<close> gives: the events of each socket that were asked for, or an error, which may be \<open>ETERM\<close>.\<close>

definition Poll :: "(bool + ('s \<Rightarrow> bool \<times> bool)) \<Rightarrow> 's FairMQPoller \<Rightarrow> 's FairMQPoller outcome" where
  "Poll reported p =
     (case reported of
        Inl eterm \<Rightarrow> if eterm then Returns p else Throws RuntimeError
      | Inr happened \<Rightarrow>
          if None \<in> set (fItems p) then Undefined
          else Returns (p\<lparr>fItems := map (map_option (\<lambda>it. it\<lparr>item_revents :=
                 (fst (item_events it) \<and> fst (happened (item_socket it)), snd (item_events it) \<and> snd (happened (item_socket it)))\<rparr>)) (fItems p)\<rparr>))"

definition revents_at :: "'s FairMQPoller \<Rightarrow> nat \<Rightarrow> (bool \<times> bool) outcome" where
  "revents_at p i =
     (if i < length (fItems p)
      then case fItems p ! i of Some it \<Rightarrow> Returns (item_revents it) | None \<Rightarrow> Undefined
      else Undefined)"

definition CheckInput_index :: "nat \<Rightarrow> 's FairMQPoller \<Rightarrow> bool outcome" where
  "CheckInput_index i p = map_outcome_result fst (revents_at p i)"

definition CheckOutput_index :: "nat \<Rightarrow> 's FairMQPoller \<Rightarrow> bool outcome" where
  "CheckOutput_index i p = map_outcome_result snd (revents_at p i)"

definition CheckInput :: "string \<Rightarrow> nat \<Rightarrow> 's FairMQPoller \<Rightarrow> bool outcome" where
  "CheckInput channelKey i p =
     (case fOffsetMap p channelKey of Some off \<Rightarrow> map_outcome_result fst (revents_at p (off + i)) | None \<Rightarrow> Exits)"

definition CheckOutput :: "string \<Rightarrow> nat \<Rightarrow> 's FairMQPoller \<Rightarrow> bool outcome" where
  "CheckOutput channelKey i p =
     (case fOffsetMap p channelKey of Some off \<Rightarrow> map_outcome_result snd (revents_at p (off + i)) | None \<Rightarrow> Exits)"

section \<open>Where the items of a channel are\<close>

text \<open>The offsets of the channels of a list, from \<open>base\<close> on.\<close>

fun offsets_ok :: "(string \<rightharpoonup> 'c list) \<Rightarrow> (string \<rightharpoonup> nat) \<Rightarrow> nat \<Rightarrow> string list \<Rightarrow> bool" where
  "offsets_ok channelsMap offsets base [] = True"
| "offsets_ok channelsMap offsets base (ch # chs) =
     (offsets ch = Some base \<and> offsets_ok channelsMap offsets (base + length (the (channelsMap ch))) chs)"

definition all_items :: "(string \<rightharpoonup> 'c list) \<Rightarrow> string list \<Rightarrow> 'c list" where
  "all_items channelsMap chs = concat (map (\<lambda>ch. the (channelsMap ch)) chs)"

lemma all_items_simps [simp]:
  "all_items channelsMap [] = []"
  "all_items channelsMap (ch # chs) = the (channelsMap ch) @ all_items channelsMap chs"
  by (simp_all add: all_items_def)

lemma offsets_computed:
  assumes "distinct chs" "set chs \<subseteq> dom channelsMap"
  shows "\<exists>offsets. fold_outcome (add_offset channelsMap) chs (m, base) = Returns (offsets, base + length (all_items channelsMap chs)) \<and>
    offsets_ok channelsMap offsets base chs \<and> (\<forall>ch. ch \<notin> set chs \<longrightarrow> offsets ch = m ch)"
  using assms
proof (induction chs arbitrary: m base)
  case (Cons ch chs)
  then obtain cs where cs: "channelsMap ch = Some cs" by auto
  from Cons obtain offsets where
    o: "fold_outcome (add_offset channelsMap) chs (m(ch \<mapsto> base), base + length cs) =
        Returns (offsets, base + length cs + length (all_items channelsMap chs))"
      "offsets_ok channelsMap offsets (base + length cs) chs" "\<forall>c. c \<notin> set chs \<longrightarrow> offsets c = (m(ch \<mapsto> base)) c"
    by (metis distinct.simps(2) insert_subset list.set(2))
  have "offsets ch = Some base" using o(3) Cons.prems(1) by simp
  moreover have "add_offset channelsMap ch (m, base) = Returns (m(ch \<mapsto> base), base + length cs)"
    using cs by (simp add: add_offset_def map_at_def)
  ultimately show ?case using o cs Cons.prems(1) by (intro exI [of _ offsets]) (auto simp: add.assoc)
qed simp

lemma fill_channel_prefix:
  assumes "\<And>i. i < length cs \<Longrightarrow> poll_item zmq_type (cs ! i) = Returns (f (cs ! i))" "n \<le> length cs" "base + length cs \<le> length items"
  shows "fold_outcome (fill_item zmq_type base cs) [0..<n] items =
    Returns (take base items @ map (Some \<circ> f) (take n cs) @ drop (base + n) items)"
  using assms(2)
proof (induction n)
  case (Suc n)
  let ?xs = "take base items @ map (Some \<circ> f) (take n cs) @ drop (base + n) items"
  have "?xs[base + n := Some (f (cs ! n))] = take base items @ map (Some \<circ> f) (take n cs) @ (drop (base + n) items)[0 := Some (f (cs ! n))]"
    using Suc.prems assms(3) by (simp add: list_update_append)
  also have "(drop (base + n) items)[0 := Some (f (cs ! n))] = Some (f (cs ! n)) # drop (base + Suc n) items"
    using Suc.prems assms(3) Cons_nth_drop_Suc [of "base + n" items, symmetric] by simp
  finally have u: "?xs[base + n := Some (f (cs ! n))] = take base items @ map (Some \<circ> f) (take (Suc n) cs) @ drop (base + Suc n) items"
    using Suc.prems by (simp add: take_Suc_conv_app_nth comp_def)
  show ?case using Suc assms(1) [of n] u by (simp add: fold_outcome_append fill_item_def comp_def)
qed simp

lemma fill_channels:
  assumes "offsets_ok channelsMap offsets base chs" "set chs \<subseteq> dom channelsMap"
    and "\<And>c. c \<in> set (all_items channelsMap chs) \<Longrightarrow> poll_item zmq_type c = Returns (f c)"
    and "length items = base + length (all_items channelsMap chs)"
  shows "fold_outcome (fill_channel zmq_type channelsMap offsets) chs items =
    Returns (take base items @ map (Some \<circ> f) (all_items channelsMap chs))"
  using assms
proof (induction chs arbitrary: base items)
  case (Cons ch chs)
  then obtain cs where cs: "channelsMap ch = Some cs" by auto
  let ?items = "take base items @ map (Some \<circ> f) cs @ drop (base + length cs) items"
  have "fold_outcome (fill_item zmq_type base cs) [0..<length cs] items = Returns ?items"
    using fill_channel_prefix [of cs zmq_type f "length cs" base items] Cons.prems cs by simp
  then have "fill_channel zmq_type channelsMap offsets ch items = Returns ?items"
    using Cons.prems(1) cs by (simp add: fill_channel_def map_at_def)
  moreover have "fold_outcome (fill_channel zmq_type channelsMap offsets) chs ?items =
      Returns (take (base + length cs) ?items @ map (Some \<circ> f) (all_items channelsMap chs))"
    using Cons.prems cs by (intro Cons.IH) auto
  ultimately show ?case using Cons.prems(4) cs by simp
qed simp

lemma item_of_subchannel:
  assumes "offsets_ok channelsMap offsets base chs" "ch \<in> set chs" "i < length (the (channelsMap ch))"
  shows "\<exists>off. offsets ch = Some (base + off) \<and> off + i < length (all_items channelsMap chs) \<and>
    all_items channelsMap chs ! (off + i) = the (channelsMap ch) ! i"
  using assms
proof (induction chs arbitrary: base)
  case (Cons c chs)
  show ?case
  proof (cases "c = ch")
    case True
    then show ?thesis using Cons.prems by (intro exI [of _ 0]) (simp add: nth_append)
  next
    case False
    with Cons obtain off where "offsets ch = Some (base + length (the (channelsMap c)) + off)" "off + i < length (all_items channelsMap chs)"
      "all_items channelsMap chs ! (off + i) = the (channelsMap ch) ! i" by fastforce
    then show ?thesis by (intro exI [of _ "length (the (channelsMap c)) + off"]) (simp add: nth_append add.assoc)
  qed
qed simp

lemma poller_constructed:
  assumes "distinct chs" "set chs \<subseteq> dom channelsMap"
    and "\<And>c. c \<in> set (all_items channelsMap chs) \<Longrightarrow> poll_item zmq_type c = Returns (f c)"
  shows "\<exists>offsets. FairMQPoller_map exits zmq_type channelsMap chs =
      Returns \<lparr>fItems = map (Some \<circ> f) (all_items channelsMap chs), fOffsetMap = offsets\<rparr> \<and> offsets_ok channelsMap offsets 0 chs"
proof -
  obtain offsets where o: "fold_outcome (add_offset channelsMap) chs (Map.empty, 0) = Returns (offsets, length (all_items channelsMap chs))"
      "offsets_ok channelsMap offsets 0 chs" using offsets_computed [OF assms(1,2), of Map.empty 0] by auto
  have "fold_outcome (fill_channel zmq_type channelsMap offsets) chs (replicate (length (all_items channelsMap chs)) None) =
      Returns (map (Some \<circ> f) (all_items channelsMap chs))"
    using fill_channels [OF o(2) assms(2,3)] by simp
  with o show ?thesis by (intro exI [of _ offsets]) (simp add: FairMQPoller_map_def)
qed

text \<open>The socket types that can be polled for input.\<close>

definition input_type :: "zmq_constant \<Rightarrow> bool" where
  "input_type type \<longleftrightarrow> type \<in> {ZMQ_REQ, ZMQ_REP, ZMQ_PAIR, ZMQ_DEALER, ZMQ_ROUTER, ZMQ_PULL, ZMQ_SUB, ZMQ_XSUB}"

definition pollable :: "zmq_constant \<Rightarrow> bool" where
  "pollable type \<longleftrightarrow> input_type type \<or> type \<in> {ZMQ_PUSH, ZMQ_PUB, ZMQ_XPUB}"

lemma poll_item_pollable:
  assumes "fSocket c = Some s" "pollable (zmq_type s)"
  shows "\<exists>ev. poll_item zmq_type c = Returns \<lparr>item_socket = s, item_events = ev, item_revents = (False, False)\<rparr> \<and> fst ev = input_type (zmq_type s)"
  using assms by (auto simp: poll_item_def GetSocket_def SetItemEvents_def pollable_def input_type_def)

section \<open>Properties\<close>

text \<open>
  C26: A poller reports the input of the sub-channel it is asked about: for a list of different channels whose
  sub-channels have sockets of types that can be polled, the poller is constructed, and after polling
  \<open>CheckInput\<close> for a sub-channel tells whether its own socket has input, whatever the other channels of the list are.
\<close>

theorem CheckInput_own_socket:
  assumes "distinct chs" "set chs \<subseteq> dom channelsMap"
    and "\<forall>c \<in> set (all_items channelsMap chs). \<exists>s. fSocket c = Some s \<and> pollable (zmq_type s)"
    and "ch \<in> set chs" "channelsMap ch = Some cs" "i < length cs" "fSocket (cs ! i) = Some s"
  shows "\<exists>p p'. FairMQPoller_map exits zmq_type channelsMap chs = Returns p \<and> Poll (Inr happened) p = Returns p' \<and>
    CheckInput ch i p' = Returns (input_type (zmq_type s) \<and> fst (happened s))"
proof -
  define f where "f c = (case poll_item zmq_type c of Returns it \<Rightarrow> it | _ \<Rightarrow> undefined)" for c
  have f: "poll_item zmq_type c = Returns (f c)" if "c \<in> set (all_items channelsMap chs)" for c
    using assms(3) poll_item_pollable that unfolding f_def by fastforce
  from poller_constructed [OF assms(1,2) f] obtain offsets where
    p: "FairMQPoller_map exits zmq_type channelsMap chs = Returns \<lparr>fItems = map (Some \<circ> f) (all_items channelsMap chs), fOffsetMap = offsets\<rparr>"
      "offsets_ok channelsMap offsets 0 chs" by blast
  from item_of_subchannel [OF p(2) assms(4), of i] assms(5,6) obtain off where
    off: "offsets ch = Some off" "off + i < length (all_items channelsMap chs)" "all_items channelsMap chs ! (off + i) = cs ! i" by auto
  from off have "cs ! i \<in> set (all_items channelsMap chs)" by (metis nth_mem)
  moreover from this assms(3,7) have "pollable (zmq_type s)" by fastforce
  ultimately have "item_socket (f (cs ! i)) = s \<and> fst (item_events (f (cs ! i))) = input_type (zmq_type s)"
    using f [of "cs ! i"] poll_item_pollable [OF assms(7), of zmq_type] by auto
  with p(1) off show ?thesis
    by (auto simp: Poll_def CheckInput_def revents_at_def map_outcome_result_def)
qed

definition polled_channels :: "string \<rightharpoonup> nat FairMQChannel list" where
  "polled_channels =
     [''a'' \<mapsto> [FairMQChannel_default\<lparr>fSocket := Some 1\<rparr>, FairMQChannel_default\<lparr>fSocket := Some 2\<rparr>],
      ''b'' \<mapsto> [FairMQChannel_default\<lparr>fSocket := Some 3\<rparr>]]"

theorem CheckInput_own_socket_witness:
  "\<exists>p p'. FairMQPoller_map False (\<lambda>_. ZMQ_PULL) polled_channels [''b'', ''a''] = Returns p \<and>
     Poll (Inr (\<lambda>s. (s = 2, False))) p = Returns p' \<and> CheckInput ''a'' 1 p' = Returns True"
proof -
  let ?cs = "[FairMQChannel_default\<lparr>fSocket := Some 1\<rparr>, FairMQChannel_default\<lparr>fSocket := Some (2 :: nat)\<rparr>]"
  have "distinct [''b'', ''a'']" "set [''b'', ''a''] \<subseteq> dom polled_channels" "polled_channels ''a'' = Some ?cs"
    "\<forall>c \<in> set (all_items polled_channels [''b'', ''a'']). \<exists>s. fSocket c = Some s \<and> pollable ((\<lambda>_. ZMQ_PULL) s)"
    by (auto simp: polled_channels_def pollable_def input_type_def)
  from CheckInput_own_socket [OF this(1,2,4) _ this(3), of 1 2 False "\<lambda>s. (s = 2, False)"]
  show ?thesis by (simp add: input_type_def)
qed

end
