(* ===== verification/Devices.thy ===== *)
theory Devices
  imports Device_Run Poller
begin

text \<open>
  The ready-made devices of \<open>fairmq/devices/\<close>: proxy, merger, splitter, multiplier, sink and sampler, and the
  shorthands of \<open>fairmq/FairMQDevice.h\<close> with which they transfer messages. As for the running device, the
  rounds of a loop are given by a list with whether the device is running and what a poller reports.
\<close>

section \<open>Transfers on channels of the device\<close>

definition on_channel ::
    "string \<Rightarrow> nat \<Rightarrow> ('s FairMQChannel \<Rightarrow> (int \<times> 'm \<times> 's FairMQChannel) outcome) \<Rightarrow> ('s, 'f, 'c) FairMQDevice \<Rightarrow>
     (int \<times> 'm \<times> ('s, 'f, 'c) FairMQDevice) outcome" where
  "on_channel chan i transfer d =
     and_then (GetChannel chan i d) (\<lambda>c. and_then (transfer c) (\<lambda>(n, m, c). Returns (n, m, put_channel (chan, i) c d)))"

definition Send_on ::
    "('s, 'f) environment \<Rightarrow> message \<Rightarrow> string \<Rightarrow> nat \<Rightarrow> ('s, 'f, 'c) FairMQDevice \<Rightarrow> (int \<times> message \<times> ('s, 'f, 'c) FairMQDevice) outcome" where
  "Send_on E msg chan i = on_channel chan i (Send (env_socket E) msg)"

definition Receive_on ::
    "('s, 'f) environment \<Rightarrow> message \<Rightarrow> string \<Rightarrow> nat \<Rightarrow> ('s, 'f, 'c) FairMQDevice \<Rightarrow> (int \<times> message \<times> ('s, 'f, 'c) FairMQDevice) outcome" where
  "Receive_on E msg chan i = on_channel chan i (Receive (env_socket E) msg)"

definition Send_parts_on ::
    "('s, 'f) environment \<Rightarrow> message list \<Rightarrow> string \<Rightarrow> nat \<Rightarrow> ('s, 'f, 'c) FairMQDevice \<Rightarrow>
     (int \<times> message list \<times> ('s, 'f, 'c) FairMQDevice) outcome" where
  "Send_parts_on E parts chan i = on_channel chan i (Send_vec (env_socket E) parts)"

definition Receive_parts_on ::
    "('s, 'f) environment \<Rightarrow> message list \<Rightarrow> string \<Rightarrow> nat \<Rightarrow> ('s, 'f, 'c) FairMQDevice \<Rightarrow>
     (int \<times> message list \<times> ('s, 'f, 'c) FairMQDevice) outcome" where
  "Receive_parts_on E parts chan i = on_channel chan i (Receive_vec (env_socket E) parts)"

text \<open>A message of the device's own transport.\<close>

definition NewMessage_dv :: "('s, 'f, 'c) FairMQDevice \<Rightarrow> message outcome" where
  "NewMessage_dv d = (case dv_factory d of None \<Rightarrow> Undefined | Some f \<Rightarrow> Returns (CreateMessage_empty f))"

text \<open>
  \<open>FairMQMessage::Copy\<close>, with which each transport casts its argument to its own type of message: a
  message of another transport is undefined behaviour.
\<close>

definition Copy_message :: "message \<Rightarrow> message \<Rightarrow> message outcome" where
  "Copy_message other m = (if mType other = mType m then Returns (Message (mType m) (mData other) None) else Undefined)"

text \<open>
  A poller for channels; channels of different transports request an error, but the poller is created
  nevertheless.
\<close>

definition transport_of :: "'s FairMQChannel \<Rightarrow> Transport outcome" where
  "transport_of c = (case fTransportFactory c of None \<Rightarrow> Undefined | Some f \<Rightarrow> Returns (fTransportType_of f))"

definition NewPoller ::
    "('s \<Rightarrow> zmq_constant) \<Rightarrow> 's FairMQChannel list \<Rightarrow> ('s, 'f, 'c) FairMQDevice \<Rightarrow> ('s FairMQPoller \<times> ('s, 'f, 'c) FairMQDevice) outcome" where
  "NewPoller zmq_type channels d =
     and_then
       (if length channels > 1
        then and_then (transport_of (channels ! 0))
          (\<lambda>type. fold_outcome
             (\<lambda>c d. and_then (transport_of c) (\<lambda>t. Returns (if type \<noteq> t then request ERROR_FOUND d else d))) (tl channels) d)
        else Returns d)
       (\<lambda>d. and_then (vector_at channels 0)
          (\<lambda>c. and_then (transport_of c)
             (\<lambda>_. map_outcome_result (\<lambda>p. (p, d)) (FairMQPoller_channels zmq_type channels))))"

section \<open>Proxy and merger\<close>

text \<open>Receiving a message on an input and sending it on the output; whether both succeeded.\<close>

definition forward_msg ::
    "('s, 'f) environment \<Rightarrow> string \<Rightarrow> nat \<Rightarrow> string \<Rightarrow> ('s, 'f, 'c) FairMQDevice \<Rightarrow> (bool \<times> ('s, 'f, 'c) FairMQDevice) outcome" where
  "forward_msg E inChannel i outChannel d =
     and_then (NewMessage_dv d)
     (\<lambda>payload. and_then (Receive_on E payload inChannel i d)
     (\<lambda>(n, payload, d).
        if n \<ge> 0 then and_then (Send_on E payload outChannel 0 d) (\<lambda>(k, _, d). Returns (k \<ge> 0, d))
        else Returns (False, d)))"

definition forward_parts ::
    "('s, 'f) environment \<Rightarrow> string \<Rightarrow> nat \<Rightarrow> string \<Rightarrow> ('s, 'f, 'c) FairMQDevice \<Rightarrow> (bool \<times> ('s, 'f, 'c) FairMQDevice) outcome" where
  "forward_parts E inChannel i outChannel d =
     and_then (Receive_parts_on E [] inChannel i d)
     (\<lambda>(n, payload, d).
        if n \<ge> 0 then and_then (Send_parts_on E payload outChannel 0 d) (\<lambda>(k, _, d). Returns (k \<ge> 0, d))
        else Returns (False, d))"

definition Proxy_Run ::
    "('s, 'f) environment \<Rightarrow> bool \<Rightarrow> string \<Rightarrow> string \<Rightarrow> (bool \<times> unit) list \<Rightarrow> ('s, 'f, 'c) FairMQDevice \<Rightarrow>
     ('s, 'f, 'c) FairMQDevice outcome option" where
  "Proxy_Run E multipart fInChannelName fOutChannelName rounds d =
     (if multipart then input_loop (\<lambda>_. forward_parts E fInChannelName 0 fOutChannelName) rounds d
      else input_loop (\<lambda>_. forward_msg E fInChannelName 0 fOutChannelName) rounds d)"

text \<open>The inputs of one round of the merger; a transfer that fails ends the round only.\<close>

fun merge_round ::
    "(nat \<Rightarrow> 'd \<Rightarrow> (bool \<times> 'd) outcome) \<Rightarrow> (nat \<Rightarrow> bool) \<Rightarrow> nat list \<Rightarrow> 'd \<Rightarrow> 'd outcome" where
  "merge_round forward ready [] d = Returns d"
| "merge_round forward ready (i # is) d =
     (if ready i then and_then (forward i d) (\<lambda>(ok, d). if ok then merge_round forward ready is d else Returns d)
      else merge_round forward ready is d)"

text \<open>In each round the poller reports the inputs that are ready, or it fails.\<close>

definition Merger_Run ::
    "('s, 'f) environment \<Rightarrow> ('s \<Rightarrow> zmq_constant) \<Rightarrow> bool \<Rightarrow> string \<Rightarrow> string \<Rightarrow> (bool \<times> (nat \<Rightarrow> bool) option) list \<Rightarrow>
     ('s, 'f, 'c) FairMQDevice \<Rightarrow> ('s, 'f, 'c) FairMQDevice outcome option" where
  "Merger_Run E zmq_type multipart fInChannelName fOutChannelName rounds d =
     (case and_then (map_at (map_of (fChannels d)) fInChannelName)
             (\<lambda>chans. and_then (NewPoller zmq_type chans d) (\<lambda>(_, d). Returns (length chans, d))) of
        Returns (numInputs, d) \<Rightarrow>
          input_loop
            (\<lambda>reported d.
               case reported of
                 None \<Rightarrow> Throws RuntimeError
               | Some ready \<Rightarrow>
                   map_outcome_result (Pair True)
                     (merge_round
                        (\<lambda>i. if multipart then forward_parts E fInChannelName i fOutChannelName else forward_msg E fInChannelName i fOutChannelName)
                        ready [0..<numInputs] d))
            rounds d
      | Throws e \<Rightarrow> Some (Throws e)
      | Exits \<Rightarrow> Some Exits
      | Undefined \<Rightarrow> Some Undefined)"

section \<open>Splitter\<close>

record splitter =
  sp_multipart :: bool
  fNumOutputs :: int
  fDirection :: int
  sp_in :: string
  sp_out :: string

text \<open>
  \<open>InitTask\<close>; \<open>sp_multipart\<close> decides which of the two handlers is registered as the data callback of the input.
\<close>

definition Splitter_InitTask :: "('s, 'f, 'c) FairMQDevice \<Rightarrow> splitter outcome" where
  "Splitter_InitTask d =
     and_then (get_int_value ''multipart'' (dv_config d))
     (\<lambda>multi. and_then (get_string ''in-channel'' (dv_config d))
     (\<lambda>inChannel. and_then (get_string ''out-channel'' (dv_config d))
     (\<lambda>outChannel. and_then (map_at (map_of (fChannels d)) outChannel)
     (\<lambda>cs. Returns \<lparr>sp_multipart = (multi \<noteq> 0), fNumOutputs = int (length cs), fDirection = 0, sp_in = inChannel, sp_out = outChannel\<rparr>))))"

definition turn_direction :: "splitter \<Rightarrow> splitter" where
  "turn_direction sp = sp\<lparr>fDirection := if fDirection sp + 1 \<ge> fNumOutputs sp then 0 else fDirection sp + 1\<rparr>"

definition Splitter_HandleSingleData ::
    "('s, 'f) environment \<Rightarrow> message \<Rightarrow> splitter \<times> ('s, 'f, 'c) FairMQDevice \<Rightarrow> (bool \<times> splitter \<times> ('s, 'f, 'c) FairMQDevice) outcome" where
  "Splitter_HandleSingleData E payload st =
     and_then (Send_on E payload (sp_out (fst st)) (nat (fDirection (fst st))) (snd st))
       (\<lambda>(_, _, d). Returns (True, turn_direction (fst st), d))"

definition Splitter_HandleMultipartData ::
    "('s, 'f) environment \<Rightarrow> message list \<Rightarrow> splitter \<times> ('s, 'f, 'c) FairMQDevice \<Rightarrow> (bool \<times> splitter \<times> ('s, 'f, 'c) FairMQDevice) outcome" where
  "Splitter_HandleMultipartData E payload st =
     and_then (Send_parts_on E payload (sp_out (fst st)) (nat (fDirection (fst st))) (snd st))
       (\<lambda>(_, _, d). Returns (True, turn_direction (fst st), d))"

section \<open>Multiplier\<close>

text \<open>
  The loops over all sub-channels but the last one; the bounds are computed with unsigned numbers, so that for an
  empty vector they are large.
\<close>

definition copy_to ::
    "('s, 'f) environment \<Rightarrow> message \<Rightarrow> string \<Rightarrow> nat \<Rightarrow> ('s, 'f, 'c) FairMQDevice \<Rightarrow> ('s, 'f, 'c) FairMQDevice outcome" where
  "copy_to E payload chan j d =
     and_then (NewMessage_dv d)
     (\<lambda>msgCopy. and_then (Copy_message payload msgCopy)
     (\<lambda>msgCopy. and_then (Send_on E msgCopy chan j d) (\<lambda>(_, _, d). Returns d)))"

definition copy_parts_to ::
    "('s, 'f) environment \<Rightarrow> message list \<Rightarrow> string \<Rightarrow> nat \<Rightarrow> ('s, 'f, 'c) FairMQDevice \<Rightarrow> ('s, 'f, 'c) FairMQDevice outcome" where
  "copy_parts_to E payload chan j d =
     and_then
       (fold_outcome
          (\<lambda>part parts. and_then (NewMessage_dv d)
             (\<lambda>msgCopy. and_then (Copy_message part msgCopy) (\<lambda>msgCopy. Returns (AddPart msgCopy parts)))) payload [])
       (\<lambda>parts. and_then (Send_parts_on E parts chan j d) (\<lambda>(_, _, d). Returns d))"

definition for_all_but_last ::
    "(string \<Rightarrow> nat \<Rightarrow> ('s, 'f, 'c) FairMQDevice \<Rightarrow> ('s, 'f, 'c) FairMQDevice outcome) \<Rightarrow> string list \<Rightarrow>
     ('s, 'f, 'c) FairMQDevice \<Rightarrow> (nat \<times> ('s, 'f, 'c) FairMQDevice) outcome" where
  "for_all_but_last copy fOutChannelNames d =
     and_then
       (fold_outcome
          (\<lambda>i d. and_then (vector_at fOutChannelNames i)
             (\<lambda>chan. and_then (map_at (map_of (fChannels d)) chan) (\<lambda>cs. fold_outcome (copy chan) [0..<length cs] d)))
          [0..<unat (of_nat (length fOutChannelNames) - 1 :: 64 word)] d)
     (\<lambda>d. if fOutChannelNames = [] then Undefined
          else and_then (map_at (map_of (fChannels d)) (last fOutChannelNames))
            (\<lambda>cs. let n = unat (of_nat (length cs) - 1 :: 32 word)
                  in map_outcome_result (Pair n) (fold_outcome (copy (last fOutChannelNames)) [0..<n] d)))"

definition Multiplier_HandleSingleData ::
    "('s, 'f) environment \<Rightarrow> string list \<Rightarrow> message \<Rightarrow> ('s, 'f, 'c) FairMQDevice \<Rightarrow> (bool \<times> ('s, 'f, 'c) FairMQDevice) outcome" where
  "Multiplier_HandleSingleData E fOutChannelNames payload d =
     and_then (for_all_but_last (copy_to E payload) fOutChannelNames d)
       (\<lambda>(n, d). and_then (Send_on E payload (last fOutChannelNames) n d) (\<lambda>(_, _, d). Returns (True, d)))"

definition Multiplier_HandleMultipartData ::
    "('s, 'f) environment \<Rightarrow> string list \<Rightarrow> message list \<Rightarrow> ('s, 'f, 'c) FairMQDevice \<Rightarrow> (bool \<times> ('s, 'f, 'c) FairMQDevice) outcome" where
  "Multiplier_HandleMultipartData E fOutChannelNames payload d =
     and_then (for_all_but_last (copy_parts_to E payload) fOutChannelNames d)
       (\<lambda>(n, d). and_then (Send_parts_on E payload (last fOutChannelNames) n d) (\<lambda>(_, _, d). Returns (True, d)))"

section \<open>Sink and sampler\<close>

text \<open>Counting a transfer that succeeded; whether to go on.\<close>

definition count_iteration :: "uint64 \<Rightarrow> uint64 \<Rightarrow> bool \<times> uint64" where
  "count_iteration fMaxIterations fNumIterations =
     (if fMaxIterations > 0 \<and> fNumIterations \<ge> fMaxIterations then (False, fNumIterations) else (True, fNumIterations + 1))"

definition sink_turn ::
    "('s, 'f) environment \<Rightarrow> string \<Rightarrow> uint64 \<Rightarrow> uint64 \<times> ('s, 'f, 'c) FairMQDevice \<Rightarrow>
     (bool \<times> uint64 \<times> ('s, 'f, 'c) FairMQDevice) outcome" where
  "sink_turn E fInChannelName fMaxIterations st =
     and_then (GetChannel fInChannelName 0 (snd st))
     (\<lambda>c. and_then (NewMessage c)
     (\<lambda>msg. and_then (Receive_on E msg fInChannelName 0 (snd st))
     (\<lambda>(n, _, d).
        if n \<ge> 0 then let (proceed, k) = count_iteration fMaxIterations (fst st) in Returns (proceed, k, d)
        else Returns (True, fst st, d))))"

definition Sink_Run ::
    "('s, 'f) environment \<Rightarrow> string \<Rightarrow> uint64 \<Rightarrow> (bool \<times> unit) list \<Rightarrow> uint64 \<times> ('s, 'f, 'c) FairMQDevice \<Rightarrow>
     (uint64 \<times> ('s, 'f, 'c) FairMQDevice) outcome option" where
  "Sink_Run E fInChannelName fMaxIterations rounds st =
     (case GetChannel fInChannelName 0 (snd st) of
        Returns _ \<Rightarrow> input_loop (\<lambda>_. sink_turn E fInChannelName fMaxIterations) rounds st
      | Throws e \<Rightarrow> Some (Throws e)
      | Exits \<Rightarrow> Some Exits
      | Undefined \<Rightarrow> Some Undefined)"

text \<open>
  The sampler: \<open>new_bytes\<close> are the bytes of a new message of the configured size, which the code leaves
  uninitialised. A round has the time at which the rate limiter is asked.
\<close>

definition sampler_message :: "bool \<Rightarrow> byte list \<Rightarrow> message \<Rightarrow> 's FairMQChannel \<Rightarrow> message outcome" where
  "sampler_message fSameMessage new_bytes baseMsg c =
     and_then (NewMessage c)
       (\<lambda>msg. if fSameMessage then Copy_message baseMsg msg else Returns (Message (mType msg) new_bytes None))"

definition sampler_turn ::
    "('s, 'f) environment \<Rightarrow> bool \<Rightarrow> bool \<Rightarrow> string \<Rightarrow> uint64 \<Rightarrow> byte list \<Rightarrow> message \<Rightarrow> int \<Rightarrow>
     uint64 \<times> RateLimiter \<times> ('s, 'f, 'c) FairMQDevice \<Rightarrow> (bool \<times> uint64 \<times> RateLimiter \<times> ('s, 'f, 'c) FairMQDevice) outcome" where
  "sampler_turn E fSameMessage limited fOutChannelName fMaxIterations new_bytes baseMsg now st =
     (let (k, L, d) = st
      in and_then (GetChannel fOutChannelName 0 d)
         (\<lambda>c. and_then (sampler_message fSameMessage new_bytes baseMsg c)
         (\<lambda>msg. and_then (Send_on E msg fOutChannelName 0 d)
         (\<lambda>(n, _, d).
            let (proceed, k) = (if n \<ge> 0 then count_iteration fMaxIterations k else (True, k))
            in if \<not> proceed then Returns (False, k, L, d)
               else if limited then and_then (maybe_sleep now L) (\<lambda>(_, L). Returns (True, k, L, d))
               else Returns (True, k, L, d)))))"

text \<open>\<open>rate_le_0\<close> and \<open>period\<close> are what the limiter's constructor makes of \<open>fMsgRate\<close>.\<close>

definition Sampler_Run ::
    "('s, 'f) environment \<Rightarrow> bool \<Rightarrow> bool \<Rightarrow> int \<Rightarrow> int \<Rightarrow> string \<Rightarrow> uint64 \<Rightarrow> byte list \<Rightarrow> (bool \<times> int) list \<Rightarrow>
     uint64 \<times> ('s, 'f, 'c) FairMQDevice \<Rightarrow> (uint64 \<times> ('s, 'f, 'c) FairMQDevice) outcome option" where
  "Sampler_Run E fSameMessage rate_le_0 period start fOutChannelName fMaxIterations new_bytes rounds st =
     (case and_then (GetChannel fOutChannelName 0 (snd st))
             (\<lambda>c. and_then (NewMessage c)
             (\<lambda>msg. and_then (new_RateLimiter rate_le_0 period start) (\<lambda>L. Returns (Message (mType msg) new_bytes None, L)))) of
        Returns (baseMsg, L) \<Rightarrow>
          and_finally
            (input_loop (sampler_turn E fSameMessage (\<not> rate_le_0) fOutChannelName fMaxIterations new_bytes baseMsg) rounds (fst st, L, snd st))
            (\<lambda>(k, _, d). Returns (k, d))
      | Throws e \<Rightarrow> Some (Throws e)
      | Exits \<Rightarrow> Some Exits
      | Undefined \<Rightarrow> Some Undefined)"

section \<open>The splitter takes turns\<close>

lemma turn_direction_mod:
  assumes "fDirection sp = int k mod fNumOutputs sp" "0 < fNumOutputs sp"
  shows "fDirection (turn_direction sp) = int (Suc k) mod fNumOutputs sp"
proof -
  define r where "r = int k mod fNumOutputs sp"
  have r: "0 \<le> r" "r < fNumOutputs sp" using assms(2) by (simp_all add: r_def)
  have "int (Suc k) mod fNumOutputs sp = (r + 1) mod fNumOutputs sp" by (simp add: r_def mod_simps add.commute)
  also have "\<dots> = (if r + 1 \<ge> fNumOutputs sp then 0 else r + 1)" using r by (cases "r + 1 = fNumOutputs sp") auto
  finally show ?thesis using assms(1) by (simp add: turn_direction_def r_def)
qed

lemma turn_direction_fields [simp]:
  "fNumOutputs (turn_direction sp) = fNumOutputs sp" "sp_out (turn_direction sp) = sp_out sp"
  "turn_direction sp\<lparr>fDirection := x\<rparr> = sp\<lparr>fDirection := x\<rparr>"
  by (simp_all add: turn_direction_def)

lemma splitter_turns:
  fixes send :: "'m \<Rightarrow> string \<Rightarrow> nat \<Rightarrow> 'd \<Rightarrow> (int \<times> 'm \<times> 'd) outcome"
  assumes "fDirection sp = int k mod fNumOutputs sp" "0 < fNumOutputs sp"
  shows "fold_outcome (\<lambda>m st. and_then (send m (sp_out (fst st)) (nat (fDirection (fst st))) (snd st))
        (\<lambda>(_, _, d). Returns (turn_direction (fst st), d))) ms (sp, d) =
    map_outcome_result (Pair (sp\<lparr>fDirection := int (k + length ms) mod fNumOutputs sp\<rparr>))
      (fold_outcome (\<lambda>(j, m) d. map_outcome_result (\<lambda>r. snd (snd r)) (send m (sp_out sp) (j mod nat (fNumOutputs sp)) d)) (enumerate k ms) d)"
  using assms
proof (induction ms arbitrary: k sp d)
  case Nil
  then show ?case by (cases sp) (simp add: map_outcome_result_def)
next
  case (Cons m ms)
  have n: "nat (fDirection sp) = k mod nat (fNumOutputs sp)" using Cons.prems by (simp add: nat_mod_distrib)
  have IH: "fold_outcome (\<lambda>m st. and_then (send m (sp_out (fst st)) (nat (fDirection (fst st))) (snd st))
        (\<lambda>(_, _, d). Returns (turn_direction (fst st), d))) ms (turn_direction sp, d') =
    map_outcome_result (Pair (sp\<lparr>fDirection := int (k + length (m # ms)) mod fNumOutputs sp\<rparr>))
      (fold_outcome (\<lambda>(j, m) d. map_outcome_result (\<lambda>r. snd (snd r)) (send m (sp_out sp) (j mod nat (fNumOutputs sp)) d)) (enumerate (Suc k) ms) d')" for d'
    using Cons.IH [of "turn_direction sp" "Suc k" d'] turn_direction_mod [OF Cons.prems] Cons.prems(2) by simp
  show ?case
    by (cases "send m (sp_out sp) (k mod nat (fNumOutputs sp)) d") (auto simp: n IH map_outcome_result_def split: prod.split)
qed

lemma drop_handled:
  "map_outcome_result snd (and_then x (\<lambda>(_, _, d). Returns (True, sp, d))) = and_then x (\<lambda>(_, _, d). Returns (sp, d))"
  by (cases x) (auto simp: map_outcome_result_def)

section \<open>The multiplier reaches every output\<close>

text \<open>What transfers keep of a device: its own transport, and how many sub-channels each channel has.\<close>

definition same_shape :: "('s, 'f, 'c) FairMQDevice \<Rightarrow> ('s, 'f, 'c) FairMQDevice \<Rightarrow> bool" where
  "same_shape d d' \<longleftrightarrow>
     dv_factory d' = dv_factory d \<and>
     (\<forall>ch. map_option length (map_of (fChannels d') ch) = map_option length (map_of (fChannels d) ch))"

lemma same_shape_trans: "same_shape d1 d2 \<Longrightarrow> same_shape d2 d3 \<Longrightarrow> same_shape d1 d3"
  by (simp add: same_shape_def)

lemma same_shape_put: "same_shape d (put_channel r c d)"
proof -
  have "map_option length (map_of (fChannels (put_channel r c d)) ch) = map_option length (map_of (fChannels d) ch)" for ch
    unfolding put_channel_def by (cases "map_of (fChannels d) ch") (simp_all add: map_of_replace)
  then show ?thesis by (simp add: same_shape_def put_channel_def)
qed

lemma on_channel_shape: "on_channel ch i transfer d = Returns (n, m, d') \<Longrightarrow> same_shape d d'"
  by (auto simp: on_channel_def outcome_simps same_shape_put)

text \<open>The sub-channels of a list of channels, in order.\<close>

definition targets :: "('s, 'f, 'c) FairMQDevice \<Rightarrow> string list \<Rightarrow> (string \<times> nat) list" where
  "targets d chs = concat (map (\<lambda>ch. map (Pair ch) [0..<length (the (map_of (fChannels d) ch))]) chs)"

lemma targets_shape:
  assumes "same_shape d d'" "set chs \<subseteq> fst ` set (fChannels d)"
  shows "targets d' chs = targets d chs"
proof -
  have "length (the (map_of (fChannels d') ch)) = length (the (map_of (fChannels d) ch))" if "ch \<in> set chs" for ch
  proof -
    from that assms(2) obtain cs where "map_of (fChannels d) ch = Some cs" by (metis in_mono map_of_eq_None_iff not_None_eq)
    moreover from this assms(1) have "map_option length (map_of (fChannels d') ch) = Some (length cs)" by (simp add: same_shape_def)
    ultimately show ?thesis by auto
  qed
  then show ?thesis unfolding targets_def by (intro arg_cong [of _ _ concat] map_cong) auto
qed

lemma targets_simps [simp]:
  "targets d [] = []"
  "targets d (ch # chs) = map (Pair ch) [0..<length (the (map_of (fChannels d) ch))] @ targets d chs"
  by (simp_all add: targets_def)

lemma targets_append: "targets d (xs @ ys) = targets d xs @ targets d ys"
  by (simp add: targets_def)

lemma keys_shape: "same_shape d d' \<Longrightarrow> fst ` set (fChannels d') = fst ` set (fChannels d)"
proof -
  assume "same_shape d d'"
  then have "map_of (fChannels d') ch = None \<longleftrightarrow> map_of (fChannels d) ch = None" for ch
    by (metis option.map_disc_iff same_shape_def)
  then show ?thesis unfolding map_of_eq_None_iff by blast
qed

lemma over_channels:
  assumes "\<And>ch j d d'. copy ch j d = Returns d' \<Longrightarrow> same_shape d d'" "set chs \<subseteq> fst ` set (fChannels d)"
  shows "fold_outcome (\<lambda>ch d. and_then (map_at (map_of (fChannels d)) ch) (\<lambda>cs. fold_outcome (copy ch) [0..<length cs] d)) chs d =
    fold_outcome (\<lambda>(ch, j). copy ch j) (targets d chs) d"
  using assms(2)
proof (induction chs arbitrary: d)
  case (Cons ch chs)
  from Cons.prems obtain cs where cs: "map_of (fChannels d) ch = Some cs"
    by (metis insert_subset list.set(2) map_of_eq_None_iff not_None_eq)
  have "same_shape d d'" if "fold_outcome (copy ch) [0..<length cs] d = Returns d'" for d'
    using fold_outcome_invariant [OF that, of "same_shape d"] assms(1) same_shape_trans by (fastforce simp: same_shape_def)
  then have "fold_outcome (\<lambda>(ch, j). copy ch j) (targets d chs) d' =
      fold_outcome (\<lambda>ch d. and_then (map_at (map_of (fChannels d)) ch) (\<lambda>cs. fold_outcome (copy ch) [0..<length cs] d)) chs d'"
    if "fold_outcome (copy ch) [0..<length cs] d = Returns d'" for d'
    using Cons.IH [of d'] Cons.prems that keys_shape [of d d'] targets_shape [of d d' chs] by auto
  then show ?case using cs
    by (cases "fold_outcome (copy ch) [0..<length cs] d") (simp_all add: map_at_def fold_outcome_append fold_outcome_map)
qed simp

lemma fold_outcome_cong_set:
  assumes "\<And>x b. x \<in> set xs \<Longrightarrow> f x b = g x b"
  shows "fold_outcome f xs b = fold_outcome g xs b"
  using assms
proof (induction xs arbitrary: b)
  case (Cons x xs)
  then show ?case by (cases "g x b") auto
qed simp

lemma unsigned_pred: "0 < n \<Longrightarrow> n < 2 ^ LENGTH('w) \<Longrightarrow> unat (of_nat n - 1 :: 'w::len word) = n - 1"
  by (cases n) (simp_all add: unat_of_nat)

lemma all_but_last_reached:
  assumes "\<And>ch j d d'. copy ch j d = Returns d' \<Longrightarrow> same_shape d d'"
    and "outs \<noteq> []" "set outs \<subseteq> fst ` set (fChannels d)" "length outs < 2 ^ 64"
    and "map_of (fChannels d) (last outs) = Some cs" "cs \<noteq> []" "length cs < 2 ^ 32"
  shows "for_all_but_last copy outs d =
      map_outcome_result (Pair (length cs - 1)) (fold_outcome (\<lambda>(ch, j). copy ch j) (butlast (targets d outs)) d) \<and>
    targets d outs \<noteq> [] \<and> last (targets d outs) = (last outs, length cs - 1)"
proof -
  let ?step = "\<lambda>ch d. and_then (map_at (map_of (fChannels d)) ch) (\<lambda>cs. fold_outcome (copy ch) [0..<length cs] d)"
  have n: "unat (of_nat (length outs) - 1 :: 64 word) = length outs - 1" "unat (of_nat (length cs) - 1 :: 32 word) = length cs - 1"
    using assms(2,4,6,7) unsigned_pred [where 'w = 64, of "length outs"] unsigned_pred [where 'w = 32, of "length cs"] by simp_all
  have b: "butlast outs = map (nth outs) [0..<length outs - 1]" by (rule nth_equalityI) (simp_all add: nth_butlast)
  have "fold_outcome (\<lambda>i d. and_then (vector_at outs i) (\<lambda>ch. ?step ch d)) [0..<length outs - 1] d =
      fold_outcome ?step (butlast outs) d"
    unfolding b fold_outcome_map by (rule fold_outcome_cong_set) (auto simp: vector_at_def)
  also have "\<dots> = fold_outcome (\<lambda>(ch, j). copy ch j) (targets d (butlast outs)) d"
    using assms(3) in_set_butlastD by (intro over_channels assms(1)) fastforce+
  finally have 1: "fold_outcome (\<lambda>i d. and_then (vector_at outs i) (\<lambda>ch. ?step ch d)) [0..<length outs - 1] d =
      fold_outcome (\<lambda>(ch, j). copy ch j) (targets d (butlast outs)) d" .
  have t: "targets d outs = targets d (butlast outs) @ map (Pair (last outs)) [0..<length cs]"
    using targets_append [of d "butlast outs" "[last outs]"] assms(2,5) by simp
  obtain k where k: "length cs = Suc k" using assms(6) by (cases cs) auto
  have s: "fold_outcome (copy (last outs)) [0..<k] d' =
      fold_outcome (\<lambda>(ch, j). copy ch j) (map (Pair (last outs)) [0..<k]) d'" for d' by (simp add: fold_outcome_map)
  have "\<exists>cs'. map_of (fChannels d') (last outs) = Some cs' \<and> length cs' = length cs"
    if "fold_outcome (\<lambda>(ch, j). copy ch j) (targets d (butlast outs)) d = Returns d'" for d'
  proof -
    have "same_shape d d'"
      using fold_outcome_invariant [OF that, of "same_shape d"] assms(1) same_shape_trans by (fastforce simp: same_shape_def)
    then have "map_option length (map_of (fChannels d') (last outs)) = Some (length cs)" using assms(5) by (simp add: same_shape_def)
    then show ?thesis by auto
  qed
  then have "for_all_but_last copy outs d = map_outcome_result (Pair k)
      (fold_outcome (\<lambda>(ch, j). copy ch j) (targets d (butlast outs) @ map (Pair (last outs)) [0..<k]) d)"
    using n k assms(2) unfolding for_all_but_last_def n(1) 1 fold_outcome_append
    by (cases "fold_outcome (\<lambda>(ch, j). copy ch j) (targets d (butlast outs)) d") (auto simp: map_at_def s map_outcome_result_def Let_def)
  then show ?thesis unfolding t k by (simp add: butlast_append)
qed

definition message_copy :: "message \<Rightarrow> message" where
  "message_copy m = Message (mType m) (mData m) None"

lemma copy_to_own:
  assumes "dv_factory d = Some f" "fTransportType_of f = mType payload"
  shows "copy_to E payload ch j d = map_outcome_result (\<lambda>r. snd (snd r)) (Send_on E (message_copy payload) ch j d)"
  using assms by (simp add: copy_to_def NewMessage_dv_def CreateMessage_empty_def Copy_message_def message_copy_def map_outcome_result_def case_prod_unfold)

lemma fold_append_single: "fold (\<lambda>x ys. ys @ [f x]) xs zs = zs @ map f xs"
  by (induction xs arbitrary: zs) simp_all

lemma copy_parts_to_own:
  assumes "dv_factory d = Some f" "\<forall>part \<in> set payload. fTransportType_of f = mType part"
  shows "copy_parts_to E payload ch j d = map_outcome_result (\<lambda>r. snd (snd r)) (Send_parts_on E (map message_copy payload) ch j d)"
proof -
  have "fold_outcome (\<lambda>part parts. and_then (NewMessage_dv d)
      (\<lambda>msgCopy. and_then (Copy_message part msgCopy) (\<lambda>msgCopy. Returns (AddPart msgCopy parts)))) payload [] =
      fold_outcome (\<lambda>part parts. Returns (parts @ [message_copy part])) payload []"
    using assms by (intro fold_outcome_cong_set)
      (simp add: NewMessage_dv_def CreateMessage_empty_def Copy_message_def message_copy_def AddPart_def)
  also have "\<dots> = Returns (map message_copy payload)"
    using fold_outcome_Returns [of payload _ "\<lambda>part parts. parts @ [message_copy part]" "[]"]
    by (simp add: fold_append_single)
  finally show ?thesis by (simp add: copy_parts_to_def map_outcome_result_def case_prod_unfold)
qed

lemma copy_to_shape:
  "copy_to E payload ch j d = Returns d' \<Longrightarrow> same_shape d d'"
  "copy_parts_to E parts ch j d = Returns d' \<Longrightarrow> same_shape d d'"
  by (auto simp: copy_to_def copy_parts_to_def Send_on_def Send_parts_on_def outcome_simps dest: on_channel_shape)

lemma fold_outcome_cong_inv:
  assumes "I b" "\<And>x b. I b \<Longrightarrow> f x b = g x b" "\<And>x b b'. I b \<Longrightarrow> f x b = Returns b' \<Longrightarrow> I b'"
  shows "fold_outcome f xs b = fold_outcome g xs b"
  using assms(1)
proof (induction xs arbitrary: b)
  case (Cons x xs)
  from assms(2) [OF Cons.prems] have "f x b = g x b" .
  then show ?case using Cons assms(3) [OF Cons.prems, of x] by (cases "g x b") auto
qed simp

lemma and_then_assoc: "and_then (and_then x f) g = and_then x (\<lambda>a. and_then (f a) g)"
  by (cases x) simp_all

lemma fold_outcome_one: "fold_outcome f [x] = f x"
proof
  show "fold_outcome f [x] b = f x b" for b by (cases "f x b") simp_all
qed

lemma zip_all_but_last:
  "ts \<noteq> [] \<Longrightarrow> fold_outcome (\<lambda>(t, m). g t m) (zip ts (replicate (length ts - 1) c @ [p])) d =
     and_then (fold_outcome (\<lambda>t. g t c) (butlast ts) d) (g (last ts) p)"
  by (cases ts rule: rev_exhaust)
    (auto simp: zip_append1 zip_replicate2 fold_outcome_append fold_outcome_map fold_outcome_one simp del: fold_outcome.simps(2))

lemma multiplied:
  assumes "\<And>ch j d d'. copy ch j d = Returns d' \<Longrightarrow> same_shape d d'"
    and "\<And>ch j d'. same_shape d d' \<Longrightarrow> copy ch j d' = map_outcome_result (\<lambda>r. snd (snd r)) (send c ch j d')"
    and "outs \<noteq> []" "set outs \<subseteq> fst ` set (fChannels d)" "length outs < 2 ^ 64"
    and "map_of (fChannels d) (last outs) = Some cs" "cs \<noteq> []" "length cs < 2 ^ 32"
  shows "and_then (for_all_but_last copy outs d) (\<lambda>(n, d). and_then (send p (last outs) n d) (\<lambda>(_, _, d). Returns (True, d))) =
    map_outcome_result (Pair True)
      (fold_outcome (\<lambda>((ch, j), m) d. map_outcome_result (\<lambda>r. snd (snd r)) (send m ch j d))
         (zip (targets d outs) (replicate (length (targets d outs) - 1) c @ [p])) d)"
proof -
  let ?g = "\<lambda>(ch, j) m d. map_outcome_result (\<lambda>r. snd (snd r)) (send m ch j d)"
  have r: "for_all_but_last copy outs d =
      map_outcome_result (Pair (length cs - 1)) (fold_outcome (\<lambda>(ch, j). copy ch j) (butlast (targets d outs)) d) \<and>
    targets d outs \<noteq> [] \<and> last (targets d outs) = (last outs, length cs - 1)"
    by (rule all_but_last_reached) (use assms in auto)
  have "fold_outcome (\<lambda>(ch, j). copy ch j) (butlast (targets d outs)) d = fold_outcome (\<lambda>t. ?g t c) (butlast (targets d outs)) d"
  proof (rule fold_outcome_cong_inv [of "same_shape d"])
    show "same_shape d d" by (simp add: same_shape_def)
    show "(case t of (ch, j) \<Rightarrow> copy ch j) d1 = ?g t c d1" if "same_shape d d1" for t d1
      using assms(2) [OF that] by (cases t) simp
    show "same_shape d d2" if "same_shape d d1" "(case t of (ch, j) \<Rightarrow> copy ch j) d1 = Returns d2" for t d1 d2
      using that(2) assms(1) same_shape_trans [OF that(1)] by (cases t) auto
  qed
  moreover have "fold_outcome (\<lambda>(t, m). ?g t m) (zip (targets d outs) (replicate (length (targets d outs) - 1) c @ [p])) d =
      and_then (fold_outcome (\<lambda>t. ?g t c) (butlast (targets d outs)) d) (?g (last (targets d outs)) p)"
    using r by (intro zip_all_but_last) blast
  ultimately have "fold_outcome (\<lambda>((ch, j), m) d. map_outcome_result (\<lambda>r. snd (snd r)) (send m ch j d))
      (zip (targets d outs) (replicate (length (targets d outs) - 1) c @ [p])) d =
      and_then (fold_outcome (\<lambda>(ch, j). copy ch j) (butlast (targets d outs)) d)
        (\<lambda>d. map_outcome_result (\<lambda>r. snd (snd r)) (send p (last outs) (length cs - 1) d))"
    using r by (simp add: case_prod_unfold)
  moreover have "and_then (map_outcome_result (Pair n) x) (\<lambda>(n, d). and_then (send p ch n d) (\<lambda>(_, _, d). Returns (True, d))) =
      map_outcome_result (Pair True) (and_then x (\<lambda>d. map_outcome_result (\<lambda>r. snd (snd r)) (send p ch n d)))" for n x ch
    by (cases x) (auto simp: map_outcome_result_def and_then_assoc case_prod_unfold)
  ultimately show ?thesis using r by simp
qed

section \<open>The sink counts\<close>

lemma put_put: "put_channel r c (put_channel r c' d) = put_channel r c d"
  by (auto simp: put_channel_def intro!: FairMQDevice.fold_congs [OF refl] map_cong)

lemma put_same:
  assumes "GetChannel ch i d = Returns c" "distinct (map fst (fChannels d))"
  shows "put_channel (ch, i) c d = d"
proof -
  obtain cs where cs: "map_of (fChannels d) ch = Some cs" "i < length cs" "cs ! i = c"
    using assms(1) by (auto simp: GetChannel_def outcome_simps vector_at_def split: if_splits)
  have "ds[i := c] = ds" if "(ch, ds) \<in> set (fChannels d)" for ds
    using that assms(2) cs by (auto dest: map_of_is_SomeI)
  then have "map (\<lambda>(n, ds). (n, if n = ch then ds[i := c] else ds)) (fChannels d) = fChannels d"
    by (intro map_idI) auto
  then show ?thesis unfolding put_channel_def fst_conv snd_conv by simp
qed

text \<open>
  A loop that counts its turns: \<open>st\<close> is the state that the transfers of \<open>nxt\<close> change and \<open>D\<close> what the loop
  has of it. It returns in the turn after the one in which the count has reached the maximum.
\<close>

lemma counted_loop:
  assumes "\<And>k st. turn (k, D st) = (let (proceed, k') = count_iteration fMax k in Returns (proceed, k', D (nxt st)))"
    and "0 < fMax" "k \<le> fMax"
  shows "input_loop (\<lambda>_. turn) (replicate r (True, u)) (k, D st) =
    (if r \<le> unat (fMax - k) then None else Some (Returns (fMax, D ((nxt ^^ Suc (unat (fMax - k))) st))))"
  using assms(3)
proof (induction r arbitrary: k st)
  case (Suc r)
  show ?case
  proof (cases "k = fMax")
    case True
    then show ?thesis using assms(2) by (simp add: assms(1) count_iteration_def)
  next
    case False
    with Suc.prems have "k < fMax" by simp
    then have u: "unat (k + 1) = Suc (unat k)" using unsigned_less [of fMax, where ?'a = nat] by (simp add: unat_word_ariths word_less_nat_alt)
    with \<open>k < fMax\<close> have le: "k + 1 \<le> fMax" by (simp add: word_less_nat_alt word_le_nat_alt)
    have "unat (fMax - k) = Suc (unat (fMax - (k + 1)))"
      using unat_sub [OF le] unat_sub [OF Suc.prems] \<open>k < fMax\<close> u by (simp add: word_less_nat_alt)
    then show ?thesis using Suc.IH [of "k + 1" "nxt st"] le \<open>k < fMax\<close> [folded not_le]
      by (simp add: assms(1) count_iteration_def funpow_swap1)
  qed
qed simp

section \<open>Properties\<close>

text \<open>
  C28: The splitter takes turns: after \<open>InitTask\<close> with at least one output, handling a sequence of messages is
  sending each of them once and in order, the one with number \<open>j\<close> on the sub-channel \<open>j\<close> modulo the number of
  outputs, and the next direction is the number of messages modulo the number of outputs; likewise for
  multipart messages.
\<close>

theorem splitter_round_robin:
  assumes "Splitter_InitTask d = Returns sp" "0 < fNumOutputs sp"
  shows "fold_outcome (\<lambda>m st. map_outcome_result snd (Splitter_HandleSingleData E m st)) ms (sp, d) =
      map_outcome_result (Pair (sp\<lparr>fDirection := int (length ms) mod fNumOutputs sp\<rparr>))
        (fold_outcome (\<lambda>(j, m) d. map_outcome_result (\<lambda>r. snd (snd r)) (Send_on E m (sp_out sp) (j mod nat (fNumOutputs sp)) d)) (enumerate 0 ms) d) \<and>
    fold_outcome (\<lambda>ps st. map_outcome_result snd (Splitter_HandleMultipartData E ps st)) pss (sp, d) =
      map_outcome_result (Pair (sp\<lparr>fDirection := int (length pss) mod fNumOutputs sp\<rparr>))
        (fold_outcome (\<lambda>(j, ps) d. map_outcome_result (\<lambda>r. snd (snd r)) (Send_parts_on E ps (sp_out sp) (j mod nat (fNumOutputs sp)) d)) (enumerate 0 pss) d)"
proof -
  have 0: "fDirection sp = int 0 mod fNumOutputs sp"
    using assms(1) by (auto simp: Splitter_InitTask_def outcome_simps)
  show ?thesis
    using splitter_turns [OF 0 assms(2), of "Send_on E" ms d] splitter_turns [OF 0 assms(2), of "Send_parts_on E" pss d]
    by (simp add: Splitter_HandleSingleData_def Splitter_HandleMultipartData_def drop_handled)
qed

text \<open>A device with two outputs, its messages and what its sockets have counted.\<close>

definition forwarding_device :: "(nat, nat, nat) FairMQDevice" where
  "forwarding_device =
     (new_FairMQDevice 0 (sink_config\<lparr>fVarMap := map (\<lambda>(k, v). (k, \<lparr>v_value = v, v_defaulted = False\<rparr>))
        [(''multipart'', VInt 0), (''in-channel'', VString ''in''), (''out-channel'', VString ''out'')]\<rparr>))
     \<lparr>dv_factory := Some \<lparr>fTransportType_of = ZMQ, fkId = ''sink''\<rparr>,
      fChannels := [(''in'', [input_channel ZMQ]), (''out'', [input_channel ZMQ, input_channel ZMQ])]\<rparr>"

definition socket_counts :: "string \<Rightarrow> ('s, 'f, 'c) FairMQDevice \<Rightarrow> 's option list" where
  "socket_counts ch d = map fSocket (the (map_of (fChannels d) ch))"

lemma forwarding_fields [simp]:
  "dv_factory forwarding_device = Some \<lparr>fTransportType_of = ZMQ, fkId = ''sink''\<rparr>"
  "fChannels forwarding_device = [(''in'', [input_channel ZMQ]), (''out'', [input_channel ZMQ, input_channel ZMQ])]"
  by (simp_all add: forwarding_device_def)

definition outputs :: "nat \<Rightarrow> nat \<Rightarrow> (nat, nat, nat) FairMQDevice" where
  "outputs a b = forwarding_device\<lparr>fChannels :=
     [(''in'', [input_channel ZMQ]), (''out'', [(input_channel ZMQ)\<lparr>fSocket := Some a\<rparr>, (input_channel ZMQ)\<lparr>fSocket := Some b\<rparr>])]\<rparr>"

lemma outputs_start: "forwarding_device = outputs 0 0"
  by (simp add: outputs_def forwarding_device_def input_channel_def InitTransport_def FairMQChannel_configured_def)

lemma Send_outputs:
  "Send_on idle_host (Message ZMQ bs w) ''out'' 0 (outputs a b) = Returns (int (length bs), Message ZMQ bs w, outputs (Suc a) b)"
  "Send_on idle_host (Message ZMQ bs w) ''out'' (Suc 0) (outputs a b) = Returns (int (length bs), Message ZMQ bs w, outputs a (Suc b))"
  unfolding Send_on_def on_channel_def put_channel_def fst_conv snd_conv outputs_def
  by (simp_all add: GetChannel_def map_at_def vector_at_def input_channel_def InitTransport_def FairMQChannel_configured_def
      Send_def CheckSendCompatibility_def on_socket_def idle_host_def counting_socket_def GetSize_def)

theorem splitter_round_robin_witness:
  "\<exists>sp d'. Splitter_InitTask forwarding_device = Returns sp \<and>
     fold_outcome (\<lambda>m st. map_outcome_result snd (Splitter_HandleSingleData idle_host m st))
       [Message ZMQ [1] None, Message ZMQ [2] None, Message ZMQ [3] None] (sp, forwarding_device) =
       Returns (sp\<lparr>fDirection := 1\<rparr>, d') \<and> socket_counts ''out'' d' = [Some 2, Some 1]"
proof -
  let ?sp = "\<lparr>sp_multipart = False, fNumOutputs = 2, fDirection = 0, sp_in = ''in'', sp_out = ''out''\<rparr>"
  have i: "Splitter_InitTask forwarding_device = Returns ?sp"
    by (simp add: Splitter_InitTask_def get_int_value_def get_string_def GetValue_def lookup_var_def forwarding_device_def
        new_FairMQDevice_def as_int_def as_string_def map_at_def)
  let ?ms = "[Message ZMQ [1] None, Message ZMQ [2] None, Message ZMQ [3] None]"
  have "fold_outcome (\<lambda>(j, m) d. map_outcome_result (\<lambda>r. snd (snd r)) (Send_on idle_host m ''out'' (j mod 2) d)) (enumerate 0 ?ms)
      forwarding_device = Returns (outputs 2 1)"
    unfolding outputs_start by (simp add: Send_outputs map_outcome_result_def numeral_2_eq_2)
  moreover have "socket_counts ''out'' (outputs 2 1) = [Some 2, Some 1]" by (simp add: socket_counts_def outputs_def)
  ultimately show ?thesis using splitter_round_robin [OF i, of idle_host ?ms "[]"] i by (auto simp: map_outcome_result_def)
qed

text \<open>
  C25: The multiplier hands every sub-channel of every output channel a message with the bytes of the payload, each
  once and in the order of the configuration: copies to all but the last one, and to that the payload
  itself; likewise for multipart messages. This needs payloads of the device's own transport: with a
  payload of another transport and more than one sub-channel, the copy is undefined behaviour.
\<close>

theorem multiplier_reaches_all:
  assumes "outs \<noteq> []" "set outs \<subseteq> fst ` set (fChannels d)" "length outs < 2 ^ 64"
    and "map_of (fChannels d) (last outs) = Some cs" "cs \<noteq> []" "length cs < 2 ^ 32" "dv_factory d = Some f"
  shows "(fTransportType_of f = mType payload \<longrightarrow>
      Multiplier_HandleSingleData E outs payload d = map_outcome_result (Pair True)
        (fold_outcome (\<lambda>((ch, j), m) d. map_outcome_result (\<lambda>r. snd (snd r)) (Send_on E m ch j d))
           (zip (targets d outs) (replicate (length (targets d outs) - 1) (message_copy payload) @ [payload])) d)) \<and>
    ((\<forall>part \<in> set parts. fTransportType_of f = mType part) \<longrightarrow>
      Multiplier_HandleMultipartData E outs parts d = map_outcome_result (Pair True)
        (fold_outcome (\<lambda>((ch, j), ms) d. map_outcome_result (\<lambda>r. snd (snd r)) (Send_parts_on E ms ch j d))
           (zip (targets d outs) (replicate (length (targets d outs) - 1) (map message_copy parts) @ [parts])) d)) \<and>
    (fTransportType_of f \<noteq> mType payload \<and> 1 < length (targets d outs) \<longrightarrow> Multiplier_HandleSingleData E outs payload d = Undefined)"
proof (intro conjI impI)
  have f: "dv_factory d' = Some f" if "same_shape d d'" for d' using that assms(7) by (simp add: same_shape_def)
  show "Multiplier_HandleSingleData E outs payload d = map_outcome_result (Pair True)
        (fold_outcome (\<lambda>((ch, j), m) d. map_outcome_result (\<lambda>r. snd (snd r)) (Send_on E m ch j d))
           (zip (targets d outs) (replicate (length (targets d outs) - 1) (message_copy payload) @ [payload])) d)"
    if "fTransportType_of f = mType payload"
    unfolding Multiplier_HandleSingleData_def
    by (rule multiplied [OF _ _ assms(1-6)]) (use that f copy_to_shape(1) copy_to_own in blast)+
  show "Multiplier_HandleMultipartData E outs parts d = map_outcome_result (Pair True)
        (fold_outcome (\<lambda>((ch, j), ms) d. map_outcome_result (\<lambda>r. snd (snd r)) (Send_parts_on E ms ch j d))
           (zip (targets d outs) (replicate (length (targets d outs) - 1) (map message_copy parts) @ [parts])) d)"
    if "\<forall>part \<in> set parts. fTransportType_of f = mType part"
    unfolding Multiplier_HandleMultipartData_def
    by (rule multiplied [OF _ _ assms(1-6)]) (use that f copy_to_shape(2) copy_parts_to_own in blast)+
  show "Multiplier_HandleSingleData E outs payload d = Undefined"
    if "fTransportType_of f \<noteq> mType payload \<and> 1 < length (targets d outs)"
  proof -
    have r: "for_all_but_last (copy_to E payload) outs d = map_outcome_result (Pair (length cs - 1))
        (fold_outcome (\<lambda>(ch, j). copy_to E payload ch j) (butlast (targets d outs)) d) \<and>
      targets d outs \<noteq> [] \<and> last (targets d outs) = (last outs, length cs - 1)"
      by (rule all_but_last_reached [OF _ assms(1-6)]) (rule copy_to_shape(1))
    from that have "butlast (targets d outs) \<noteq> []" by (cases "targets d outs" rule: rev_cases) auto
    then obtain t ts where "butlast (targets d outs) = t # ts" by (meson neq_Nil_conv)
    with r that assms(7) show ?thesis
      by (cases t) (auto simp: Multiplier_HandleSingleData_def copy_to_def NewMessage_dv_def CreateMessage_empty_def Copy_message_def map_outcome_result_def)
  qed
qed

theorem multiplier_reaches_all_witness:
  "\<exists>d'. Multiplier_HandleSingleData idle_host [''out''] (Message ZMQ [7] None) forwarding_device = Returns (True, d') \<and>
     socket_counts ''out'' d' = [Some 1, Some 1]"
proof -
  let ?m = "Message ZMQ [7] None"
  have "fold_outcome (\<lambda>((ch, j), m) d. map_outcome_result (\<lambda>r. snd (snd r)) (Send_on idle_host m ch j d))
      (zip (targets forwarding_device [''out'']) (replicate (length (targets forwarding_device [''out'']) - 1) (message_copy ?m) @ [?m])) forwarding_device =
      Returns (outputs 1 1)"
    unfolding outputs_start by (simp add: outputs_def [of 0 0] message_copy_def) (simp add: Send_outputs map_outcome_result_def flip: outputs_def)
  moreover have "socket_counts ''out'' (outputs 1 1) = [Some 1, Some 1]" by (simp add: socket_counts_def outputs_def)
  ultimately show ?thesis
    using multiplier_reaches_all [of "[''out'']" forwarding_device "[input_channel ZMQ, input_channel ZMQ]"
        "\<lparr>fTransportType_of = ZMQ, fkId = ''sink''\<rparr>" ?m idle_host "[]"]
    by (auto simp: map_outcome_result_def)
qed

text \<open>
  A sink with a maximal number of iterations takes one message more than that from its socket: in a
  device that stays running and always receives, it does not return before it has received one message
  more than were left to count, and then returns with the count at the maximum, although the log
  announces and reports the maximum as the number received.
\<close>

theorem sink_receives_one_more:
  assumes "GetChannel inChannel 0 d = Returns c" "distinct (map fst (fChannels d))" "fSocket c = Some s"
    and "fTransportFactory c = Some f" "fTransportType_of f = fTransportType c"
    and "\<forall>s. 0 \<le> fst (vReceive (env_socket E) (CreateMessage_empty f) 0 s)" "0 < fMax" "k \<le> fMax"
  shows "Sink_Run E inChannel fMax (replicate r (True, ())) (k, d) =
    (if r \<le> unat (fMax - k) then None
     else Some (Returns (fMax, put_channel (inChannel, 0)
       (c\<lparr>fSocket := Some (((\<lambda>s. snd (snd (vReceive (env_socket E) (CreateMessage_empty f) 0 s))) ^^ (unat (fMax - k) + 1)) s)\<rparr>) d)))"
proof -
  let ?nxt = "\<lambda>s. snd (snd (vReceive (env_socket E) (CreateMessage_empty f) 0 s))"
  let ?D = "\<lambda>s. put_channel (inChannel, 0) (c\<lparr>fSocket := Some s\<rparr>) d"
  have g: "GetChannel inChannel 0 (?D s) = Returns (c\<lparr>fSocket := Some s\<rparr>)" for s using GetChannel_put [OF assms(1)] by simp
  have "sink_turn E inChannel fMax (k, ?D s) =
      (let (proceed, k') = count_iteration fMax k in Returns (proceed, k', ?D (?nxt s)))" for k s
    using assms(4-6)
    by (simp add: sink_turn_def g NewMessage_def Receive_on_def on_channel_def Receive_def CheckReceiveCompatibility_def
        CreateMessage_empty_def on_socket_def put_put case_prod_unfold Let_def)
  note counted_loop [of "sink_turn E inChannel fMax" ?D fMax ?nxt k r "()" s, OF this assms(7,8), unfolded Suc_eq_plus1]
  then have "input_loop (\<lambda>_. sink_turn E inChannel fMax) (replicate r (True, ())) (k, ?D s) =
      (if r \<le> unat (fMax - k) then None else Some (Returns (fMax, ?D ((?nxt ^^ (unat (fMax - k) + 1)) s))))" .
  moreover have "?D s = d" using put_same [OF assms(1,2)] assms(3) by (cases c) simp
  ultimately show ?thesis using assms(1) by (simp add: Sink_Run_def)
qed

theorem sink_receives_one_more_witness:
  "Sink_Run idle_host ''in'' 2 (replicate 2 (True, ())) (0, forwarding_device) = None \<and>
   (\<exists>d'. Sink_Run idle_host ''in'' 2 (replicate 3 (True, ())) (0, forwarding_device) = Some (Returns (2, d')) \<and>
      socket_counts ''in'' d' = [Some 3])"
proof -
  let ?f = "\<lparr>fTransportType_of = ZMQ, fkId = ''sink''\<rparr>" and ?c = "input_channel ZMQ"
  have c: "GetChannel ''in'' 0 forwarding_device = Returns ?c" "distinct (map fst (fChannels forwarding_device))" "fSocket ?c = Some 0"
    "fTransportFactory ?c = Some ?f" "fTransportType_of ?f = fTransportType ?c"
    by (simp_all add: GetChannel_def map_at_def vector_at_def input_channel_def InitTransport_def FairMQChannel_configured_def)
  have r: "vReceive (env_socket idle_host) m 0 s = (int (GetSize m), m, Suc s)" for m s
    by (simp add: idle_host_def counting_socket_def)
  have u: "unat (2 - 0 :: uint64) = 2" "(Suc ^^ (2 + 1)) 0 = 3" by (simp, simp add: numeral_eq_Suc)
  have "\<forall>s. 0 \<le> fst (vReceive (env_socket idle_host) (CreateMessage_empty ?f) 0 s)" by (simp add: r)
  note run = sink_receives_one_more [OF c this, of 2 0, unfolded r snd_conv u]
  have "fChannels (put_channel (''in'', 0) (?c\<lparr>fSocket := Some 3\<rparr>) forwarding_device) =
      [(''in'', [?c\<lparr>fSocket := Some 3\<rparr>]), (''out'', [?c, ?c])]" by (simp add: put_channel_def)
  then show ?thesis using run [of 2] run [of 3] by (simp add: socket_counts_def)
qed

end
