(* ===== verification/Shmem_Messages.thy ===== *)
theory Shmem_Messages
  imports Messages
begin

text \<open>
  Messages of the shared-memory transport, \<open>fairmq/shmem/FairMQMessageSHM.{h,cxx}\<close>, and the regions of
  \<open>fairmq/shmem/Manager.cxx\<close>. A message owns a chunk of the shared segment; what travels between the
  processes is a header with the chunk's handle, in a message of ZeroMQ. The allocator of
  boost::interprocess is an argument: a list of what the attempts to allocate give, each with whether
  the transport is interrupted at that moment. A loop that has not ended when its list is used up is
  \<open>None\<close>. Handles are the offsets of chunks in the segment. Failures of \<open>zmq_msg_init\<close> for want of
  memory are not modelled.
\<close>

section \<open>Chunks, headers, messages\<close>

record MetaHeader =
  hdr_size :: nat
  hdr_region :: nat
  hdr_handle :: int
  hdr_hint :: nat

text \<open>
  A \<open>zmq_msg_t\<close> that holds at most one header: its size, and the header that its data starts with. The
  size can be zero although a header was written to the place.
\<close>

record zmq_message =
  zm_size :: nat
  zm_header :: "MetaHeader option"

definition sizeof_MetaHeader :: nat where
  "sizeof_MetaHeader = 32"

definition zmq_msg_init :: zmq_message where
  "zmq_msg_init = \<lparr>zm_size = 0, zm_header = None\<rparr>"

text \<open>Addresses in the managed segment, by handle, and in regions, by region and offset.\<close>

datatype pointer = Chunk int | In_region nat int

record FairMQMessageSHM =
  fMessage :: zmq_message
  fQueued :: bool
  fMetaCreated :: bool
  fRegionId :: nat
  fRegionPtr :: "nat option"
  fHandle :: int
  fSize :: nat
  fHint :: nat
  fLocalPtr :: "pointer option"

text \<open>
  The regions that a process has open; \<open>region_place\<close> stands for the address of the object, which is never
  used for another object, so that a pointer to one that is gone is told apart. The queues of
  blocks that were reported back belong to the regions, by number.
\<close>

record Region =
  fRemote :: bool
  region_size :: nat
  region_place :: nat

record RegionBlock =
  blk_handle :: int
  blk_size :: nat
  blk_hint :: nat

record shm =
  chunks :: "(int \<times> byte list) list"
  fRegions :: "(nat \<times> Region) list"
  acks :: "(nat \<times> RegionBlock) list"
  places_used :: nat

definition write_chunk :: "int \<Rightarrow> byte list \<Rightarrow> shm \<Rightarrow> shm outcome" where
  "write_chunk h bs s =
     (case map_of (chunks s) h of
        None \<Rightarrow> Undefined
      | Some old \<Rightarrow>
          if length bs > length old then Undefined
          else Returns (s\<lparr>chunks := map (\<lambda>(h', cs). (h', if h' = h then bs @ drop (length bs) cs else cs)) (chunks s)\<rparr>))"

definition deallocate :: "int \<Rightarrow> shm \<Rightarrow> shm outcome" where
  "deallocate h s =
     (if h \<in> fst ` set (chunks s) then Returns (s\<lparr>chunks := filter (\<lambda>(h', _). h' \<noteq> h) (chunks s)\<rparr>) else Undefined)"

section \<open>Regions\<close>

definition Resume :: "shm \<Rightarrow> shm" where
  "Resume s = s\<lparr>fRegions := filter (\<lambda>(_, r). \<not> fRemote r) (fRegions s)\<rparr>"

definition emplace_region :: "nat \<Rightarrow> bool \<Rightarrow> nat \<Rightarrow> shm \<Rightarrow> shm" where
  "emplace_region ident remote sz s =
     s\<lparr>fRegions := map_insert ident \<lparr>fRemote = remote, region_size = sz, region_place = places_used s\<rparr> (fRegions s),
       places_used := Suc (places_used s)\<rparr>"

definition CreateRegion :: "nat \<Rightarrow> nat \<Rightarrow> shm \<Rightarrow> nat option \<times> shm" where
  "CreateRegion sz ident s =
     (if ident \<in> fst ` set (fRegions s) then (None, s)
      else (Some (places_used s), emplace_region ident False sz s))"

text \<open>\<open>exists_with\<close>: the size of the region object of another process, if there is one.\<close>

definition GetRemoteRegion :: "(nat \<Rightarrow> nat option) \<Rightarrow> nat \<Rightarrow> shm \<Rightarrow> nat option \<times> shm" where
  "GetRemoteRegion exists_with ident s =
     (case map_of (fRegions s) ident of
        Some r \<Rightarrow> (Some (region_place r), s)
      | None \<Rightarrow>
          (case exists_with ident of
             None \<Rightarrow> (None, s)
           | Some n \<Rightarrow> (Some (places_used s), emplace_region ident True n s)))"

definition RemoveRegion :: "nat \<Rightarrow> shm \<Rightarrow> shm" where
  "RemoveRegion ident s = s\<lparr>fRegions := filter (\<lambda>(i, _). i \<noteq> ident) (fRegions s)\<rparr>"

section \<open>Constructing messages\<close>

definition FairMQMessageSHM_empty :: FairMQMessageSHM where
  "FairMQMessageSHM_empty =
     \<lparr>fMessage = zmq_msg_init, fQueued = False, fMetaCreated = True, fRegionId = 0, fRegionPtr = None, fHandle = -1, fSize = 0, fHint = 0, fLocalPtr = None\<rparr>"

definition write_header :: "nat \<Rightarrow> FairMQMessageSHM \<Rightarrow> FairMQMessageSHM" where
  "write_header sz m =
     m\<lparr>fMessage := \<lparr>zm_size = sizeof_MetaHeader,
          zm_header = Some \<lparr>hdr_size = sz, hdr_region = fRegionId m, hdr_handle = fHandle m, hdr_hint = fHint m\<rparr>\<rparr>,
       fMetaCreated := True\<rparr>"

fun allocate_loop ::
    "(int option \<times> bool) list \<Rightarrow> nat \<Rightarrow> FairMQMessageSHM \<times> shm \<Rightarrow> (bool \<times> FairMQMessageSHM \<times> shm) option" where
  "allocate_loop attempts sz (m, s) =
     (if fHandle m \<ge> 0 then Some (True, m, s)
      else case attempts of
             [] \<Rightarrow> None
           | (Some h, _) # attempts' \<Rightarrow>
               allocate_loop attempts' sz (m\<lparr>fLocalPtr := Some (Chunk h), fHandle := h\<rparr>, s\<lparr>chunks := chunks s @ [(h, replicate sz 0)]\<rparr>)
           | (None, interrupted) # attempts' \<Rightarrow>
               if interrupted then Some (False, m, s) else allocate_loop attempts' sz (m, s))"

definition InitializeChunk ::
    "(int option \<times> bool) list \<Rightarrow> nat \<Rightarrow> FairMQMessageSHM \<times> shm \<Rightarrow> (bool \<times> FairMQMessageSHM \<times> shm) option" where
  "InitializeChunk attempts sz ms =
     map_option (\<lambda>(ok, m, s). if ok then (True, write_header sz (m\<lparr>fSize := sz\<rparr>), s) else (False, m, s))
       (allocate_loop attempts sz ms)"

definition FairMQMessageSHM_size ::
    "(int option \<times> bool) list \<Rightarrow> nat \<Rightarrow> shm \<Rightarrow> (FairMQMessageSHM \<times> shm) option" where
  "FairMQMessageSHM_size attempts sz s =
     map_option snd (InitializeChunk attempts sz (FairMQMessageSHM_empty\<lparr>fMetaCreated := False\<rparr>, s))"

text \<open>The copy into a chunk, \<open>memcpy(fLocalPtr, data, size)\<close>.\<close>

definition copy_in :: "byte list \<Rightarrow> FairMQMessageSHM \<times> shm \<Rightarrow> (FairMQMessageSHM \<times> shm) outcome" where
  "copy_in bs ms =
     (case fLocalPtr (fst ms) of
        Some (Chunk h) \<Rightarrow> map_outcome_result (Pair (fst ms)) (write_chunk h bs (snd ms))
      | _ \<Rightarrow> Undefined)"

definition FairMQMessageSHM_data ::
    "(int option \<times> bool) list \<Rightarrow> byte list \<Rightarrow> shm \<Rightarrow> (FairMQMessageSHM \<times> shm) outcome option" where
  "FairMQMessageSHM_data attempts bs s =
     map_option (\<lambda>(ok, ms). if ok then copy_in bs ms else Returns ms)
       (InitializeChunk attempts (length bs) (FairMQMessageSHM_empty\<lparr>fMetaCreated := False\<rparr>, s))"

text \<open>A message in a region, for data at \<open>offset\<close> from the region's start.\<close>

definition FairMQMessageSHM_region :: "nat \<Rightarrow> nat \<Rightarrow> int \<Rightarrow> nat \<Rightarrow> nat \<Rightarrow> FairMQMessageSHM outcome" where
  "FairMQMessageSHM_region ident region_len offset sz hint =
     (if offset \<ge> 0 \<or> offset \<le> int region_len
      then Returns (write_header sz
             \<lparr>fMessage = zmq_msg_init, fQueued = False, fMetaCreated = False, fRegionId = ident, fRegionPtr = None, fHandle = offset, fSize = sz,
              fHint = hint, fLocalPtr = Some (In_region ident offset)\<rparr>)
      else Throws RuntimeError)"

section \<open>Closing and rebuilding messages\<close>

text \<open>Reporting a block back to its region; each attempt has whether the queue took it and whether the transport is interrupted.\<close>

fun ack_loop :: "(bool \<times> bool) list \<Rightarrow> bool option" where
  "ack_loop [] = None"
| "ack_loop ((sent, interrupted) # attempts) =
     (if sent then Some True else if interrupted then Some False else ack_loop attempts)"

text \<open>The pointer to the region, once found, is kept; the region it points to can be gone.\<close>

definition close_region_block ::
    "(nat \<Rightarrow> nat option) \<Rightarrow> (bool \<times> bool) list \<Rightarrow> FairMQMessageSHM \<Rightarrow> shm \<Rightarrow> (FairMQMessageSHM \<times> shm) outcome option" where
  "close_region_block exists_with attempts m s =
     (let (place, s) = (case fRegionPtr m of Some p \<Rightarrow> (Some p, s) | None \<Rightarrow> GetRemoteRegion exists_with (fRegionId m) s);
          m = m\<lparr>fRegionPtr := place\<rparr>
      in case place of
           None \<Rightarrow> Some (Returns (m, s))
         | Some p \<Rightarrow>
             if p \<notin> region_place ` snd ` set (fRegions s) then Some Undefined
             else map_option
               (\<lambda>sent. Returns (m,
                  if sent then s\<lparr>acks := acks s @ [(fRegionId m, \<lparr>blk_handle = fHandle m, blk_size = fSize m, blk_hint = fHint m\<rparr>)]\<rparr> else s))
               (ack_loop attempts))"

definition CloseMessage ::
    "(nat \<Rightarrow> nat option) \<Rightarrow> (bool \<times> bool) list \<Rightarrow> FairMQMessageSHM \<Rightarrow> shm \<Rightarrow> (FairMQMessageSHM \<times> shm) outcome option" where
  "CloseMessage exists_with attempts m s =
     (let close = (\<lambda>(m, s). Returns (if fMetaCreated m then m\<lparr>fMessage := zmq_msg_init\<rparr> else m, s))
      in if fHandle m \<ge> 0 \<and> \<not> fQueued m
         then if fRegionId m = 0
              then Some (and_then (deallocate (fHandle m) s) (\<lambda>s. close (m\<lparr>fHandle := 0\<rparr>, s)))
              else map_option (\<lambda>r. and_then r close) (close_region_block exists_with attempts m s)
         else Some (close (m, s)))"

text \<open>
  The thread of a region that takes blocks from its queue and calls the user's callback with them, until it
  is told to stop; in each turn, whether it is and what the queue gives in time.
\<close>

fun ReceiveAcks :: "(int \<Rightarrow> nat \<Rightarrow> nat \<Rightarrow> 'u \<Rightarrow> 'u) option \<Rightarrow> (bool \<times> RegionBlock option) list \<Rightarrow> 'u \<Rightarrow> 'u option" where
  "ReceiveAcks callback [] u = None"
| "ReceiveAcks callback ((fStop, got) # turns) u =
     (if fStop then Some u
      else case (got, callback) of
             (Some block, Some f) \<Rightarrow> ReceiveAcks callback turns (f (blk_handle block) (blk_size block) (blk_hint block) u)
           | _ \<Rightarrow> ReceiveAcks callback turns u)"

definition after_close ::
    "(FairMQMessageSHM \<times> shm \<Rightarrow> 'r outcome option) \<Rightarrow> (FairMQMessageSHM \<times> shm) outcome option \<Rightarrow> 'r outcome option" where
  "after_close f r =
     (case r of
        None \<Rightarrow> None
      | Some (Returns (m, s)) \<Rightarrow> f (m\<lparr>fQueued := False\<rparr>, s)
      | Some (Throws e) \<Rightarrow> Some (Throws e)
      | Some Exits \<Rightarrow> Some Exits
      | Some Undefined \<Rightarrow> Some Undefined)"

definition Rebuild ::
    "(nat \<Rightarrow> nat option) \<Rightarrow> (bool \<times> bool) list \<Rightarrow> FairMQMessageSHM \<Rightarrow> shm \<Rightarrow> (FairMQMessageSHM \<times> shm) outcome option" where
  "Rebuild exists_with acking m s =
     after_close (\<lambda>(m, s). Some (Returns (m\<lparr>fMessage := zmq_msg_init, fMetaCreated := True\<rparr>, s))) (CloseMessage exists_with acking m s)"

definition Rebuild_size ::
    "(nat \<Rightarrow> nat option) \<Rightarrow> (bool \<times> bool) list \<Rightarrow> (int option \<times> bool) list \<Rightarrow> nat \<Rightarrow>
     FairMQMessageSHM \<Rightarrow> shm \<Rightarrow> (FairMQMessageSHM \<times> shm) outcome option" where
  "Rebuild_size exists_with acking attempts sz m s =
     after_close (\<lambda>ms. map_option (\<lambda>(_, ms). Returns ms) (InitializeChunk attempts sz ms)) (CloseMessage exists_with acking m s)"

definition Rebuild_data ::
    "(nat \<Rightarrow> nat option) \<Rightarrow> (bool \<times> bool) list \<Rightarrow> (int option \<times> bool) list \<Rightarrow> byte list \<Rightarrow>
     FairMQMessageSHM \<Rightarrow> shm \<Rightarrow> (FairMQMessageSHM \<times> shm) outcome option" where
  "Rebuild_data exists_with acking attempts bs m s =
     after_close (\<lambda>ms. map_option (\<lambda>(ok, ms). if ok then copy_in bs ms else Returns ms) (InitializeChunk attempts (length bs) ms))
       (CloseMessage exists_with acking m s)"

section \<open>Reading, shrinking and copying messages\<close>

text \<open>\<open>GetData\<close> keeps the address it finds in a region.\<close>

definition GetData ::
    "(nat \<Rightarrow> nat option) \<Rightarrow> FairMQMessageSHM \<Rightarrow> shm \<Rightarrow> pointer option \<times> FairMQMessageSHM \<times> shm" where
  "GetData exists_with m s =
     (case fLocalPtr m of
        Some p \<Rightarrow> (Some p, m, s)
      | None \<Rightarrow>
          if fRegionId m = 0 then (Some (Chunk (fHandle m)), m, s)
          else let (place, s) = GetRemoteRegion exists_with (fRegionId m) s;
                   p = (case place of Some _ \<Rightarrow> Some (In_region (fRegionId m) (fHandle m)) | None \<Rightarrow> None)
               in (p, m\<lparr>fRegionPtr := place, fLocalPtr := p\<rparr>, s))"

text \<open>The bytes of a message in the managed segment.\<close>

definition chunk_bytes :: "FairMQMessageSHM \<Rightarrow> shm \<Rightarrow> byte list outcome" where
  "chunk_bytes m s =
     (case GetData (\<lambda>_. None) m s of
        (Some (Chunk h), _) \<Rightarrow>
          (case map_of (chunks s) h of
             Some bs \<Rightarrow> if fSize m \<le> length bs then Returns (take (fSize m) bs) else Undefined
           | None \<Rightarrow> if fSize m = 0 then Returns [] else Undefined)
      | _ \<Rightarrow> Undefined)"

text \<open>\<open>shrinks\<close>: whether shrinking in place succeeds.\<close>

definition SetUsedSize :: "bool \<Rightarrow> nat \<Rightarrow> FairMQMessageSHM \<Rightarrow> shm \<Rightarrow> (bool \<times> FairMQMessageSHM \<times> shm) outcome" where
  "SetUsedSize shrinks sz m s =
     (if sz = fSize m then Returns (True, m, s)
      else if sz \<le> fSize m
      then (case fLocalPtr m of
              Some (Chunk h) \<Rightarrow>
                if h \<notin> fst ` set (chunks s) then Undefined
                else if \<not> shrinks then Returns (False, m, s)
                else (case zm_header (fMessage m) of
                        None \<Rightarrow> Undefined
                      | Some hdr \<Rightarrow>
                          Returns (True, m\<lparr>fSize := sz, fMessage := (fMessage m)\<lparr>zm_header := Some (hdr\<lparr>hdr_size := sz\<rparr>)\<rparr>\<rparr>,
                                   s\<lparr>chunks := map (\<lambda>(h', bs). (h', if h' = h then take sz bs else bs)) (chunks s)\<rparr>))
            | _ \<Rightarrow> Undefined)
      else Returns (False, m, s))"

definition Copy ::
    "(int option \<times> bool) list \<Rightarrow> FairMQMessageSHM \<Rightarrow> FairMQMessageSHM \<Rightarrow> shm \<Rightarrow> (FairMQMessageSHM \<times> shm) outcome option" where
  "Copy attempts other m s =
     (if fHandle m < 0
      then if fHandle other \<noteq> 0
           then map_option (\<lambda>(ok, m, s). if ok then and_then (chunk_bytes other s) (\<lambda>bs. copy_in bs (m, s)) else Returns (m, s))
                  (InitializeChunk attempts (fSize other) (m, s))
           else Some (Returns (m, s))
      else Some (Returns (m, s)))"

section \<open>Blocks of regions\<close>

text \<open>The addresses of the open regions, in the order in which they were used.\<close>

definition places_ok :: "shm \<Rightarrow> bool" where
  "places_ok s \<longleftrightarrow> (\<forall>r \<in> snd ` set (fRegions s). region_place r < places_used s)"

lemma places_ok_emplace: "places_ok s \<Longrightarrow> places_ok (emplace_region ident remote n s)"
  by (auto simp: places_ok_def emplace_region_def map_insert_def)

lemma places_ok_CreateRegion: "places_ok s \<Longrightarrow> places_ok (snd (CreateRegion sz ident s))"
  by (simp add: CreateRegion_def places_ok_emplace)

lemma places_ok_GetRemoteRegion: "places_ok s \<Longrightarrow> places_ok (snd (GetRemoteRegion exists_with ident s))"
  by (auto simp: GetRemoteRegion_def places_ok_emplace split: option.split)

lemma places_ok_Resume: "places_ok s \<Longrightarrow> places_ok (Resume s)"
  by (auto simp: places_ok_def Resume_def)

lemma GetData_opens:
  assumes "fRegionId m \<noteq> 0" "fLocalPtr m = None" "map_of (fRegions s) (fRegionId m) = None" "exists_with (fRegionId m) = Some n"
  shows "GetData exists_with m s =
    (Some (In_region (fRegionId m) (fHandle m)),
     m\<lparr>fRegionPtr := Some (places_used s), fLocalPtr := Some (In_region (fRegionId m) (fHandle m))\<rparr>,
     emplace_region (fRegionId m) True n s)"
  using assms by (simp add: GetData_def GetRemoteRegion_def Let_def)

lemma emplaced_region:
  "map_of (fRegions s) ident = None \<Longrightarrow>
   fRegions (emplace_region ident remote n s) = fRegions s @ [(ident, \<lparr>fRemote = remote, region_size = n, region_place = places_used s\<rparr>)]"
  by (auto simp: emplace_region_def map_insert_def map_of_eq_None_iff)


definition region_message :: FairMQMessageSHM where
  "region_message = FairMQMessageSHM_empty\<lparr>fRegionId := 1, fHandle := 64, fSize := 8\<rparr>"


end
