(* ===== verification/Socket_State.thy ===== *)
theory Socket_State
  imports Messages
begin

text \<open>
  What the sockets of the ZeroMQ, the shared-memory and the nanomsg transport share: their counters and timeouts, how a
  call of the ZeroMQ library can fail, and what the transfer loops do when it would block. The library is
  not part of the sources: each loop takes the list of what its calls give, with the state of
  \<open>fInterrupted\<close> when it is looked at; a loop that has not ended when the list is used up is \<open>None\<close>.
\<close>

record socket_state =
  fBytesTx :: uint64
  fBytesRx :: uint64
  fMessagesTx :: uint64
  fMessagesRx :: uint64
  fSndTimeout :: int
  fRcvTimeout :: int

definition new_socket_state :: socket_state where
  "new_socket_state = \<lparr>fBytesTx = 0, fBytesRx = 0, fMessagesTx = 0, fMessagesRx = 0, fSndTimeout = 100, fRcvTimeout = 100\<rparr>"

definition count_tx :: "nat \<Rightarrow> socket_state \<Rightarrow> socket_state" where
  "count_tx n so = so\<lparr>fBytesTx := fBytesTx so + of_nat n, fMessagesTx := fMessagesTx so + 1\<rparr>"

definition count_rx :: "nat \<Rightarrow> socket_state \<Rightarrow> socket_state" where
  "count_rx n so = so\<lparr>fBytesRx := fBytesRx so + of_nat n, fMessagesRx := fMessagesRx so + 1\<rparr>"

datatype zmq_error = EAGAIN | ETERM | EOTHER

text \<open>
  The branch for \<open>EAGAIN\<close>: go on with the time elapsed, or give up. \<open>step\<close> is the timeout of one call.
\<close>

definition on_again :: "bool \<Rightarrow> int \<Rightarrow> int \<Rightarrow> bool \<Rightarrow> int \<Rightarrow> int option" where
  "on_again dontwait timeout step interrupted elapsed =
     (if \<not> interrupted \<and> \<not> dontwait
      then if timeout \<noteq> 0
           then if elapsed + step \<ge> timeout then None else Some (elapsed + step)
           else Some elapsed
      else None)"

text \<open>The conversion of a size to the \<open>int\<close> that the calls return.\<close>

definition to_int32 :: "nat \<Rightarrow> int" where
  "to_int32 n = sint (of_nat n :: 32 word)"

lemma to_int32_small: "n < 2 ^ 31 \<Longrightarrow> to_int32 n = int n"
proof -
  assume "n < 2 ^ 31"
  then have "signed_take_bit 31 (int n) = int n" by (intro signed_take_bit_int_eq_self) auto
  then show ?thesis by (simp add: to_int32_def signed_of_nat)
qed

lemma to_int32_large: "2 ^ 31 \<le> n \<Longrightarrow> n < 2 ^ 32 \<Longrightarrow> to_int32 n = int n - 2 ^ 32"
proof -
  assume n: "2 ^ 31 \<le> n" "n < 2 ^ 32"
  have "signed_take_bit 31 (int n) = signed_take_bit 31 (int n - 2 ^ 32)"
    by (simp add: signed_take_bit_eq_iff_take_bit_eq take_bit_eq_mod)
  also have "\<dots> = int n - 2 ^ 32" using n by (intro signed_take_bit_int_eq_self) auto
  finally show ?thesis by (simp add: to_int32_def signed_of_nat)
qed

text \<open>How often a transfer with a timeout can be put off: \<open>attempts_left\<close> bounds the calls it still makes.\<close>

definition attempts_left :: "int \<Rightarrow> int \<Rightarrow> int \<Rightarrow> nat" where
  "attempts_left timeout step elapsed = Suc (nat ((timeout - elapsed) div step))"

lemma on_again_attempts:
  assumes "on_again dontwait timeout step interrupted elapsed = Some elapsed'" "0 < timeout" "0 < step"
  shows "attempts_left timeout step elapsed' < attempts_left timeout step elapsed"
proof -
  have e: "elapsed' = elapsed + step" "elapsed + step < timeout"
    using assms by (auto simp: on_again_def split: if_splits)
  have "(timeout - elapsed) div step = (timeout - elapsed' + 1 * step) div step" using e(1) by simp
  also have "\<dots> = (timeout - elapsed') div step + 1" using assms(3) by (subst div_mult_self1) auto
  finally have "(timeout - elapsed) div step = (timeout - elapsed') div step + 1" .
  moreover have "0 \<le> (timeout - elapsed') div step" using e assms(3) by (simp add: pos_imp_zdiv_nonneg_iff)
  ultimately show ?thesis by (simp add: attempts_left_def)
qed

section \<open>Changing the timeouts\<close>

text \<open>
  The timeout of one call can only be changed while the socket is detached from its address. \<open>ok\<close> tells which
  calls of the library succeed; the result has the calls that were made.
\<close>

datatype zmq_call =
    zmq_unbind string
  | zmq_bind string
  | zmq_disconnect string
  | zmq_connect string
  | zmq_setsockopt int

fun calls_in_order :: "(zmq_call \<Rightarrow> bool) \<Rightarrow> zmq_call list \<Rightarrow> bool \<times> zmq_call list" where
  "calls_in_order ok [] = (True, [])"
| "calls_in_order ok (c # cs) = (if ok c then map_prod id (Cons c) (calls_in_order ok cs) else (False, [c]))"

definition reattach :: "(zmq_call \<Rightarrow> bool) \<Rightarrow> int \<Rightarrow> string \<Rightarrow> string \<Rightarrow> bool \<times> zmq_call list" where
  "reattach ok timeout address method =
     (if method = ''bind'' then calls_in_order ok [zmq_unbind address, zmq_setsockopt timeout, zmq_bind address]
      else if method = ''connect'' then calls_in_order ok [zmq_disconnect address, zmq_setsockopt timeout, zmq_connect address]
      else (False, []))"

definition SetSendTimeout ::
    "(zmq_call \<Rightarrow> bool) \<Rightarrow> int \<Rightarrow> string \<Rightarrow> string \<Rightarrow> socket_state \<Rightarrow> bool \<times> zmq_call list \<times> socket_state" where
  "SetSendTimeout ok timeout address method so =
     (let (b, cs) = reattach ok timeout address method in (b, cs, so\<lparr>fSndTimeout := timeout\<rparr>))"

definition SetReceiveTimeout ::
    "(zmq_call \<Rightarrow> bool) \<Rightarrow> int \<Rightarrow> string \<Rightarrow> string \<Rightarrow> socket_state \<Rightarrow> bool \<times> zmq_call list \<times> socket_state" where
  "SetReceiveTimeout ok timeout address method so =
     (let (b, cs) = reattach ok timeout address method in (b, cs, so\<lparr>fRcvTimeout := timeout\<rparr>))"

text \<open>
  A failure can leave the socket detached, and the loops then count with a timeout that the library was not told.
\<close>

lemma SetSendTimeout_failed:
  assumes "ok (zmq_unbind address)" "\<not> ok (zmq_setsockopt timeout)"
  shows "SetSendTimeout ok timeout address ''bind'' so = (False, [zmq_unbind address, zmq_setsockopt timeout], so\<lparr>fSndTimeout := timeout\<rparr>)"
  using assms by (simp add: SetSendTimeout_def reattach_def)

lemma SetSendTimeout_ok:
  "fst (SetSendTimeout ok timeout address method so) \<longleftrightarrow>
     (if method = ''bind'' then ok (zmq_unbind address) \<and> ok (zmq_setsockopt timeout) \<and> ok (zmq_bind address)
      else if method = ''connect'' then ok (zmq_disconnect address) \<and> ok (zmq_setsockopt timeout) \<and> ok (zmq_connect address)
      else False)"
  by (simp add: SetSendTimeout_def reattach_def)

section \<open>Transfers with a timeout return\<close>

text \<open>
  A loop that makes one call in each turn and goes on only where a call would block and time is left. What
  it is given is a list of the answers of the library, the time elapsed and what a turn may change otherwise.
\<close>

locale stateful_retry_loop =
  fixes loop :: "'t list \<Rightarrow> int \<Rightarrow> 's \<Rightarrow> 'r option" and timeout step :: int
  assumes goes_on: "loop (t # turns) elapsed s = None \<Longrightarrow>
    \<exists>dontwait interrupted elapsed' s'. on_again dontwait timeout step interrupted elapsed = Some elapsed' \<and> loop turns elapsed' s' = None"
begin

lemma returns:
  assumes "attempts_left timeout step elapsed \<le> length turns" "0 < timeout" "0 < step"
  shows "\<exists>res. loop turns elapsed s = Some res"
  using assms(1)
proof (induction turns arbitrary: elapsed s)
  case Nil
  then show ?case by (simp add: attempts_left_def)
next
  case (Cons t turns)
  show ?case
  proof (rule ccontr)
    assume "\<not> ?thesis"
    then obtain dontwait interrupted elapsed' s' where
      e: "on_again dontwait timeout step interrupted elapsed = Some elapsed'" "loop turns elapsed' s' = None"
      using goes_on by fastforce
    from Cons.IH [of elapsed' s'] on_again_attempts [OF e(1) assms(2,3)] Cons.prems e(2) show False by simp
  qed
qed

end

text \<open>A loop whose turns change nothing else is the special case.\<close>

locale retry_loop =
  fixes loop :: "'t list \<Rightarrow> int \<Rightarrow> 'r option" and timeout step :: int
  assumes goes_on: "loop (t # turns) elapsed = None \<Longrightarrow>
    \<exists>dontwait interrupted elapsed'. on_again dontwait timeout step interrupted elapsed = Some elapsed' \<and> loop turns elapsed' = None"

sublocale retry_loop \<subseteq> stateful: stateful_retry_loop "\<lambda>turns elapsed (_ :: unit). loop turns elapsed"
  using goes_on by unfold_locales blast

context retry_loop
begin

lemmas returns = stateful.returns

end

end
