(* ===== verification/Shmem_Sockets.thy ===== *)
theory Shmem_Sockets
  imports Shmem_Messages Socket_State "HOL-Library.Multiset"
begin

text \<open>
  The sockets of the shared-memory transport, \<open>fairmq/shmem/FairMQSocketSHM.cxx\<close>, and what becomes of the
  chunks of the shared segment when messages are created, sent, received and deleted. What travels is a
  list of headers, one for each part.
\<close>

section \<open>Transfers\<close>

text \<open>
  One element for each turn of a loop: \<open>fInterrupted\<close> at the test of the loop, what the library gives, and
  \<open>fInterrupted\<close> after a call that would block. A send returns what was handed to the library, if anything.
\<close>

definition header_list :: "FairMQMessageSHM \<Rightarrow> MetaHeader list" where
  "header_list m = (case zm_header (fMessage m) of None \<Rightarrow> [] | Some h \<Rightarrow> [h])"

fun shm_SendImpl ::
    "bool \<Rightarrow> int \<Rightarrow> (bool \<times> zmq_error option \<times> bool) list \<Rightarrow> int \<Rightarrow> FairMQMessageSHM \<Rightarrow> socket_state \<Rightarrow>
     (int \<times> MetaHeader list option \<times> FairMQMessageSHM \<times> socket_state) option" where
  "shm_SendImpl dontwait timeout [] elapsed m so = None"
| "shm_SendImpl dontwait timeout ((stop, err, interrupted) # turns) elapsed m so =
     (if stop then Some (-1, None, m, so)
      else case err of
             None \<Rightarrow>
               if zm_size (fMessage m) = 0 then Some (0, Some [], m\<lparr>fMessage := zmq_msg_init\<rparr>, so)
               else Some (to_int32 (fSize m), Some (header_list m), m\<lparr>fMessage := zmq_msg_init, fQueued := True\<rparr>, count_tx (fSize m) so)
           | Some EAGAIN \<Rightarrow>
               (case on_again dontwait timeout (fSndTimeout so) interrupted elapsed of
                  None \<Rightarrow> Some (-2, None, m, so)
                | Some elapsed' \<Rightarrow> shm_SendImpl dontwait timeout turns elapsed' m so)
           | Some ETERM \<Rightarrow> Some (-1, None, m, so)
           | Some EOTHER \<Rightarrow> Some (-1, None, m, so))"

text \<open>A receive returns whether it took a message from the library.\<close>

definition take_header :: "MetaHeader \<Rightarrow> FairMQMessageSHM \<Rightarrow> FairMQMessageSHM" where
  "take_header h m = m\<lparr>fHandle := hdr_handle h, fSize := hdr_size h, fRegionId := hdr_region h, fHint := hdr_hint h\<rparr>"

fun shm_ReceiveImpl ::
    "bool \<Rightarrow> int \<Rightarrow> ((zmq_error + MetaHeader list) \<times> bool) list \<Rightarrow> int \<Rightarrow> FairMQMessageSHM \<Rightarrow> socket_state \<Rightarrow>
     (int \<times> bool \<times> FairMQMessageSHM \<times> socket_state) outcome option" where
  "shm_ReceiveImpl dontwait timeout [] elapsed m so = None"
| "shm_ReceiveImpl dontwait timeout ((res, interrupted) # turns) elapsed m so =
     (case res of
        Inr [] \<Rightarrow> Some (Returns (0, True, m\<lparr>fMessage := zmq_msg_init\<rparr>, so\<lparr>fMessagesRx := fMessagesRx so + 1\<rparr>))
      | Inr [h] \<Rightarrow>
          Some (Returns (to_int32 (hdr_size h), True,
            take_header h (m\<lparr>fMessage := \<lparr>zm_size = sizeof_MetaHeader, zm_header = Some h\<rparr>\<rparr>), count_rx (hdr_size h) so))
      | Inr _ \<Rightarrow> Some Exits
      | Inl EAGAIN \<Rightarrow>
          (case on_again dontwait timeout (fRcvTimeout so) interrupted elapsed of
             None \<Rightarrow> Some (Returns (-2, False, m, so))
           | Some elapsed' \<Rightarrow> shm_ReceiveImpl dontwait timeout turns elapsed' m so)
      | Inl ETERM \<Rightarrow> Some (Returns (-1, False, m, so))
      | Inl EOTHER \<Rightarrow> Some (Returns (-1, False, m, so)))"

text \<open>Multipart messages: the headers of all parts travel in one message of the library.\<close>

definition collect_headers :: "FairMQMessageSHM list \<Rightarrow> MetaHeader list outcome" where
  "collect_headers ms =
     fold_outcome (\<lambda>m hs. case zm_header (fMessage m) of None \<Rightarrow> Undefined | Some h \<Rightarrow> Returns (hs @ [h])) ms []"

fun shm_send_headers ::
    "bool \<Rightarrow> int \<Rightarrow> (bool \<times> zmq_error option \<times> bool) list \<Rightarrow> int \<Rightarrow> MetaHeader list \<Rightarrow> FairMQMessageSHM list \<Rightarrow> socket_state \<Rightarrow>
     (int \<times> MetaHeader list option \<times> FairMQMessageSHM list \<times> socket_state) option" where
  "shm_send_headers dontwait timeout [] elapsed hs ms so = None"
| "shm_send_headers dontwait timeout ((stop, err, interrupted) # turns) elapsed hs ms so =
     (if stop then Some (-1, None, ms, so)
      else case err of
             None \<Rightarrow>
               if hs = [] then Some (0, Some [], ms, so)
               else let total = sum_list (map fSize ms)
                    in Some (int total, Some hs, map (\<lambda>m. m\<lparr>fQueued := True\<rparr>) ms, count_tx total so)
           | Some EAGAIN \<Rightarrow>
               (case on_again dontwait timeout (fSndTimeout so) interrupted elapsed of
                  None \<Rightarrow> Some (-2, None, ms, so)
                | Some elapsed' \<Rightarrow> shm_send_headers dontwait timeout turns elapsed' hs ms so)
           | Some ETERM \<Rightarrow> Some (-1, None, ms, so)
           | Some EOTHER \<Rightarrow> Some (-1, None, ms, so))"

definition shm_SendImpl_vec ::
    "bool \<Rightarrow> int \<Rightarrow> (bool \<times> zmq_error option \<times> bool) list \<Rightarrow> FairMQMessageSHM list \<Rightarrow> socket_state \<Rightarrow>
     (int \<times> MetaHeader list option \<times> FairMQMessageSHM list \<times> socket_state) outcome option" where
  "shm_SendImpl_vec dontwait timeout turns ms so =
     (case ms of
        [m] \<Rightarrow> map_option (\<lambda>(n, w, m, so). Returns (n, w, [m], so)) (shm_SendImpl dontwait timeout turns 0 m so)
      | _ \<Rightarrow>
          (case collect_headers ms of
             Returns hs \<Rightarrow> map_option Returns (shm_send_headers dontwait timeout turns 0 hs ms so)
           | Throws e \<Rightarrow> Some (Throws e)
           | Exits \<Rightarrow> Some Exits
           | Undefined \<Rightarrow> Some Undefined))"

text \<open>
  A received part is an empty message to which the header is copied: the header is at its place, but the
  size of the ZeroMQ message stays zero.
\<close>

definition received_part :: "MetaHeader \<Rightarrow> FairMQMessageSHM" where
  "received_part h =
     take_header h (FairMQMessageSHM_empty\<lparr>fMessage := zmq_msg_init\<lparr>zm_header := Some h\<rparr>\<rparr>)"

fun shm_ReceiveImpl_vec ::
    "bool \<Rightarrow> int \<Rightarrow> (bool \<times> (zmq_error + MetaHeader list) \<times> bool) list \<Rightarrow> int \<Rightarrow> FairMQMessageSHM list \<Rightarrow> socket_state \<Rightarrow>
     (int \<times> bool \<times> FairMQMessageSHM list \<times> socket_state) option" where
  "shm_ReceiveImpl_vec dontwait timeout [] elapsed ms so = None"
| "shm_ReceiveImpl_vec dontwait timeout ((stop, res, interrupted) # turns) elapsed ms so =
     (if stop then Some (-1, False, ms, so)
      else case res of
             Inr hs \<Rightarrow>
               if hs = [] then Some (0, True, ms, so)
               else let total = sum_list (map hdr_size hs)
                    in Some (int total, True, ms @ map received_part hs, count_rx total so)
           | Inl EAGAIN \<Rightarrow>
               (case on_again dontwait timeout (fRcvTimeout so) interrupted elapsed of
                  None \<Rightarrow> Some (-2, False, ms, so)
                | Some elapsed' \<Rightarrow> shm_ReceiveImpl_vec dontwait timeout turns elapsed' ms so)
           | Inl ETERM \<Rightarrow> Some (-1, False, ms, so)
           | Inl EOTHER \<Rightarrow> Some (-1, False, ms, so))"

text \<open>Each loop makes one call in each turn and goes on only where the call would block.\<close>

interpretation shm_send: retry_loop "\<lambda>turns elapsed. shm_SendImpl dontwait timeout turns elapsed m so" timeout "fSndTimeout so"
  for dontwait timeout m so
  by unfold_locales (auto split: if_splits option.splits zmq_error.splits; blast)

interpretation shm_receive: retry_loop "\<lambda>turns elapsed. shm_ReceiveImpl dontwait timeout turns elapsed m so" timeout "fRcvTimeout so"
  for dontwait timeout m so
  by unfold_locales (auto split: option.splits sum.splits list.splits zmq_error.splits; blast)

interpretation shm_send_hdrs: retry_loop "\<lambda>turns elapsed. shm_send_headers dontwait timeout turns elapsed hs ms so" timeout "fSndTimeout so"
  for dontwait timeout hs ms so
  by unfold_locales (auto simp: Let_def split: if_splits option.splits zmq_error.splits; blast)

interpretation shm_receive_hdrs: retry_loop "\<lambda>turns elapsed. shm_ReceiveImpl_vec dontwait timeout turns elapsed ms so" timeout "fRcvTimeout so"
  for dontwait timeout ms so
  by unfold_locales (auto simp: Let_def split: if_splits option.splits sum.splits zmq_error.splits; blast)

lemma shm_SendImpl_vec_returns:
  assumes "attempts_left timeout (fSndTimeout so) 0 \<le> length turns" "0 < timeout" "0 < fSndTimeout so"
  shows "\<exists>res. shm_SendImpl_vec dontwait timeout turns ms so = Some res"
proof -
  have "\<exists>res. shm_send_headers dontwait timeout turns 0 hs ms so = Some res" for hs
    by (rule shm_send_hdrs.returns [OF assms])
  moreover have "\<exists>res. shm_SendImpl dontwait timeout turns 0 m so = Some res" for m
    by (rule shm_send.returns [OF assms])
  ultimately show ?thesis
    unfolding shm_SendImpl_vec_def by (auto split: list.splits outcome.splits)
qed

section \<open>Processes that share the segment\<close>

text \<open>
  All live messages of the processes, and the messages of the library that are under way. The attempts to
  allocate give handles that are positive and not in use, as the allocator of boost::interprocess
  documents. A message is sent once, and a message is received into one that holds no chunk.
\<close>

record shm_system =
  sys_shm :: shm
  live :: "FairMQMessageSHM list"
  wire :: "MetaHeader list list"

definition fresh_handles :: "(int option \<times> bool) list \<Rightarrow> shm \<Rightarrow> bool" where
  "fresh_handles attempts s \<longleftrightarrow> (\<forall>h. (Some h) \<in> fst ` set attempts \<longrightarrow> 0 < h \<and> h \<notin> fst ` set (chunks s))"

definition put_on_wire :: "MetaHeader list option \<Rightarrow> MetaHeader list list \<Rightarrow> MetaHeader list list" where
  "put_on_wire w ws = ws @ (case w of None \<Rightarrow> [] | Some hs \<Rightarrow> [hs])"

inductive shm_step :: "shm_system \<Rightarrow> shm_system \<Rightarrow> bool" where
  create_empty: "shm_step s (s\<lparr>live := live s @ [FairMQMessageSHM_empty]\<rparr>)"
| create_size: "\<lbrakk>fresh_handles attempts (sys_shm s); FairMQMessageSHM_size attempts n (sys_shm s) = Some (m, sh)\<rbrakk> \<Longrightarrow>
    shm_step s (s\<lparr>sys_shm := sh, live := live s @ [m]\<rparr>)"
| create_data: "\<lbrakk>fresh_handles attempts (sys_shm s); FairMQMessageSHM_data attempts bs (sys_shm s) = Some (Returns (m, sh))\<rbrakk> \<Longrightarrow>
    shm_step s (s\<lparr>sys_shm := sh, live := live s @ [m]\<rparr>)"
| shrink: "\<lbrakk>live s = xs @ m # ys; \<not> fQueued m; SetUsedSize shrinks n m (sys_shm s) = Returns (ok, m', sh)\<rbrakk> \<Longrightarrow>
    shm_step s (s\<lparr>sys_shm := sh, live := xs @ m' # ys\<rparr>)"
| send: "\<lbrakk>live s = xs @ m # ys; \<not> fQueued m; shm_SendImpl dontwait timeout turns 0 m so = Some (n, w, m', so')\<rbrakk> \<Longrightarrow>
    shm_step s (s\<lparr>live := xs @ m' # ys, wire := put_on_wire w (wire s)\<rparr>)"
| send_vec: "\<lbrakk>live s = xs @ ms @ ys; \<forall>m \<in> set ms. \<not> fQueued m;
      shm_SendImpl_vec dontwait timeout turns ms so = Some (Returns (n, w, ms', so'))\<rbrakk> \<Longrightarrow>
    shm_step s (s\<lparr>live := xs @ ms' @ ys, wire := put_on_wire w (wire s)\<rparr>)"
| receive: "\<lbrakk>live s = xs @ m # ys; fHandle m < 0; wire s = hs # ws; \<forall>hs'. Inr hs' \<in> fst ` set turns \<longrightarrow> hs' = hs;
      shm_ReceiveImpl dontwait timeout turns 0 m so = Some (Returns (n, taken, m', so'))\<rbrakk> \<Longrightarrow>
    shm_step s (s\<lparr>live := xs @ m' # ys, wire := if taken then ws else wire s\<rparr>)"
| receive_vec: "\<lbrakk>wire s = hs # ws; \<forall>hs'. Inr hs' \<in> (fst \<circ> snd) ` set turns \<longrightarrow> hs' = hs;
      shm_ReceiveImpl_vec dontwait timeout turns 0 [] so = Some (n, taken, ms', so')\<rbrakk> \<Longrightarrow>
    shm_step s (s\<lparr>live := live s @ ms', wire := if taken then ws else wire s\<rparr>)"
| delete: "\<lbrakk>live s = xs @ m # ys; CloseMessage exists_with acking m (sys_shm s) = Some (Returns (m', sh))\<rbrakk> \<Longrightarrow>
    shm_step s (s\<lparr>sys_shm := sh, live := xs @ ys\<rparr>)"

definition shm_start :: shm_system where
  "shm_start = \<lparr>sys_shm = \<lparr>chunks = [], fRegions = [], acks = [], places_used = 0\<rparr>, live = [], wire = []\<rparr>"

text \<open>Who is responsible for a chunk: a message that was not sent, or a header under way.\<close>

definition holds :: "FairMQMessageSHM \<Rightarrow> int multiset" where
  "holds m = (if 0 \<le> fHandle m \<and> \<not> fQueued m then {#fHandle m#} else {#})"

definition owners :: "shm_system \<Rightarrow> int multiset" where
  "owners s = sum_list (map holds (live s)) + mset (map hdr_handle (concat (wire s)))"

section \<open>Every chunk has one owner\<close>

definition message_ok :: "FairMQMessageSHM \<Rightarrow> bool" where
  "message_ok m \<longleftrightarrow>
     fRegionId m = 0 \<and> (fQueued m \<longrightarrow> 0 \<le> fHandle m) \<and>
     (case zm_header (fMessage m) of
        None \<Rightarrow> zm_size (fMessage m) = 0
      | Some h \<Rightarrow> hdr_handle h = fHandle m \<and> hdr_region h = 0 \<and> 0 \<le> fHandle m)"

definition header_ok :: "MetaHeader \<Rightarrow> bool" where
  "header_ok h \<longleftrightarrow> hdr_region h = 0 \<and> 0 \<le> hdr_handle h"

definition shm_inv :: "shm_system \<Rightarrow> bool" where
  "shm_inv s \<longleftrightarrow>
     distinct (map fst (chunks (sys_shm s))) \<and> owners s = mset (map fst (chunks (sys_shm s))) \<and>
     list_all message_ok (live s) \<and> list_all header_ok (concat (wire s))"

text \<open>The handles of the segment after an operation that allocates, writes or shrinks.\<close>

lemma write_chunk_handles: "write_chunk h bs s = Returns s' \<Longrightarrow> map fst (chunks s') = map fst (chunks s)"
  by (auto simp: write_chunk_def case_prod_unfold split: option.splits if_splits)

lemma copy_in_handles: "copy_in bs (m, s) = Returns (m', s') \<Longrightarrow> m' = m \<and> map fst (chunks s') = map fst (chunks s)"
  by (auto simp: copy_in_def map_outcome_result_def and_then_Returns_iff split: option.splits pointer.splits dest: write_chunk_handles)

lemma allocate_loop_result:
  assumes "allocate_loop attempts n (m, s) = Some (ok, m', s')" "fHandle m < 0"
  shows "(ok \<and> (\<exists>h. Some h \<in> fst ` set attempts \<and> m' = m\<lparr>fLocalPtr := Some (Chunk h), fHandle := h\<rparr> \<and>
      s' = s\<lparr>chunks := chunks s @ [(h, replicate n 0)]\<rparr>)) \<or> (\<not> ok \<and> m' = m \<and> s' = s) \<or> (\<exists>h. Some h \<in> fst ` set attempts \<and> h < 0)"
  using assms
proof (induction attempts)
  case (Cons a attempts)
  obtain r i where a: "a = (r, i)" by (cases a)
  show ?case
  proof (cases r)
    case None
    then show ?thesis using Cons a by (auto split: if_splits)
  next
    case (Some h)
    then show ?thesis using Cons.prems a by (cases "h < 0") auto
  qed
qed auto

lemma InitializeChunk_result:
  assumes "InitializeChunk attempts n (m, s) = Some (ok, m', s')" "fHandle m < 0" "fresh_handles attempts s"
  shows "(ok \<and> (\<exists>h. 0 < h \<and> h \<notin> fst ` set (chunks s) \<and> Some h \<in> fst ` set attempts \<and>
      m' = write_header n (m\<lparr>fLocalPtr := Some (Chunk h), fHandle := h, fSize := n\<rparr>) \<and> s' = s\<lparr>chunks := chunks s @ [(h, replicate n 0)]\<rparr>)) \<or>
    (\<not> ok \<and> m' = m \<and> s' = s)"
proof -
  obtain ok1 m1 s1 where 1: "allocate_loop attempts n (m, s) = Some (ok1, m1, s1)"
    "(ok, m', s') = (if ok1 then (True, write_header n (m1\<lparr>fSize := n\<rparr>), s1) else (False, m1, s1))"
    using assms(1) by (auto simp: InitializeChunk_def simp del: allocate_loop.simps split: prod.splits)
  have f: "0 < h \<and> h \<notin> fst ` set (chunks s)" if "Some h \<in> fst ` set attempts" for h
    using assms(3) that unfolding fresh_handles_def by blast
  from allocate_loop_result [OF 1(1) assms(2)] show ?thesis
  proof (elim disjE conjE exE)
    fix h assume h: "ok1" "Some h \<in> fst ` set attempts" "m1 = m\<lparr>fLocalPtr := Some (Chunk h), fHandle := h\<rparr>"
      "s1 = s\<lparr>chunks := chunks s @ [(h, replicate n 0)]\<rparr>"
    then show ?thesis using 1(2) f [OF h(2)] by (intro disjI1 conjI exI [of _ h]) auto
  next
    assume "\<not> ok1" "m1 = m" "s1 = s"
    then show ?thesis using 1(2) by auto
  next
    fix h assume "Some h \<in> fst ` set attempts" "h < 0"
    then show ?thesis using f by fastforce
  qed
qed

text \<open>A message that was just created, with the segment.\<close>

definition created :: "FairMQMessageSHM \<Rightarrow> shm \<Rightarrow> shm \<Rightarrow> bool" where
  "created m s s' \<longleftrightarrow>
     message_ok m \<and> \<not> fQueued m \<and>
     (if fHandle m < 0 then map fst (chunks s') = map fst (chunks s)
      else fHandle m \<notin> fst ` set (chunks s) \<and> map fst (chunks s') = map fst (chunks s) @ [fHandle m])"

lemma InitializeChunk_created:
  assumes "InitializeChunk attempts n (FairMQMessageSHM_empty\<lparr>fMetaCreated := False\<rparr>, s) = Some (ok, m, s')" "fresh_handles attempts s"
  shows "created m s s'"
proof -
  have "fHandle (FairMQMessageSHM_empty\<lparr>fMetaCreated := False\<rparr>) < 0" by (simp add: FairMQMessageSHM_empty_def)
  from InitializeChunk_result [OF assms(1) this assms(2)] show ?thesis
  proof (elim disjE conjE exE)
    fix h assume "0 < h" "h \<notin> fst ` set (chunks s)" "s' = s\<lparr>chunks := chunks s @ [(h, replicate n 0)]\<rparr>"
      "m = write_header n (FairMQMessageSHM_empty\<lparr>fMetaCreated := False, fLocalPtr := Some (Chunk h), fHandle := h, fSize := n\<rparr>)"
    then show ?thesis by (simp add: created_def message_ok_def write_header_def FairMQMessageSHM_empty_def)
  qed (simp add: created_def message_ok_def FairMQMessageSHM_empty_def zmq_msg_init_def)
qed

lemma created_inv:
  assumes "shm_inv s" "created m (sys_shm s) sh"
  shows "shm_inv (s\<lparr>sys_shm := sh, live := live s @ [m]\<rparr>)"
proof (cases "fHandle m < 0")
  case True
  then show ?thesis using assms by (auto simp: shm_inv_def owners_def created_def holds_def)
next
  case False
  then have "map fst (chunks sh) = map fst (chunks (sys_shm s)) @ [fHandle m]" "fHandle m \<notin> set (map fst (chunks (sys_shm s)))"
    "message_ok m" "\<not> fQueued m" using assms(2) by (auto simp: created_def)
  then show ?thesis using assms(1) False by (simp add: shm_inv_def owners_def holds_def)
qed

text \<open>Replacing live messages and putting headers on the wire moves the responsibility.\<close>

lemma moved_inv:
  assumes "shm_inv s" "live s = xs @ ms @ ys" "map fst (chunks sh) = map fst (chunks (sys_shm s))"
    and "list_all message_ok ms'" "list_all header_ok (concat ws')"
    and "sum_list (map holds ms') + mset (map hdr_handle (concat ws')) =
      sum_list (map holds ms) + mset (map hdr_handle (concat (wire s)))"
  shows "shm_inv (s\<lparr>sys_shm := sh, live := xs @ ms' @ ys, wire := ws'\<rparr>)"
proof -
  have "owners (s\<lparr>sys_shm := sh, live := xs @ ms' @ ys, wire := ws'\<rparr>) = owners s"
  proof -
    have "owners (s\<lparr>sys_shm := sh, live := xs @ ms' @ ys, wire := ws'\<rparr>) =
        sum_list (map holds xs) + (sum_list (map holds ms') + mset (map hdr_handle (concat ws'))) + sum_list (map holds ys)"
      by (simp add: owners_def ac_simps)
    also have "\<dots> = owners s" unfolding assms(6) by (simp add: owners_def assms(2) ac_simps)
    finally show ?thesis .
  qed
  then show ?thesis using assms(1-5) by (simp add: shm_inv_def)
qed

definition sent_headers :: "MetaHeader list option \<Rightarrow> MetaHeader list" where
  "sent_headers w = (case w of None \<Rightarrow> [] | Some hs \<Rightarrow> hs)"

lemma concat_put_on_wire [simp]: "concat (put_on_wire w ws) = concat ws @ sent_headers w"
  by (simp add: put_on_wire_def sent_headers_def split: option.split)

lemma sent_headers_simps [simp]: "sent_headers None = []" "sent_headers (Some hs) = hs"
  by (simp_all add: sent_headers_def)

lemma shm_SendImpl_moves:
  assumes "shm_SendImpl dontwait timeout turns elapsed m so = Some (n, w, m', so')" "message_ok m" "\<not> fQueued m"
  shows "message_ok m' \<and> list_all header_ok (sent_headers w) \<and> holds m' + mset (map hdr_handle (sent_headers w)) = holds m"
  using assms
proof (induction turns arbitrary: elapsed)
  case (Cons t turns)
  obtain stop err i where t: "t = (stop, err, i)" by (cases t)
  show ?case
  proof (cases "stop \<or> err \<noteq> None")
    case True
    then show ?thesis using Cons t by (auto split: option.splits zmq_error.splits if_splits)
  next
    case False
    then show ?thesis using Cons.prems t
      by (auto simp: message_ok_def header_ok_def holds_def header_list_def zmq_msg_init_def split: if_splits option.splits)
  qed
qed simp

lemma collect_headers_ok:
  assumes "collect_headers ms = Returns hs"
  shows "map (\<lambda>m. zm_header (fMessage m)) ms = map Some hs"
proof -
  have "fold_outcome (\<lambda>m hs. case zm_header (fMessage m) of None \<Rightarrow> Undefined | Some h \<Rightarrow> Returns (hs @ [h])) ms acc = Returns hs \<Longrightarrow>
      map Some acc @ map (\<lambda>m. zm_header (fMessage m)) ms = map Some hs" for acc
    by (induction ms arbitrary: acc) (auto simp: and_then_Returns_iff split: option.splits, fastforce)
  from this [of "[]"] assms show ?thesis by (simp add: collect_headers_def)
qed

lemma headers_of_parts:
  assumes "map (\<lambda>m. zm_header (fMessage m)) ms = map Some hs" "list_all message_ok ms" "\<forall>m \<in> set ms. \<not> fQueued m"
  shows "sum_list (map holds ms) = mset (map hdr_handle hs) \<and> list_all header_ok hs"
  using assms
proof (induction ms arbitrary: hs)
  case (Cons m ms)
  then obtain h hs' where h: "hs = h # hs'" "zm_header (fMessage m) = Some h" "map (\<lambda>m. zm_header (fMessage m)) ms = map Some hs'" by auto
  from Cons.IH [OF h(3)] Cons.prems h(1,2) show ?case by (simp add: message_ok_def holds_def header_ok_def)
qed simp

lemma queued_parts:
  "sum_list (map holds (map (\<lambda>m. m\<lparr>fQueued := True\<rparr>) ms)) = {#}"
  by (induction ms) (simp_all add: holds_def)

lemma shm_send_headers_moves:
  assumes "shm_send_headers dontwait timeout turns elapsed hs ms so = Some (n, w, ms', so')"
    and "map (\<lambda>m. zm_header (fMessage m)) ms = map Some hs" "list_all message_ok ms" "\<forall>m \<in> set ms. \<not> fQueued m"
  shows "list_all message_ok ms' \<and> list_all header_ok (sent_headers w) \<and>
    sum_list (map holds ms') + mset (map hdr_handle (sent_headers w)) = sum_list (map holds ms)"
  using assms(1)
proof (induction turns arbitrary: elapsed)
  case (Cons t turns)
  obtain stop err i where t: "t = (stop, err, i)" by (cases t)
  note p = headers_of_parts [OF assms(2-4)]
  show ?case
  proof (cases "stop \<or> err \<noteq> None \<or> hs = []")
    case True
    then show ?thesis using Cons t assms(3) by (auto split: option.splits zmq_error.splits if_splits)
  next
    case False
    then have "ms' = map (\<lambda>m. m\<lparr>fQueued := True\<rparr>) ms" "w = Some hs" using Cons.prems t by (auto simp: Let_def)
    moreover have "list_all message_ok (map (\<lambda>m. m\<lparr>fQueued := True\<rparr>) ms)"
    proof -
      have "message_ok (m\<lparr>fQueued := True\<rparr>)" if "m \<in> set ms" for m
      proof -
        have "zm_header (fMessage m) \<in> Some ` set hs" using that assms(2) by (metis (mono_tags, lifting) image_eqI list.set_map)
        then show ?thesis using that assms(3) by (auto simp: list_all_iff message_ok_def split: option.splits)
      qed
      then show ?thesis by (simp add: list_all_iff)
    qed
    ultimately show ?thesis using p queued_parts by simp
  qed
qed simp

lemma shm_SendImpl_vec_moves:
  assumes "shm_SendImpl_vec dontwait timeout turns ms so = Some (Returns (n, w, ms', so'))"
    and "list_all message_ok ms" "\<forall>m \<in> set ms. \<not> fQueued m"
  shows "list_all message_ok ms' \<and> list_all header_ok (sent_headers w) \<and>
    sum_list (map holds ms') + mset (map hdr_handle (sent_headers w)) = sum_list (map holds ms)"
proof (cases "length ms = 1")
  case True
  then obtain m where m: "ms = [m]" by (auto simp: length_Suc_conv)
  then obtain m' where "shm_SendImpl dontwait timeout turns 0 m so = Some (n, w, m', so')" "ms' = [m']"
    using assms(1) by (auto simp: shm_SendImpl_vec_def)
  with shm_SendImpl_moves [of dontwait timeout turns 0 m so] m assms(2,3) show ?thesis by fastforce
next
  case False
  then obtain hs where hs: "collect_headers ms = Returns hs" "shm_send_headers dontwait timeout turns 0 hs ms so = Some (n, w, ms', so')"
    using assms(1) by (auto simp: shm_SendImpl_vec_def split: list.splits outcome.splits)
  from shm_send_headers_moves [OF hs(2) collect_headers_ok [OF hs(1)] assms(2,3)] show ?thesis .
qed

lemma shm_ReceiveImpl_moves:
  assumes "shm_ReceiveImpl dontwait timeout turns elapsed m so = Some (Returns (n, taken, m', so'))"
    and "message_ok m" "fHandle m < 0" "list_all header_ok hs" "\<forall>hs'. Inr hs' \<in> fst ` set turns \<longrightarrow> hs' = hs"
  shows "message_ok m' \<and> holds m' = holds m + (if taken then mset (map hdr_handle hs) else {#})"
  using assms(1,5)
proof (induction turns arbitrary: elapsed)
  case (Cons t turns)
  obtain res i where t: "t = (res, i)" by (cases t)
  have q: "\<not> fQueued m" using assms(2,3) by (auto simp: message_ok_def)
  show ?case
  proof (cases res)
    case (Inl e)
    then show ?thesis using Cons t assms(2) by (auto split: option.splits zmq_error.splits)
  next
    case (Inr hs')
    then have "hs' = hs" using Cons.prems(2) t by auto
    then show ?thesis using Cons.prems(1) Inr t q assms(2,3,4)
      by (auto simp: message_ok_def header_ok_def holds_def take_header_def zmq_msg_init_def split: list.splits)
  qed
qed simp

lemma received_parts:
  "list_all header_ok hs \<Longrightarrow> list_all message_ok (map received_part hs) \<and> sum_list (map holds (map received_part hs)) = mset (map hdr_handle hs)"
  by (induction hs)
    (auto simp: received_part_def message_ok_def header_ok_def holds_def take_header_def zmq_msg_init_def FairMQMessageSHM_empty_def)

lemma shm_ReceiveImpl_vec_moves:
  assumes "shm_ReceiveImpl_vec dontwait timeout turns elapsed [] so = Some (n, taken, ms', so')"
    and "list_all header_ok hs" "\<forall>hs'. Inr hs' \<in> (fst \<circ> snd) ` set turns \<longrightarrow> hs' = hs"
  shows "list_all message_ok ms' \<and> sum_list (map holds ms') = (if taken then mset (map hdr_handle hs) else {#})"
  using assms(1,3)
proof (induction turns arbitrary: elapsed)
  case (Cons t turns)
  obtain stop res i where t: "t = (stop, res, i)" by (cases t)
  show ?case
  proof (cases res)
    case (Inl e)
    then show ?thesis using Cons t by (auto split: option.splits zmq_error.splits if_splits)
  next
    case (Inr hs')
    then have "hs' = hs" using Cons.prems(2) t by auto
    then show ?thesis using Cons.prems(1) Inr t received_parts [OF assms(2)] by (auto simp: Let_def split: if_splits)
  qed
qed simp

lemma SetUsedSize_keeps:
  assumes "SetUsedSize shrinks n m s = Returns (ok, m', s')" "message_ok m"
  shows "message_ok m' \<and> holds m' = holds m \<and> map fst (chunks s') = map fst (chunks s)"
  using assms
  by (auto simp: SetUsedSize_def message_ok_def holds_def case_prod_unfold comp_def split: if_splits option.splits pointer.splits)

lemma mset_remove_handle:
  "distinct (map fst cs) \<Longrightarrow> h \<in> fst ` set cs \<Longrightarrow> mset (map fst cs) = add_mset h (mset (map fst (filter (\<lambda>(h', _). h' \<noteq> h) cs)))"
proof (induction cs)
  case (Cons c cs)
  have "filter (\<lambda>(h', _). h' \<noteq> h) cs = cs" if "h \<notin> fst ` set cs"
    using that by (intro filter_True) (auto intro: rev_image_eqI)
  then show ?case using Cons by (cases c) (auto simp: image_iff simp del: mset_filter)
qed simp

lemma CloseMessage_ok:
  assumes "shm_inv s" "live s = xs @ m # ys"
  shows "\<exists>m' sh. CloseMessage exists_with acking m (sys_shm s) = Some (Returns (m', sh)) \<and>
    shm_inv (s\<lparr>sys_shm := sh, live := xs @ ys\<rparr>)"
proof (cases "0 \<le> fHandle m \<and> \<not> fQueued m")
  case True
  have m: "message_ok m" and d: "distinct (map fst (chunks (sys_shm s)))" and o: "owners s = mset (map fst (chunks (sys_shm s)))"
    using assms by (simp_all add: shm_inv_def)
  have "fHandle m \<in># owners s" using True assms(2) by (simp add: owners_def holds_def)
  then have h: "fHandle m \<in> fst ` set (chunks (sys_shm s))" unfolding o by simp
  let ?sh = "(sys_shm s)\<lparr>chunks := filter (\<lambda>(h', _). h' \<noteq> fHandle m) (chunks (sys_shm s))\<rparr>"
  have "\<exists>m'. CloseMessage exists_with acking m (sys_shm s) = Some (Returns (m', ?sh))"
    using True m h by (simp add: CloseMessage_def message_ok_def deallocate_def)
  moreover have "add_mset (fHandle m) (owners (s\<lparr>sys_shm := ?sh, live := xs @ ys\<rparr>)) = owners s"
    using True assms(2) by (simp add: owners_def holds_def)
  then have "owners (s\<lparr>sys_shm := ?sh, live := xs @ ys\<rparr>) = mset (map fst (chunks ?sh))"
    using mset_remove_handle [OF d h] o by simp
  moreover have "distinct (map fst (chunks ?sh))" using d by (simp add: distinct_map_filter)
  ultimately show ?thesis using assms by (auto simp: shm_inv_def)
next
  case False
  then have "\<exists>m'. CloseMessage exists_with acking m (sys_shm s) = Some (Returns (m', sys_shm s))" by (auto simp: CloseMessage_def)
  moreover have "holds m = {#}" using False by (auto simp: holds_def)
  ultimately show ?thesis using assms by (auto simp: shm_inv_def owners_def)
qed

lemma shm_step_inv:
  assumes "shm_step s s'" "shm_inv s"
  shows "shm_inv s'"
  using assms(1)
proof (cases rule: shm_step.cases)
  case create_empty
  have "created FairMQMessageSHM_empty (sys_shm s) (sys_shm s)"
    by (simp add: created_def message_ok_def FairMQMessageSHM_empty_def zmq_msg_init_def)
  from created_inv [OF assms(2) this] show ?thesis by (simp add: create_empty)
next
  case (create_size attempts n m sh)
  then obtain ok where "InitializeChunk attempts n (FairMQMessageSHM_empty\<lparr>fMetaCreated := False\<rparr>, sys_shm s) = Some (ok, m, sh)"
    by (auto simp: FairMQMessageSHM_size_def)
  from created_inv [OF assms(2) InitializeChunk_created [OF this create_size(2)]] show ?thesis by (simp add: create_size(1))
next
  case (create_data attempts bs m sh)
  then obtain ok m1 sh1 where 1: "InitializeChunk attempts (length bs) (FairMQMessageSHM_empty\<lparr>fMetaCreated := False\<rparr>, sys_shm s) = Some (ok, m1, sh1)"
    "(if ok then copy_in bs (m1, sh1) else Returns (m1, sh1)) = Returns (m, sh)" by (auto simp: FairMQMessageSHM_data_def)
  from 1(2) have "m = m1" "map fst (chunks sh) = map fst (chunks sh1)" by (auto split: if_splits dest: copy_in_handles)
  then have "created m (sys_shm s) sh" using InitializeChunk_created [OF 1(1) create_data(2)] by (auto simp: created_def split: if_splits)
  from created_inv [OF assms(2) this] show ?thesis by (simp add: create_data(1))
next
  case (shrink xs m ys shrinks n ok m' sh)
  have "message_ok m" "list_all header_ok (concat (wire s))" using assms(2) shrink(2) by (simp_all add: shm_inv_def)
  with SetUsedSize_keeps [OF shrink(4)] moved_inv [OF assms(2), of xs "[m]" ys sh "[m']" "wire s"] shrink show ?thesis by simp
next
  case (send xs m ys dontwait timeout turns so n w m' so')
  have ok: "message_ok m" "list_all header_ok (concat (wire s))" using assms(2) send(2) by (simp_all add: shm_inv_def)
  note mv = shm_SendImpl_moves [OF send(4) ok(1) send(3)]
  have "shm_inv (s\<lparr>sys_shm := sys_shm s, live := xs @ [m'] @ ys, wire := put_on_wire w (wire s)\<rparr>)"
    using mv ok(2) send(2) by (intro moved_inv [OF assms(2), where ms = "[m]"]) (auto simp: ac_simps)
  then show ?thesis by (simp add: send(1))
next
  case (send_vec xs ms ys dontwait timeout turns so n w ms' so')
  have ok: "list_all message_ok ms" "list_all header_ok (concat (wire s))" using assms(2) send_vec(2) by (simp_all add: shm_inv_def)
  note mv = shm_SendImpl_vec_moves [OF send_vec(4) ok(1) send_vec(3)]
  have "shm_inv (s\<lparr>sys_shm := sys_shm s, live := xs @ ms' @ ys, wire := put_on_wire w (wire s)\<rparr>)"
    using mv ok(2) send_vec(2) by (intro moved_inv [OF assms(2), where ms = ms]) (auto simp: ac_simps)
  then show ?thesis by (simp add: send_vec(1))
next
  case (receive xs m ys hs ws turns dontwait timeout so n taken m' so')
  have ok: "message_ok m" "list_all header_ok hs" "list_all header_ok (concat ws)" using assms(2) receive(2,4) by (simp_all add: shm_inv_def)
  note mv = shm_ReceiveImpl_moves [OF receive(6) ok(1) receive(3) ok(2) receive(5)]
  have "shm_inv (s\<lparr>sys_shm := sys_shm s, live := xs @ [m'] @ ys, wire := if taken then ws else wire s\<rparr>)"
    using mv ok receive(2,4) by (intro moved_inv [OF assms(2), where ms = "[m]"]) (auto simp: ac_simps)
  then show ?thesis by (simp add: receive(1))
next
  case (receive_vec hs ws turns dontwait timeout so n taken ms' so')
  have ok: "list_all header_ok hs" "list_all header_ok (concat ws)" using assms(2) receive_vec(2) by (simp_all add: shm_inv_def)
  note mv = shm_ReceiveImpl_vec_moves [OF receive_vec(4) ok(1) receive_vec(3)]
  have "shm_inv (s\<lparr>sys_shm := sys_shm s, live := live s @ ms' @ [], wire := if taken then ws else wire s\<rparr>)"
    using mv ok receive_vec(2) by (intro moved_inv [OF assms(2), where ms = "[]"]) (auto simp: ac_simps)
  then show ?thesis by (simp add: receive_vec(1))
next
  case (delete xs m ys exists_with acking m' sh)
  with CloseMessage_ok [OF assms(2) delete(2), of exists_with acking] show ?thesis by auto
qed

lemma shm_reachable_inv: "shm_step\<^sup>*\<^sup>* shm_start s \<Longrightarrow> shm_inv s"
proof (induction rule: rtranclp_induct)
  case base
  show ?case by (simp add: shm_start_def shm_inv_def owners_def)
qed (rule shm_step_inv)

section \<open>Properties\<close>



lemma data_message:
  assumes "0 < h" "h \<notin> fst ` set (chunks s)"
  shows "FairMQMessageSHM_data ((Some h, i) # attempts) bs s =
    Some (Returns (write_header (length bs) (FairMQMessageSHM_empty\<lparr>fMetaCreated := False, fLocalPtr := Some (Chunk h), fHandle := h, fSize := length bs\<rparr>),
      s\<lparr>chunks := chunks s @ [(h, bs)]\<rparr>))"
proof -
  have n: "map_of (chunks s) h = None" using assms(2) by (simp add: map_of_eq_None_iff)
  have "map (\<lambda>(h', cs). (h', if h' = h then bs @ drop (length bs) cs else cs)) (chunks s) = chunks s"
    using assms(2) by (intro map_idI) force
  then have "write_chunk h bs (s\<lparr>chunks := chunks s @ [(h, replicate (length bs) 0)]\<rparr>) = Returns (s\<lparr>chunks := chunks s @ [(h, bs)]\<rparr>)"
    using n by (simp add: write_chunk_def map_add_def)
  then show ?thesis using assms(1)
    by (simp add: FairMQMessageSHM_data_def InitializeChunk_def FairMQMessageSHM_empty_def copy_in_def write_header_def map_outcome_result_def)
qed

text \<open>
  C30: Data sent through shared memory arrives: a message created from data, sent and received into an empty message
  gives the receiver the same bytes, before and after the sender has deleted its message; both calls
  return the number of bytes, as far as an \<open>int\<close> can hold it.
\<close>

theorem shm_roundtrip:
  assumes "0 < h" "h \<notin> fst ` set (chunks s)"
  shows "\<exists>m s1 hs m1 so1 m1' m2 so2.
    FairMQMessageSHM_data ((Some h, i) # attempts) bs s = Some (Returns (m, s1)) \<and>
    shm_SendImpl dontwait timeout ((False, None, j) # turns) 0 m so = Some (to_int32 (length bs), Some hs, m1, so1) \<and>
    shm_ReceiveImpl dontwait' timeout' ((Inr hs, k) # turns') 0 FairMQMessageSHM_empty so' = Some (Returns (to_int32 (length bs), True, m2, so2)) \<and>
    CloseMessage exists_with acking m1 s1 = Some (Returns (m1', s1)) \<and> chunk_bytes m2 s1 = Returns bs"
proof -
  have "map_of (chunks s @ [(h, bs)]) h = Some bs" using assms(2) by (simp add: map_add_def map_of_eq_None_iff [THEN iffD2])
  then show ?thesis
    by (simp add: data_message [OF assms] write_header_def sizeof_MetaHeader_def header_list_def FairMQMessageSHM_empty_def
        take_header_def CloseMessage_def chunk_bytes_def GetData_def)
qed

theorem shm_roundtrip_witness:
  "\<exists>m s1 hs m1 so1 m1' m2 so2.
    FairMQMessageSHM_data [(None, False), (Some 128, False)] [1, 2, 3] (sys_shm shm_start) = Some (Returns (m, s1)) \<and>
    shm_SendImpl False 0 [(False, None, False)] 0 m new_socket_state = Some (3, Some hs, m1, so1) \<and>
    shm_ReceiveImpl False 0 [(Inr hs, False)] 0 FairMQMessageSHM_empty new_socket_state = Some (Returns (3, True, m2, so2)) \<and>
    CloseMessage (\<lambda>_. None) [] m1 s1 = Some (Returns (m1', s1)) \<and> chunk_bytes m2 s1 = Returns [1, 2, 3]"
proof -
  have "to_int32 (length [1, 2, 3 :: byte]) = 3" by (simp add: to_int32_small)
  moreover have "FairMQMessageSHM_data ((None, False) # as) bs s = FairMQMessageSHM_data as bs s" for as bs s
    by (simp add: FairMQMessageSHM_data_def InitializeChunk_def FairMQMessageSHM_empty_def)
  moreover have "0 < (128 :: int)" "128 \<notin> fst ` set (chunks (sys_shm shm_start))" by (simp_all add: shm_start_def)
  ultimately show ?thesis
    using shm_roundtrip [of 128 "sys_shm shm_start" False "[]" "[1, 2, 3]" False 0 False "[]" new_socket_state False 0 False "[]" new_socket_state "\<lambda>_. None" "[]"]
    by simp
qed

text \<open>
  \<open>Rebuild\<close> does not allocate: a message that already had a chunk keeps its handle, because closing it does not reset
  the handle to a negative number. After a send, the rebuilt message refers to the chunk that now belongs
  to the receiver, and sends it a second time. Before a send, the chunk is freed, the header that would
  be sent refers to handle zero, and the address of the data is the one that was freed.
\<close>

theorem Rebuild_never_allocates:
  assumes "0 \<le> fHandle m" "fRegionId m = 0"
  shows "(fQueued m \<longrightarrow> (\<exists>m'. Rebuild_size exists_with acking attempts n m s = Some (Returns (m', s)) \<and>
      \<not> fQueued m' \<and> zm_size (fMessage m') > 0 \<and> map hdr_handle (header_list m') = [fHandle m])) \<and>
    (\<not> fQueued m \<and> fHandle m \<in> fst ` set (chunks s) \<longrightarrow> (\<exists>m' s'. Rebuild_size exists_with acking attempts n m s = Some (Returns (m', s')) \<and>
      fst ` set (chunks s') = fst ` set (chunks s) - {fHandle m} \<and> map hdr_handle (header_list m') = [0] \<and> fLocalPtr m' = fLocalPtr m))"
proof -
  let ?built = "\<lambda>m. m\<lparr>fQueued := False, fSize := n, fMessage := \<lparr>zm_size = 32,
      zm_header = Some \<lparr>hdr_size = n, hdr_region = 0, hdr_handle = fHandle m, hdr_hint = fHint m\<rparr>\<rparr>, fMetaCreated := True\<rparr>"
  let ?freed = "s\<lparr>chunks := filter (\<lambda>(h', _). h' \<noteq> fHandle m) (chunks s)\<rparr>"
  have "Rebuild_size exists_with acking attempts n m s = Some (Returns (?built m, s))" if "fQueued m"
    using that assms
    by (auto simp: Rebuild_size_def after_close_def CloseMessage_def InitializeChunk_def write_header_def sizeof_MetaHeader_def)
  moreover have "Rebuild_size exists_with acking attempts n m s = Some (Returns (?built (m\<lparr>fHandle := 0\<rparr>), ?freed))"
    if "\<not> fQueued m" "fHandle m \<in> fst ` set (chunks s)"
    using that assms
    by (auto simp: Rebuild_size_def after_close_def CloseMessage_def deallocate_def InitializeChunk_def write_header_def sizeof_MetaHeader_def)
  moreover have "fst ` set (chunks ?freed) = fst ` set (chunks s) - {fHandle m}" by force
  ultimately show ?thesis by (simp add: header_list_def)
qed

theorem Rebuild_never_allocates_witness:
  "\<exists>m s so n w m1 so1 m2. FairMQMessageSHM_data [(Some 128, False)] [1, 2] (sys_shm shm_start) = Some (Returns (m, s)) \<and>
     shm_SendImpl False 0 [(False, None, False)] 0 m so = Some (n, Some w, m1, so1) \<and>
     Rebuild_size (\<lambda>_. None) [] [(Some 256, False)] 2 m1 s = Some (Returns (m2, s)) \<and>
     map hdr_handle (header_list m2) = map hdr_handle w"
proof -
  have h: "0 < (128 :: int)" "128 \<notin> fst ` set (chunks (sys_shm shm_start))" by (simp_all add: shm_start_def)
  define m where "m = write_header 2 (FairMQMessageSHM_empty\<lparr>fMetaCreated := False, fLocalPtr := Some (Chunk 128), fHandle := 128, fSize := 2\<rparr>)"
  let ?m1 = "m\<lparr>fMessage := zmq_msg_init, fQueued := True\<rparr>" and ?s = "(sys_shm shm_start)\<lparr>chunks := [(128, [1, 2])]\<rparr>"
  have d: "FairMQMessageSHM_data [(Some 128, False)] [1, 2] (sys_shm shm_start) = Some (Returns (m, ?s))"
    using data_message [OF h, of False "[]" "[1, 2]"] by (simp add: m_def shm_start_def numeral_2_eq_2)
  have s: "shm_SendImpl False 0 [(False, None, False)] 0 m new_socket_state = Some (to_int32 2, Some (header_list m), ?m1, count_tx 2 new_socket_state)"
    by (simp add: m_def write_header_def sizeof_MetaHeader_def)
  have "0 \<le> fHandle ?m1" "fRegionId ?m1 = 0" "fHandle ?m1 = 128" "map hdr_handle (header_list m) = [128]"
    by (simp_all add: m_def write_header_def FairMQMessageSHM_empty_def header_list_def)
  with Rebuild_never_allocates [of ?m1 "\<lambda>_. None" "[]" "[(Some 256, False)]" 2 ?s] d s show ?thesis by fastforce
qed

text \<open>
  A part of a received multipart message is lost when it is sent on alone: the call returns zero, and what
  it hands to the library has no header, so that the receiver gets an empty message.
\<close>

theorem forwarded_part_lost:
  assumes "shm_ReceiveImpl_vec dontwait timeout ((False, Inr hs, i) # turns) 0 [] so = Some (n, True, ms, so1)"
    and "p \<in> set ms"
  shows "fSize p \<in> hdr_size ` set hs \<and> shm_SendImpl dontwait' timeout' ((False, None, j) # turns') 0 p so2 = Some (0, Some [], p\<lparr>fMessage := zmq_msg_init\<rparr>, so2) \<and>
    (\<exists>m so3. shm_ReceiveImpl dontwait'' timeout'' ((Inr [], k) # turns'') 0 FairMQMessageSHM_empty so2 = Some (Returns (0, True, m, so3)) \<and> fHandle m < 0)"
proof -
  from assms obtain h where h: "h \<in> set hs" "p = received_part h" by (auto simp: Let_def split: if_splits)
  then show ?thesis by (auto simp: received_part_def take_header_def zmq_msg_init_def FairMQMessageSHM_empty_def)
qed

theorem forwarded_part_lost_witness:
  "\<exists>n a b so1. shm_ReceiveImpl_vec False 0 [(False, Inr [\<lparr>hdr_size = 5, hdr_region = 0, hdr_handle = 128, hdr_hint = 0\<rparr>,
       \<lparr>hdr_size = 7, hdr_region = 0, hdr_handle = 256, hdr_hint = 0\<rparr>], False)] 0 [] new_socket_state = Some (n, True, [a, b], so1) \<and>
     fSize b = 7 \<and> shm_SendImpl False 0 [(False, None, False)] 0 b so1 = Some (0, Some [], b\<lparr>fMessage := zmq_msg_init\<rparr>, so1)"
proof -
  let ?hs = "[\<lparr>hdr_size = 5, hdr_region = 0, hdr_handle = 128, hdr_hint = 0\<rparr>, \<lparr>hdr_size = 7, hdr_region = 0, hdr_handle = 256, hdr_hint = 0\<rparr>]"
  let ?a = "received_part (?hs ! 0)" and ?b = "received_part (?hs ! 1)"
  have r: "shm_ReceiveImpl_vec False 0 [(False, Inr ?hs, False)] 0 [] new_socket_state = Some (12, True, [?a, ?b], count_rx 12 new_socket_state)"
    by simp
  have "shm_SendImpl False 0 [(False, None, False)] 0 ?b (count_rx 12 new_socket_state) =
      Some (0, Some [], ?b\<lparr>fMessage := zmq_msg_init\<rparr>, count_rx 12 new_socket_state)"
    using forwarded_part_lost [OF r, of ?b False 0 False "[]" "count_rx 12 new_socket_state"] by simp
  moreover have "fSize ?b = 7" by (simp add: received_part_def take_header_def)
  ultimately show ?thesis using r by blast
qed

text \<open>A message of two gibibytes or more is received and counted, but reported with a negative number, as an error is.\<close>

theorem large_message_reported_negative:
  assumes "2 ^ 31 \<le> hdr_size h" "hdr_size h < 2 ^ 32"
  shows "\<exists>n m' so'. shm_ReceiveImpl dontwait timeout ((Inr [h], i) # turns) 0 m so = Some (Returns (n, True, m', so')) \<and>
    n < 0 \<and> fSize m' = hdr_size h \<and> fMessagesRx so' = fMessagesRx so + 1"
  using assms by (auto simp: to_int32_large take_header_def count_rx_def)

end
