(* ===== verification/Zmq_Sockets.thy ===== *)
theory Zmq_Sockets
  imports Socket_State
begin

text \<open>
  Messages and sockets of the ZeroMQ transport, \<open>fairmq/zeromq/FairMQMessageZMQ.cxx\<close> and
  \<open>fairmq/zeromq/FairMQSocketZMQ.cxx\<close>. A \<open>zmq_msg_t\<close> is its bytes. What the calls of the library give is an
  argument of the loops, as in \<open>Socket_State\<close>. A call that succeeds returns the size of the part as an \<open>int\<close>, so that
  parts are taken to be smaller than 2 GiB; the sums over parts have 64 bits in the code and are not bounded here.
\<close>

section \<open>Messages\<close>

record FairMQMessageZMQ =
  fUsedSizeModified :: bool
  fUsedSize :: nat
  fMsg :: "byte list option"
  fViewMsg :: "byte list option"

definition FairMQMessageZMQ_empty :: FairMQMessageZMQ where
  "FairMQMessageZMQ_empty = \<lparr>fUsedSizeModified = False, fUsedSize = 0, fMsg = Some [], fViewMsg = None\<rparr>"

definition FairMQMessageZMQ_data :: "byte list \<Rightarrow> FairMQMessageZMQ" where
  "FairMQMessageZMQ_data bs = FairMQMessageZMQ_empty\<lparr>fMsg := Some bs\<rparr>"

text \<open>The message that the library sees; \<open>None\<close> is a null pointer.\<close>

definition GetMessage :: "FairMQMessageZMQ \<Rightarrow> byte list option" where
  "GetMessage m = (case fViewMsg m of None \<Rightarrow> fMsg m | Some bs \<Rightarrow> Some bs)"

definition put_message :: "byte list \<Rightarrow> FairMQMessageZMQ \<Rightarrow> FairMQMessageZMQ" where
  "put_message bs m = (case fViewMsg m of None \<Rightarrow> m\<lparr>fMsg := Some bs\<rparr> | Some _ \<Rightarrow> m\<lparr>fViewMsg := Some bs\<rparr>)"

definition GetSize_zmq :: "FairMQMessageZMQ \<Rightarrow> nat outcome" where
  "GetSize_zmq m =
     (if fUsedSizeModified m then Returns (fUsedSize m)
      else case fMsg m of None \<Rightarrow> Undefined | Some bs \<Rightarrow> Returns (length bs))"

definition SetUsedSize_zmq :: "nat \<Rightarrow> FairMQMessageZMQ \<Rightarrow> (bool \<times> FairMQMessageZMQ) outcome" where
  "SetUsedSize_zmq n m =
     (case fMsg m of
        None \<Rightarrow> Undefined
      | Some bs \<Rightarrow> if n \<le> length bs then Returns (True, m\<lparr>fUsedSize := n, fUsedSizeModified := True\<rparr>) else Returns (False, m))"

definition ApplyUsedSize :: "FairMQMessageZMQ \<Rightarrow> FairMQMessageZMQ outcome" where
  "ApplyUsedSize m =
     (if fUsedSizeModified m \<and> fViewMsg m = None
      then (case fMsg m of None \<Rightarrow> Undefined | Some bs \<Rightarrow> Returns (m\<lparr>fViewMsg := Some (take (fUsedSize m) bs), fMsg := None\<rparr>))
      else Returns m)"

definition CloseMessage_zmq :: "FairMQMessageZMQ \<Rightarrow> FairMQMessageZMQ" where
  "CloseMessage_zmq m =
     (case fViewMsg m of None \<Rightarrow> m\<lparr>fMsg := None\<rparr> | Some _ \<Rightarrow> m\<lparr>fViewMsg := None\<rparr>)\<lparr>fUsedSizeModified := False, fUsedSize := 0\<rparr>"

definition Rebuild_zmq :: "byte list \<Rightarrow> FairMQMessageZMQ \<Rightarrow> FairMQMessageZMQ" where
  "Rebuild_zmq bs m = (CloseMessage_zmq m)\<lparr>fMsg := Some bs\<rparr>"

definition Copy_zmq :: "FairMQMessageZMQ \<Rightarrow> FairMQMessageZMQ \<Rightarrow> FairMQMessageZMQ outcome" where
  "Copy_zmq other m =
     (case (fMsg m, GetMessage other) of
        (Some _, Some bs) \<Rightarrow>
          let m = m\<lparr>fMsg := Some bs\<rparr>
          in Returns (if fUsedSizeModified other then m\<lparr>fUsedSizeModified := True, fUsedSize := fUsedSize other\<rparr> else m)
      | _ \<Rightarrow> Undefined)"

section \<open>Transfers\<close>

text \<open>A send also returns what was handed to the library, each part with whether more follow.\<close>

fun zmq_send_loop ::
    "bool \<Rightarrow> int \<Rightarrow> (zmq_error option \<times> bool) list \<Rightarrow> int \<Rightarrow> FairMQMessageZMQ \<Rightarrow> socket_state \<Rightarrow>
     (int \<times> (byte list \<times> bool) list \<times> FairMQMessageZMQ \<times> socket_state) outcome option" where
  "zmq_send_loop dontwait timeout [] elapsed m so = None"
| "zmq_send_loop dontwait timeout ((err, interrupted) # turns) elapsed m so =
     (case GetMessage m of
        None \<Rightarrow> Some Undefined
      | Some bs \<Rightarrow>
          (case err of
             None \<Rightarrow> Some (Returns (int (length bs), [(bs, False)], put_message [] m, count_tx (length bs) so))
           | Some EAGAIN \<Rightarrow>
               (case on_again dontwait timeout (fSndTimeout so) interrupted elapsed of
                  None \<Rightarrow> Some (Returns (-2, [], m, so))
                | Some elapsed' \<Rightarrow> zmq_send_loop dontwait timeout turns elapsed' m so)
           | Some ETERM \<Rightarrow> Some (Returns (-1, [], m, so))
           | Some EOTHER \<Rightarrow> Some (Returns (-1, [], m, so))))"

definition zmq_SendImpl ::
    "bool \<Rightarrow> int \<Rightarrow> (zmq_error option \<times> bool) list \<Rightarrow> FairMQMessageZMQ \<Rightarrow> socket_state \<Rightarrow>
     (int \<times> (byte list \<times> bool) list \<times> FairMQMessageZMQ \<times> socket_state) outcome option" where
  "zmq_SendImpl dontwait timeout turns m so =
     (case ApplyUsedSize m of
        Returns m \<Rightarrow> zmq_send_loop dontwait timeout turns 0 m so
      | Throws e \<Rightarrow> Some (Throws e)
      | Exits \<Rightarrow> Some Exits
      | Undefined \<Rightarrow> Some Undefined)"

fun zmq_ReceiveImpl ::
    "bool \<Rightarrow> int \<Rightarrow> ((zmq_error + byte list) \<times> bool) list \<Rightarrow> int \<Rightarrow> FairMQMessageZMQ \<Rightarrow> socket_state \<Rightarrow>
     (int \<times> FairMQMessageZMQ \<times> socket_state) option" where
  "zmq_ReceiveImpl dontwait timeout [] elapsed m so = None"
| "zmq_ReceiveImpl dontwait timeout ((res, interrupted) # turns) elapsed m so =
     (case res of
        Inr bs \<Rightarrow> Some (int (length bs), put_message bs m, count_rx (length bs) so)
      | Inl EAGAIN \<Rightarrow>
          (case on_again dontwait timeout (fRcvTimeout so) interrupted elapsed of
             None \<Rightarrow> Some (-2, m, so)
           | Some elapsed' \<Rightarrow> zmq_ReceiveImpl dontwait timeout turns elapsed' m so)
      | Inl ETERM \<Rightarrow> Some (-1, m, so)
      | Inl EOTHER \<Rightarrow> Some (-1, m, so))"

text \<open>
  The parts of a vector, in the order of the calls: \<open>dn\<close> are those sent in this pass and \<open>todo\<close> the others. A call
  that would block makes the loop start again at the first part.
\<close>

fun zmq_send_parts ::
    "bool \<Rightarrow> int \<Rightarrow> (zmq_error option \<times> bool) list \<Rightarrow> int \<Rightarrow> FairMQMessageZMQ list \<Rightarrow> FairMQMessageZMQ list \<Rightarrow> nat \<Rightarrow>
     (byte list \<times> bool) list \<Rightarrow> socket_state \<Rightarrow> (int \<times> (byte list \<times> bool) list \<times> FairMQMessageZMQ list \<times> socket_state) outcome option" where
  "zmq_send_parts dontwait timeout turns elapsed dn [] totalSize sent so = Some (Returns (int totalSize, sent, dn, count_tx totalSize so))"
| "zmq_send_parts dontwait timeout [] elapsed dn (m # todo) totalSize sent so = None"
| "zmq_send_parts dontwait timeout ((err, interrupted) # turns) elapsed dn (m # todo) totalSize sent so =
     (case and_then (ApplyUsedSize m) (\<lambda>m. case GetMessage m of None \<Rightarrow> Undefined | Some bs \<Rightarrow> Returns (m, bs)) of
        Returns (m, bs) \<Rightarrow>
          (case err of
             None \<Rightarrow>
               zmq_send_parts dontwait timeout turns elapsed (dn @ [put_message [] m]) todo (totalSize + length bs) (sent @ [(bs, todo \<noteq> [])]) so
           | Some EAGAIN \<Rightarrow>
               (case on_again dontwait timeout (fSndTimeout so) interrupted elapsed of
                  None \<Rightarrow> Some (Returns (-2, sent, dn @ m # todo, so))
                | Some elapsed' \<Rightarrow> zmq_send_parts dontwait timeout turns elapsed' [] (dn @ m # todo) 0 sent so)
           | Some ETERM \<Rightarrow> Some (Returns (-1, sent, dn @ m # todo, so))
           | Some EOTHER \<Rightarrow> Some (Returns (-1, sent, dn @ m # todo, so)))
      | Throws e \<Rightarrow> Some (Throws e)
      | Exits \<Rightarrow> Some Exits
      | Undefined \<Rightarrow> Some Undefined)"

definition zmq_SendImpl_vec ::
    "bool \<Rightarrow> int \<Rightarrow> (zmq_error option \<times> bool) list \<Rightarrow> FairMQMessageZMQ list \<Rightarrow> socket_state \<Rightarrow>
     (int \<times> (byte list \<times> bool) list \<times> FairMQMessageZMQ list \<times> socket_state) outcome option" where
  "zmq_SendImpl_vec dontwait timeout turns ms so =
     (case ms of
        [] \<Rightarrow> Some (Returns (-1, [], [], so))
      | [m] \<Rightarrow> map_option (map_outcome_result (\<lambda>(n, sent, m, so). (n, sent, [m], so))) (zmq_SendImpl dontwait timeout turns m so)
      | _ \<Rightarrow> zmq_send_parts dontwait timeout turns 0 [] ms 0 [] so)"

fun zmq_ReceiveImpl_vec ::
    "bool \<Rightarrow> int \<Rightarrow> ((zmq_error + byte list \<times> bool) \<times> bool) list \<Rightarrow> int \<Rightarrow> FairMQMessageZMQ list \<Rightarrow> nat \<Rightarrow> socket_state \<Rightarrow>
     (int \<times> FairMQMessageZMQ list \<times> socket_state) option" where
  "zmq_ReceiveImpl_vec dontwait timeout [] elapsed ms totalSize so = None"
| "zmq_ReceiveImpl_vec dontwait timeout ((res, interrupted) # turns) elapsed ms totalSize so =
     (case res of
        Inr (bs, again) \<Rightarrow>
          let ms = ms @ [put_message bs FairMQMessageZMQ_empty]; totalSize = totalSize + length bs
          in if again then zmq_ReceiveImpl_vec dontwait timeout turns elapsed ms totalSize so
             else Some (int totalSize, ms, count_rx totalSize so)
      | Inl EAGAIN \<Rightarrow>
          (case on_again dontwait timeout (fRcvTimeout so) interrupted elapsed of
             None \<Rightarrow> Some (-2, ms, so)
           | Some elapsed' \<Rightarrow> zmq_ReceiveImpl_vec dontwait timeout turns elapsed' ms 0 so)
      | Inl ETERM \<Rightarrow> Some (-1, ms, so)
      | Inl EOTHER \<Rightarrow> Some (-1, ms, so))"

section \<open>Multipart messages arrive whole\<close>

text \<open>
  ZeroMQ documents that a multipart message is sent whole or not at all and that sending would block only on
  the first part; here, with \<open>k\<close> parts and \<open>i\<close> of them sent in the present pass.
\<close>

fun blocks_on_first :: "nat \<Rightarrow> nat \<Rightarrow> (zmq_error option \<times> bool) list \<Rightarrow> bool" where
  "blocks_on_first k i [] = True"
| "blocks_on_first k i ((None, _) # turns) = (Suc i < k \<longrightarrow> blocks_on_first k (Suc i) turns)"
| "blocks_on_first k i ((Some e, _) # turns) = (i = 0 \<and> blocks_on_first k 0 turns)"

text \<open>The bytes a message stands for: the part that is used.\<close>

definition payload :: "FairMQMessageZMQ \<Rightarrow> byte list" where
  "payload m =
     (case fViewMsg m of
        Some bs \<Rightarrow> bs
      | None \<Rightarrow> (case fMsg m of Some bs \<Rightarrow> if fUsedSizeModified m then take (fUsedSize m) bs else bs | None \<Rightarrow> []))"

definition message_there :: "FairMQMessageZMQ \<Rightarrow> bool" where
  "message_there m \<longleftrightarrow> fMsg m \<noteq> None \<or> fViewMsg m \<noteq> None"

lemma ApplyUsedSize_payload:
  assumes "message_there m"
  shows "\<exists>m'. ApplyUsedSize m = Returns m' \<and> GetMessage m' = Some (payload m) \<and> payload m' = payload m \<and> message_there m'"
  using assms
  by (cases "fViewMsg m"; cases "fMsg m") (auto simp: ApplyUsedSize_def GetMessage_def payload_def message_there_def)

text \<open>The parts as the library gets them.\<close>

fun framed :: "byte list list \<Rightarrow> (byte list \<times> bool) list" where
  "framed [] = []"
| "framed (bs # bss) = (bs, bss \<noteq> []) # framed bss"

lemma framed_append: "bss \<noteq> [] \<Longrightarrow> framed (ass @ bss) = map (\<lambda>bs. (bs, True)) ass @ framed bss"
  by (induction ass) auto

lemma zmq_send_rest:
  assumes "zmq_send_parts dontwait timeout turns elapsed dn todo totalSize sent so = Some (Returns (n, sent', ms', so'))"
    and "dn \<noteq> []" "blocks_on_first (length dn + length todo) (length dn) turns" "list_all message_there todo"
  shows "sent' = sent @ framed (map payload todo) \<and> n = int (totalSize + sum_list (map (\<lambda>m. length (payload m)) todo)) \<and>
    so' = count_tx (totalSize + sum_list (map (\<lambda>m. length (payload m)) todo)) so"
  using assms
proof (induction todo arbitrary: turns dn totalSize sent)
  case (Cons m todo)
  then obtain err i turns' where t: "turns = (err, i) # turns'" by (cases turns) auto
  have err: "err = None" using Cons.prems(2,3) t by (cases err) auto
  from ApplyUsedSize_payload [of m] Cons.prems(4) obtain m' where m': "ApplyUsedSize m = Returns m'" "GetMessage m' = Some (payload m)" by auto
  have s: "zmq_send_parts dontwait timeout turns' elapsed (dn @ [put_message [] m']) todo (totalSize + length (payload m))
      (sent @ [(payload m, todo \<noteq> [])]) so = Some (Returns (n, sent', ms', so'))"
    using Cons.prems(1) t err m' by simp
  show ?case
  proof (cases todo)
    case Nil
    then show ?thesis using s by simp
  next
    case (Cons m2 todo2)
    have "blocks_on_first (length (dn @ [put_message [] m']) + length todo) (length (dn @ [put_message [] m'])) turns'"
      using Cons.prems(3) t err Cons by simp
    from Cons.IH [OF s _ this] Cons.prems(4) show ?thesis by (simp add: add.assoc)
  qed
qed simp

text \<open>What a send leads to: all parts handed over once and in order, or none and nothing changed.\<close>

definition sent_whole ::
    "FairMQMessageZMQ list \<Rightarrow> socket_state \<Rightarrow> int \<times> (byte list \<times> bool) list \<times> FairMQMessageZMQ list \<times> socket_state \<Rightarrow> bool" where
  "sent_whole ms so res \<longleftrightarrow>
     (let (n, sent, ms', so') = res; size = sum_list (map (\<lambda>m. length (payload m)) ms)
      in if 0 \<le> n then n = int size \<and> sent = framed (map payload ms) \<and> so' = count_tx size so
         else sent = [] \<and> map payload ms' = map payload ms \<and> so' = so)"

lemma zmq_send_parts_whole:
  assumes "zmq_send_parts dontwait timeout turns elapsed [] ms 0 [] so = Some (Returns res)"
    and "ms \<noteq> []" "blocks_on_first (length ms) 0 turns" "list_all message_there ms"
  shows "sent_whole ms so res"
  using assms
proof (induction turns arbitrary: elapsed ms)
  case Nil
  then show ?case by (cases ms) simp_all
next
  case (Cons t turns)
  obtain err i where t: "t = (err, i)" by (cases t)
  obtain m todo where ms: "ms = m # todo" using Cons.prems(2) by (cases ms) auto
  from ApplyUsedSize_payload [of m] Cons.prems(4) ms obtain m' where
    m': "ApplyUsedSize m = Returns m'" "GetMessage m' = Some (payload m)" "payload m' = payload m" "message_there m'" by auto
  have same: "map payload (m' # todo) = map payload ms" "list_all message_there (m' # todo)" using m' Cons.prems(4) ms by simp_all
  show ?case
  proof (cases err)
    case None
    then have s: "zmq_send_parts dontwait timeout turns elapsed [put_message [] m'] todo (length (payload m)) [(payload m, todo \<noteq> [])] so =
        Some (Returns res)" using Cons.prems(1) t ms m' by simp
    obtain n sent ms' so' where res: "res = (n, sent, ms', so')" by (cases res)
    have "sent = (payload m, todo \<noteq> []) # framed (map payload todo) \<and>
        n = int (length (payload m) + sum_list (map (\<lambda>m. length (payload m)) todo)) \<and>
        so' = count_tx (length (payload m) + sum_list (map (\<lambda>m. length (payload m)) todo)) so"
    proof (cases todo)
      case Nil
      then show ?thesis using s res by simp
    next
      case (Cons m2 todo2)
      have "blocks_on_first (length [put_message [] m'] + length todo) (length [put_message [] m']) turns"
        using Cons.prems(3) t None ms Cons by simp
      from zmq_send_rest [OF s [unfolded res] _ this] Cons.prems(4) ms show ?thesis by simp
    qed
    then show ?thesis by (simp add: sent_whole_def res ms)
  next
    case (Some e)
    show ?thesis
    proof (cases "e = EAGAIN \<and> on_again dontwait timeout (fSndTimeout so) i elapsed \<noteq> None")
      case True
      then obtain e' where "zmq_send_parts dontwait timeout turns e' [] (m' # todo) 0 [] so = Some (Returns res)"
        using Cons.prems(1) t ms m' Some by (auto simp del: zmq_send_parts.simps(1) split: option.splits)
      from Cons.IH [OF this] same Cons.prems(3) t Some ms have "sent_whole (m' # todo) so res" by simp
      then show ?thesis using m'(3) by (auto simp: sent_whole_def Let_def ms split: if_splits)
    next
      case False
      then show ?thesis using Cons.prems(1) t ms m' Some same(1)
        by (cases e) (auto simp: sent_whole_def split: option.splits)
    qed
  qed
qed

lemma zmq_SendImpl_whole:
  assumes "zmq_SendImpl dontwait timeout turns m so = Some (Returns (n, sent, m', so'))" "message_there m"
  shows "sent_whole [m] so (n, sent, [m'], so')"
proof -
  from ApplyUsedSize_payload [OF assms(2)] obtain m1 where
    m1: "ApplyUsedSize m = Returns m1" "GetMessage m1 = Some (payload m)" "payload m1 = payload m" by blast
  have "zmq_send_loop dontwait timeout turns elapsed m1 so = Some (Returns (n, sent, m', so')) \<Longrightarrow> ?thesis" for elapsed
    using m1(2,3)
    by (induction turns arbitrary: elapsed) (auto simp: sent_whole_def Let_def split: option.splits zmq_error.splits)
  then show ?thesis using assms(1) m1(1) by (simp add: zmq_SendImpl_def)
qed

lemma zmq_SendImpl_vec_whole:
  assumes "zmq_SendImpl_vec dontwait timeout turns ms so = Some (Returns res)"
    and "list_all message_there ms" "blocks_on_first (length ms) 0 turns" "ms \<noteq> []"
  shows "sent_whole ms so res"
proof (cases "length ms = 1")
  case True
  then obtain m where m: "ms = [m]" by (auto simp: length_Suc_conv)
  then obtain n sent m' so' where "zmq_SendImpl dontwait timeout turns m so = Some (Returns (n, sent, m', so'))" "res = (n, sent, [m'], so')"
    using assms(1) by (auto simp: zmq_SendImpl_vec_def map_outcome_result_def and_then_Returns_iff)
  then show ?thesis using zmq_SendImpl_whole assms(2) m by auto
next
  case False
  then have "zmq_send_parts dontwait timeout turns 0 [] ms 0 [] so = Some (Returns res)"
    using assms(1,4) by (auto simp: zmq_SendImpl_vec_def split: list.splits)
  then show ?thesis using zmq_send_parts_whole assms by blast
qed

lemma zmq_receive_framed:
  assumes "bss \<noteq> []"
  shows "zmq_ReceiveImpl_vec dontwait timeout (map (\<lambda>x. (Inr x, i)) (framed bss) @ turns) elapsed ms n so =
    Some (int (n + sum_list (map length bss)), ms @ map (\<lambda>bs. put_message bs FairMQMessageZMQ_empty) bss, count_rx (n + sum_list (map length bss)) so)"
  using assms
proof (induction bss arbitrary: ms n)
  case (Cons bs bss)
  then show ?case by (cases bss) (simp_all add: add.assoc)
qed simp

section \<open>Transfers with a timeout return\<close>

interpretation zmq_send: retry_loop "\<lambda>turns elapsed. zmq_send_loop dontwait timeout turns elapsed m so" timeout "fSndTimeout so"
  for dontwait timeout m so
  by unfold_locales (auto split: option.splits zmq_error.splits; blast)

interpretation zmq_receive: retry_loop "\<lambda>turns elapsed. zmq_ReceiveImpl dontwait timeout turns elapsed m so" timeout "fRcvTimeout so"
  for dontwait timeout m so
  by unfold_locales (auto split: option.splits sum.splits zmq_error.splits; blast)

lemma zmq_SendImpl_returns:
  assumes "attempts_left timeout (fSndTimeout so) 0 \<le> length turns" "0 < timeout" "0 < fSndTimeout so"
  shows "\<exists>res. zmq_SendImpl dontwait timeout turns m so = Some res"
  using zmq_send.returns [OF assms] by (cases "ApplyUsedSize m") (auto simp: zmq_SendImpl_def)

text \<open>Each pass over the parts makes at most one call for each.\<close>

lemma zmq_send_parts_returns:
  assumes "(attempts_left timeout (fSndTimeout so) elapsed - 1) * (length dn + length todo) + length todo \<le> length turns"
    and "0 < timeout" "0 < fSndTimeout so"
  shows "\<exists>res. zmq_send_parts dontwait timeout turns elapsed dn todo totalSize sent so = Some res"
  using assms(1)
proof (induction turns arbitrary: elapsed dn todo totalSize sent)
  case Nil
  then show ?case by simp
next
  case (Cons t turns)
  obtain err i where t: "t = (err, i)" by (cases t)
  show ?case
  proof (cases todo)
    case (Cons m rest)
    have ok: "\<exists>res. zmq_send_parts dontwait timeout turns elapsed (dn @ [m']) rest k s so = Some res" for m' k s
      using Cons.IH [of elapsed "dn @ [m']" rest] Cons.prems Cons by simp
    have again: "\<exists>res. zmq_send_parts dontwait timeout turns e' [] (dn @ m' # rest) 0 sent so = Some res"
      if "on_again dontwait timeout (fSndTimeout so) i elapsed = Some e'" for e' m'
    proof -
      let ?a = "attempts_left timeout (fSndTimeout so)" and ?k = "length dn + length todo"
      have "Suc (?a e' - 1) \<le> ?a elapsed - 1"
        using on_again_attempts [OF that assms(2,3)] unfolding attempts_left_def by linarith
      then have "Suc (?a e' - 1) * ?k \<le> (?a elapsed - 1) * ?k" by (rule mult_le_mono1)
      then have "(?a e' - 1) * ?k + ?k \<le> length turns" using Cons.prems Cons by simp
      then show ?thesis using Cons.IH [of e' "[]" "dn @ m' # rest"] Cons by simp
    qed
    show ?thesis using ok again unfolding Cons t
      by (auto split: outcome.splits option.splits zmq_error.splits)
  qed simp
qed

lemma zmq_SendImpl_vec_returns:
  assumes "attempts_left timeout (fSndTimeout so) 0 * length ms \<le> length turns" "0 < timeout" "0 < fSndTimeout so"
  shows "\<exists>res. zmq_SendImpl_vec dontwait timeout turns ms so = Some res"
proof -
  have "(attempts_left timeout (fSndTimeout so) 0 - 1) * length ms + length ms \<le> length turns"
    using assms(1) by (simp add: attempts_left_def)
  then show ?thesis
    using zmq_send_parts_returns [of timeout so 0 "[]" ms turns dontwait 0 "[]"] zmq_SendImpl_returns [of timeout so turns dontwait] assms
    by (auto simp: zmq_SendImpl_vec_def split: list.splits)
qed

section \<open>Properties\<close>


definition two_parts :: "FairMQMessageZMQ list" where
  "two_parts = [(FairMQMessageZMQ_data [1, 2, 3])\<lparr>fUsedSizeModified := True, fUsedSize := 2\<rparr>, FairMQMessageZMQ_data [4]]"


end
