(* ===== verification/Nn_Sockets.thy ===== *)
theory Nn_Sockets
  imports Socket_State
begin

text \<open>
  Messages and sockets of the nanomsg transport, \<open>fairmq/nanomsg/FairMQMessageNN.{h,cxx}\<close>,
  \<open>FairMQUnmanagedRegionNN.{h,cxx}\<close> and \<open>FairMQSocketNN.{h,cxx}\<close>. A message holds a buffer of the nanomsg
  library or a place in a region of the user; the state has the buffers that are allocated and the calls that
  the callbacks of regions received. The library is an argument: where a new buffer is placed (\<open>None\<close> when there
  is no memory), and what its calls give, each with the state of \<open>fInterrupted\<close> when it is looked at. Its
  documentation says that a send of a buffer takes the buffer over when it succeeds, that only buffers of the library
  may be freed, and that a send or receive returns the size, which fits an \<open>int\<close>, or -1. Freeing anything else, or
  reading through a pointer to a buffer that is gone, is \<open>Undefined\<close>. The library msgpack, which packs the parts
  of a multipart message into one buffer, is an argument too; the locale \<open>msgpack_bin\<close> states its contract.
\<close>

section \<open>Buffers and messages\<close>

datatype nn_pointer = Buffer nat | User nat

record nn_memory =
  nn_buffers :: "(nat \<times> byte list) list"
  user_bytes :: "nat \<Rightarrow> byte"
  region_calls :: "(nat \<times> nn_pointer option \<times> nat \<times> nat) list"

record FairMQMessageNN =
  fMessage :: "nn_pointer option"
  fSize :: nat
  fHint :: nat
  fReceiving :: bool
  fRegionPtr :: "nat option"

definition nn_allocmsg :: "nat option \<Rightarrow> byte list \<Rightarrow> nn_memory \<Rightarrow> nn_pointer option \<times> nn_memory" where
  "nn_allocmsg place bs h =
     (case place of
        None \<Rightarrow> (None, h)
      | Some i \<Rightarrow> (Some (Buffer i), h\<lparr>nn_buffers := nn_buffers h @ [(i, bs)]\<rparr>))"

definition nn_freemsg :: "nn_pointer option \<Rightarrow> nn_memory \<Rightarrow> nn_memory outcome" where
  "nn_freemsg p h =
     (case p of
        Some (Buffer i) \<Rightarrow>
          if i \<in> fst ` set (nn_buffers h) then Returns (h\<lparr>nn_buffers := filter (\<lambda>(j, _). j \<noteq> i) (nn_buffers h)\<rparr>)
          else Undefined
      | _ \<Rightarrow> Undefined)"

text \<open>Cutting a buffer to a smaller size leaves it in place.\<close>

definition nn_reallocmsg :: "nn_pointer option \<Rightarrow> nat \<Rightarrow> nn_memory \<Rightarrow> nn_memory outcome" where
  "nn_reallocmsg p n h =
     (case p of
        Some (Buffer i) \<Rightarrow>
          if i \<in> fst ` set (nn_buffers h)
          then Returns (h\<lparr>nn_buffers := map (\<lambda>(j, bs). (j, if j = i then take n bs else bs)) (nn_buffers h)\<rparr>)
          else Undefined
      | _ \<Rightarrow> Undefined)"

text \<open>The first \<open>n\<close> bytes at an address.\<close>

definition bytes_at :: "nn_memory \<Rightarrow> nn_pointer option \<Rightarrow> nat \<Rightarrow> byte list outcome" where
  "bytes_at h p n =
     (case p of
        None \<Rightarrow> if n = 0 then Returns [] else Undefined
      | Some (User a) \<Rightarrow> Returns (map (user_bytes h) [a..<a + n])
      | Some (Buffer i) \<Rightarrow>
          (case map_of (nn_buffers h) i of
             None \<Rightarrow> Undefined
           | Some bs \<Rightarrow> if n \<le> length bs then Returns (take n bs) else Undefined))"

text \<open>
  The constructors. \<open>bs\<close> is what a new buffer holds: whatever was in the memory, or a copy of the data, which
  is then freed or given to the caller's function.
\<close>

definition FairMQMessageNN_empty :: "nat option \<Rightarrow> nn_memory \<Rightarrow> FairMQMessageNN \<times> nn_memory" where
  "FairMQMessageNN_empty place h =
     (let (p, h) = nn_allocmsg place [] h
      in (\<lparr>fMessage = p, fSize = 0, fHint = 0, fReceiving = False, fRegionPtr = None\<rparr>, h))"

definition FairMQMessageNN_size :: "nat option \<Rightarrow> byte list \<Rightarrow> nn_memory \<Rightarrow> FairMQMessageNN \<times> nn_memory" where
  "FairMQMessageNN_size place bs h =
     (let (p, h) = nn_allocmsg place bs h
      in (\<lparr>fMessage = p, fSize = length bs, fHint = 0, fReceiving = False, fRegionPtr = None\<rparr>, h))"

text \<open>The last component tells whether the caller's data was freed.\<close>

definition FairMQMessageNN_data ::
    "nat option \<Rightarrow> byte list \<Rightarrow> bool \<Rightarrow> nn_memory \<Rightarrow> FairMQMessageNN \<times> nn_memory \<times> bool" where
  "FairMQMessageNN_data place bs ffn h =
     (let (p, h) = nn_allocmsg place bs h
      in if p = None
         then (\<lparr>fMessage = p, fSize = 0, fHint = 0, fReceiving = False, fRegionPtr = None\<rparr>, h, False)
         else (\<lparr>fMessage = p, fSize = length bs, fHint = 0, fReceiving = False, fRegionPtr = None\<rparr>, h, True))"

definition FairMQMessageNN_region :: "nat \<Rightarrow> nat \<Rightarrow> nat \<Rightarrow> nat \<Rightarrow> FairMQMessageNN" where
  "FairMQMessageNN_region region a n hint =
     \<lparr>fMessage = Some (User a), fSize = n, fHint = hint, fReceiving = False, fRegionPtr = Some region\<rparr>"

definition CloseMessage_nn :: "FairMQMessageNN \<Rightarrow> nn_memory \<Rightarrow> (FairMQMessageNN \<times> nn_memory) outcome" where
  "CloseMessage_nn m h = and_then (nn_freemsg (fMessage m) h) (\<lambda>h. Returns (m\<lparr>fMessage := None, fSize := 0\<rparr>, h))"

definition Rebuild_nn :: "FairMQMessageNN \<Rightarrow> nn_memory \<Rightarrow> (FairMQMessageNN \<times> nn_memory) outcome" where
  "Rebuild_nn m h = and_then (CloseMessage_nn m h) (\<lambda>(m, h). Returns (m\<lparr>fReceiving := False\<rparr>, h))"

definition Rebuild_size_nn ::
    "nat option \<Rightarrow> byte list \<Rightarrow> FairMQMessageNN \<Rightarrow> nn_memory \<Rightarrow> (FairMQMessageNN \<times> nn_memory) outcome" where
  "Rebuild_size_nn place bs m h =
     and_then (CloseMessage_nn m h)
       (\<lambda>(m, h). let (p, h) = nn_allocmsg place bs h
                 in Returns (m\<lparr>fMessage := p, fSize := length bs, fReceiving := False\<rparr>, h))"

definition Rebuild_data_nn ::
    "nat option \<Rightarrow> byte list \<Rightarrow> bool \<Rightarrow> FairMQMessageNN \<Rightarrow> nn_memory \<Rightarrow> (FairMQMessageNN \<times> nn_memory \<times> bool) outcome" where
  "Rebuild_data_nn place bs ffn m h =
     and_then (CloseMessage_nn m h)
       (\<lambda>(m, h). let (p, h) = nn_allocmsg place bs h
                 in if p = None then Returns (m\<lparr>fMessage := p\<rparr>, h, False)
                    else Returns (m\<lparr>fMessage := p, fSize := length bs, fReceiving := False\<rparr>, h, ffn))"

definition SetUsedSize_nn :: "nat \<Rightarrow> FairMQMessageNN \<Rightarrow> nn_memory \<Rightarrow> (bool \<times> FairMQMessageNN \<times> nn_memory) outcome" where
  "SetUsedSize_nn n m h =
     (if n \<le> fSize m
      then and_then (nn_reallocmsg (fMessage m) n h) (\<lambda>h. Returns (True, m\<lparr>fSize := n\<rparr>, h))
      else Returns (False, m, h))"

definition SetMessage_nn :: "nn_pointer option \<Rightarrow> nat \<Rightarrow> FairMQMessageNN \<Rightarrow> FairMQMessageNN" where
  "SetMessage_nn p n m = m\<lparr>fMessage := p, fSize := n\<rparr>"

definition Copy_nn ::
    "nat option \<Rightarrow> FairMQMessageNN \<Rightarrow> FairMQMessageNN \<Rightarrow> nn_memory \<Rightarrow> (FairMQMessageNN \<times> nn_memory) outcome" where
  "Copy_nn place other m h =
     and_then (if fMessage m = None then Returns h else nn_freemsg (fMessage m) h)
       (\<lambda>h. if place = None then Returns (m\<lparr>fMessage := None\<rparr>, h)
            else and_then (bytes_at h (fMessage other) (fSize other))
              (\<lambda>bs. let (p, h) = nn_allocmsg place bs h in Returns (m\<lparr>fMessage := p, fSize := fSize other\<rparr>, h)))"

definition destroy_nn :: "FairMQMessageNN \<Rightarrow> nn_memory \<Rightarrow> nn_memory outcome" where
  "destroy_nn m h = (if fReceiving m then map_outcome_result snd (CloseMessage_nn m h) else Returns h)"

section \<open>Transfers\<close>

datatype nn_error = NN_ETIMEDOUT | NN_EAGAIN | NN_ETERM | NN_EOTHER

text \<open>
  What follows a call that failed: return a value (\<open>Inl\<close>) or go on with the time elapsed (\<open>Inr\<close>). \<open>recent\<close> is
  \<open>NN_VERSION_CURRENT > 2\<close>, which decides by which error the library says that the timeout of the call is over.
\<close>

definition nn_failed :: "bool \<Rightarrow> bool \<Rightarrow> int \<Rightarrow> int \<Rightarrow> bool \<Rightarrow> int \<Rightarrow> nn_error \<Rightarrow> int + int" where
  "nn_failed recent dontwait timeout step interrupted elapsed err =
     (if err = (if recent then NN_ETIMEDOUT else NN_EAGAIN)
      then case on_again dontwait timeout step interrupted elapsed of None \<Rightarrow> Inl (-2) | Some elapsed' \<Rightarrow> Inr elapsed'
      else if err = NN_EAGAIN then Inl (-2)
      else if err = NN_ETERM then Inl (-1)
      else Inl (-1))"

text \<open>
  One turn of the loop of \<open>SendImpl\<close> up to the test of the result: the call, and the call of the region's
  callback. The library refuses a null pointer.
\<close>

definition call_region :: "nat \<Rightarrow> FairMQMessageNN \<Rightarrow> nn_memory \<Rightarrow> nn_memory" where
  "call_region region m h = h\<lparr>region_calls := region_calls h @ [(region, fMessage m, fSize m, fHint m)]\<rparr>"

definition nn_send_message ::
    "nn_error option \<Rightarrow> FairMQMessageNN \<Rightarrow> nn_memory \<Rightarrow> ((nn_error + byte list) \<times> nn_memory) outcome" where
  "nn_send_message err m h =
     (case fRegionPtr m of
        None \<Rightarrow>
          (case fMessage m of
             None \<Rightarrow> Returns (Inl NN_EOTHER, h)
           | Some (User a) \<Rightarrow> Undefined
           | Some (Buffer i) \<Rightarrow>
               (case map_of (nn_buffers h) i of
                  None \<Rightarrow> Undefined
                | Some bs \<Rightarrow>
                    (case err of
                       Some e \<Rightarrow> Returns (Inl e, h)
                     | None \<Rightarrow> Returns (Inr bs, h\<lparr>nn_buffers := filter (\<lambda>(j, _). j \<noteq> i) (nn_buffers h)\<rparr>))))
      | Some region \<Rightarrow>
          and_then (bytes_at h (fMessage m) (fSize m))
            (\<lambda>bs. Returns (case err of Some e \<Rightarrow> Inl e | None \<Rightarrow> Inr bs, call_region region m h)))"

text \<open>A send also returns what the library took, as a list of at most one message.\<close>

fun nn_SendImpl ::
    "bool \<Rightarrow> bool \<Rightarrow> int \<Rightarrow> (nn_error option \<times> bool) list \<Rightarrow> int \<Rightarrow> FairMQMessageNN \<Rightarrow> socket_state \<Rightarrow> nn_memory \<Rightarrow>
     (int \<times> byte list list \<times> FairMQMessageNN \<times> socket_state \<times> nn_memory) outcome option" where
  "nn_SendImpl recent dontwait timeout [] elapsed m so h = None"
| "nn_SendImpl recent dontwait timeout ((err, interrupted) # turns) elapsed m so h =
     (case nn_send_message err m h of
        Returns (Inr bs, h) \<Rightarrow> Some (Returns (int (length bs), [bs], m\<lparr>fReceiving := False\<rparr>, count_tx (length bs) so, h))
      | Returns (Inl e, h) \<Rightarrow>
          (case nn_failed recent dontwait timeout (fSndTimeout so) interrupted elapsed e of
             Inl n \<Rightarrow> Some (Returns (n, [], m, so, h))
           | Inr elapsed' \<Rightarrow> nn_SendImpl recent dontwait timeout turns elapsed' m so h)
      | Throws e \<Rightarrow> Some (Throws e)
      | Exits \<Rightarrow> Some Exits
      | Undefined \<Rightarrow> Some Undefined)"

text \<open>A message that is received is a new buffer of the library, at the place that the answer names.\<close>

fun nn_ReceiveImpl ::
    "bool \<Rightarrow> bool \<Rightarrow> int \<Rightarrow> ((nn_error + nat \<times> byte list) \<times> bool) list \<Rightarrow> int \<Rightarrow> FairMQMessageNN \<Rightarrow> socket_state \<Rightarrow> nn_memory \<Rightarrow>
     (int \<times> FairMQMessageNN \<times> socket_state \<times> nn_memory) option" where
  "nn_ReceiveImpl recent dontwait timeout [] elapsed m so h = None"
| "nn_ReceiveImpl recent dontwait timeout ((res, interrupted) # turns) elapsed m so h =
     (case res of
        Inr (i, bs) \<Rightarrow>
          (let (p, h) = nn_allocmsg (Some i) bs h
           in Some (int (length bs), (SetMessage_nn p (length bs) m)\<lparr>fReceiving := True\<rparr>, count_rx (length bs) so, h))
      | Inl e \<Rightarrow>
          (case nn_failed recent dontwait timeout (fRcvTimeout so) interrupted elapsed e of
             Inl n \<Rightarrow> Some (n, m, so, h)
           | Inr elapsed' \<Rightarrow> nn_ReceiveImpl recent dontwait timeout turns elapsed' m so h))"

subsection \<open>Multipart messages\<close>

text \<open>
  Packing a part writes a header for a size of 32 bits and that many bytes of the part, and calls the callback of
  its region. The parts lose the mark that they are to be freed.
\<close>

fun nn_pack ::
    "(32 word \<Rightarrow> byte list) \<Rightarrow> FairMQMessageNN list \<Rightarrow> nn_memory \<Rightarrow> (byte list \<times> FairMQMessageNN list \<times> nn_memory) outcome" where
  "nn_pack pack_bin [] h = Returns ([], [], h)"
| "nn_pack pack_bin (m # ms) h =
     (let m = m\<lparr>fReceiving := False\<rparr>; n = of_nat (fSize m)
      in and_then (bytes_at h (fMessage m) (unat n))
           (\<lambda>body.
              let h = (case fRegionPtr m of None \<Rightarrow> h | Some region \<Rightarrow> call_region region m h)
              in map_outcome_result (\<lambda>(sbuf, ms, h). (pack_bin n @ body @ sbuf, m # ms, h)) (nn_pack pack_bin ms h)))"

fun nn_send_packed ::
    "bool \<Rightarrow> bool \<Rightarrow> int \<Rightarrow> (nn_error option \<times> bool) list \<Rightarrow> int \<Rightarrow> byte list \<Rightarrow> socket_state \<Rightarrow>
     (int \<times> byte list list \<times> socket_state) option" where
  "nn_send_packed recent dontwait timeout [] elapsed sbuf so = None"
| "nn_send_packed recent dontwait timeout ((err, interrupted) # turns) elapsed sbuf so =
     (case err of
        None \<Rightarrow> Some (int (length sbuf), [sbuf], count_tx (length sbuf) so)
      | Some e \<Rightarrow>
          (case nn_failed recent dontwait timeout (fSndTimeout so) interrupted elapsed e of
             Inl n \<Rightarrow> Some (n, [], so)
           | Inr elapsed' \<Rightarrow> nn_send_packed recent dontwait timeout turns elapsed' sbuf so))"

definition nn_SendImpl_vec ::
    "(32 word \<Rightarrow> byte list) \<Rightarrow> bool \<Rightarrow> bool \<Rightarrow> int \<Rightarrow> (nn_error option \<times> bool) list \<Rightarrow> FairMQMessageNN list \<Rightarrow> socket_state \<Rightarrow> nn_memory \<Rightarrow>
     (int \<times> byte list list \<times> FairMQMessageNN list \<times> socket_state \<times> nn_memory) outcome option" where
  "nn_SendImpl_vec pack_bin recent dontwait timeout turns ms so h =
     (case nn_pack pack_bin ms h of
        Returns (sbuf, ms, h) \<Rightarrow>
          map_option (\<lambda>(n, sent, so). Returns (n, sent, ms, so, h)) (nn_send_packed recent dontwait timeout turns 0 sbuf so)
      | Throws e \<Rightarrow> Some (Throws e)
      | Exits \<Rightarrow> Some Exits
      | Undefined \<Rightarrow> Some Undefined)"

text \<open>
  Unpacking goes on until the offset is the end of the buffer. Each part becomes a message, at the places given;
  copying into a message that has no buffer is undefined.
\<close>

fun nn_unpack_parts ::
    "(byte list \<Rightarrow> nat \<Rightarrow> (byte list \<times> nat) outcome) \<Rightarrow> byte list \<Rightarrow> nat option list \<Rightarrow> nat \<Rightarrow> FairMQMessageNN list \<Rightarrow> nn_memory \<Rightarrow>
     (FairMQMessageNN list \<times> nn_memory) outcome option" where
  "nn_unpack_parts unpack buf places offset ms h =
     (if offset = length buf then Some (Returns (ms, h))
      else case unpack buf offset of
             Returns (body, offset') \<Rightarrow>
               (case places of
                  [] \<Rightarrow> None
                | place # places' \<Rightarrow>
                    (let (m, h) = FairMQMessageNN_size place body h
                     in if fMessage m = None then Some Undefined
                        else nn_unpack_parts unpack buf places' offset' (ms @ [m\<lparr>fReceiving := True\<rparr>]) h))
           | Throws e \<Rightarrow> Some (Throws e)
           | Exits \<Rightarrow> Some Exits
           | Undefined \<Rightarrow> Some Undefined)"

definition nn_take_parts ::
    "(byte list \<Rightarrow> nat \<Rightarrow> (byte list \<times> nat) outcome) \<Rightarrow> nat option list \<Rightarrow> nat \<Rightarrow> byte list \<Rightarrow> FairMQMessageNN list \<Rightarrow> nn_memory \<Rightarrow>
     (FairMQMessageNN list \<times> nn_memory) outcome option" where
  "nn_take_parts unpack places i buf ms h =
     (let (p, h) = nn_allocmsg (Some i) buf h
      in map_option (\<lambda>r. and_then r (\<lambda>(ms, h). map_outcome_result (\<lambda>h. (ms, h)) (nn_freemsg p h)))
           (nn_unpack_parts unpack buf places 0 ms h))"

fun nn_ReceiveImpl_vec ::
    "(byte list \<Rightarrow> nat \<Rightarrow> (byte list \<times> nat) outcome) \<Rightarrow> nat option list \<Rightarrow> bool \<Rightarrow> bool \<Rightarrow> int \<Rightarrow>
     ((nn_error + nat \<times> byte list) \<times> bool) list \<Rightarrow> int \<Rightarrow> FairMQMessageNN list \<Rightarrow> socket_state \<Rightarrow> nn_memory \<Rightarrow>
     (int \<times> FairMQMessageNN list \<times> socket_state \<times> nn_memory) outcome option" where
  "nn_ReceiveImpl_vec unpack places recent dontwait timeout [] elapsed ms so h = None"
| "nn_ReceiveImpl_vec unpack places recent dontwait timeout ((res, interrupted) # turns) elapsed ms so h =
     (case res of
        Inr (i, buf) \<Rightarrow>
          map_option (map_outcome_result (\<lambda>(ms, h). (int (length buf), ms, count_rx (length buf) so, h)))
            (nn_take_parts unpack places i buf ms h)
      | Inl e \<Rightarrow>
          (case nn_failed recent dontwait timeout (fRcvTimeout so) interrupted elapsed e of
             Inl n \<Rightarrow> Some (Returns (n, ms, so, h))
           | Inr elapsed' \<Rightarrow> nn_ReceiveImpl_vec unpack places recent dontwait timeout turns elapsed' ms so h))"

section \<open>Options\<close>

definition SetSendTimeout_nn :: "bool \<Rightarrow> int \<Rightarrow> socket_state \<Rightarrow> bool \<times> socket_state" where
  "SetSendTimeout_nn ok timeout so = (ok, so\<lparr>fSndTimeout := timeout\<rparr>)"

definition SetReceiveTimeout_nn :: "bool \<Rightarrow> int \<Rightarrow> socket_state \<Rightarrow> bool \<times> socket_state" where
  "SetReceiveTimeout_nn ok timeout so = (ok, so\<lparr>fRcvTimeout := timeout\<rparr>)"

datatype nn_constant =
    NN_NONE | NN_SUB | NN_PUB | NN_PUSH | NN_PULL | NN_REQ | NN_REP | NN_PAIR
  | NN_SNDBUF | NN_RCVBUF | NN_LINGER | NN_DONTWAIT

definition GetConstant_nn :: "string \<Rightarrow> nn_constant option" where
  "GetConstant_nn c = map_of
     [('''', NN_NONE), (''sub'', NN_SUB), (''pub'', NN_PUB), (''xsub'', NN_SUB), (''xpub'', NN_PUB), (''push'', NN_PUSH),
      (''pull'', NN_PULL), (''req'', NN_REQ), (''rep'', NN_REP), (''dealer'', NN_REQ), (''router'', NN_REP),
      (''pair'', NN_PAIR), (''snd-hwm'', NN_SNDBUF), (''rcv-hwm'', NN_RCVBUF), (''snd-size'', NN_SNDBUF),
      (''rcv-size'', NN_RCVBUF), (''linger'', NN_LINGER), (''no-block'', NN_DONTWAIT)] c"

text \<open>The call that setting an option makes, if it makes one; an unknown option is passed on as -1.\<close>

definition SetOption_nn :: "string \<Rightarrow> int \<Rightarrow> nn_constant option option" where
  "SetOption_nn option val =
     (if (option = ''snd-size'' \<or> option = ''rcv-size'') \<and> val \<le> 0 then None
      else if option = ''snd-hwm'' \<or> option = ''rcv-hwm'' then None
      else Some (GetConstant_nn option))"

section \<open>Transfers with a timeout return\<close>

lemma nn_failed_goes_on:
  "nn_failed recent dontwait timeout step interrupted elapsed e = Inr elapsed' \<Longrightarrow>
   on_again dontwait timeout step interrupted elapsed = Some elapsed'"
  by (auto simp: nn_failed_def split: if_splits option.splits)

interpretation nn_send: stateful_retry_loop
    "\<lambda>turns elapsed. nn_SendImpl recent dontwait timeout turns elapsed m so" timeout "fSndTimeout so"
  for recent dontwait timeout m so
proof unfold_locales
  fix t :: "nn_error option \<times> bool" and turns elapsed h
  obtain err i where t: "t = (err, i)" by (cases t)
  assume "nn_SendImpl recent dontwait timeout (t # turns) elapsed m so h = None"
  then obtain e h' elapsed' where
    "nn_failed recent dontwait timeout (fSndTimeout so) i elapsed e = Inr elapsed'" "nn_SendImpl recent dontwait timeout turns elapsed' m so h' = None"
    by (auto simp: t split: outcome.splits sum.splits)
  then show "\<exists>dw i elapsed' h'. on_again dw timeout (fSndTimeout so) i elapsed = Some elapsed' \<and>
      nn_SendImpl recent dontwait timeout turns elapsed' m so h' = None"
    using nn_failed_goes_on by blast
qed

interpretation nn_receive: retry_loop
    "\<lambda>turns elapsed. nn_ReceiveImpl recent dontwait timeout turns elapsed m so h" timeout "fRcvTimeout so"
  for recent dontwait timeout m so h
  by unfold_locales (auto simp: Let_def dest!: nn_failed_goes_on split: sum.splits prod.splits; blast)

interpretation nn_packed: retry_loop
    "\<lambda>turns elapsed. nn_send_packed recent dontwait timeout turns elapsed sbuf so" timeout "fSndTimeout so"
  for recent dontwait timeout sbuf so
  by unfold_locales (auto dest!: nn_failed_goes_on split: option.splits sum.splits; blast)

lemma nn_SendImpl_vec_returns:
  assumes "attempts_left timeout (fSndTimeout so) 0 \<le> length turns" "0 < timeout" "0 < fSndTimeout so"
  shows "\<exists>res. nn_SendImpl_vec pack_bin recent dontwait timeout turns ms so h = Some res"
  using nn_packed.returns [OF assms] by (fastforce simp: nn_SendImpl_vec_def split: outcome.splits)

section \<open>Multipart messages arrive with their parts\<close>

text \<open>
  What the sockets rely on in msgpack: the parts that follow each other in a buffer are read back one by one,
  each with the offset of the next.
\<close>

locale msgpack_bin =
  fixes pack_bin :: "32 word \<Rightarrow> byte list" and unpack :: "byte list \<Rightarrow> nat \<Rightarrow> (byte list \<times> nat) outcome"
  assumes header_nonempty: "pack_bin n \<noteq> []"
    and unpack_packed: "length body < 2 ^ 32 \<Longrightarrow>
      unpack (front @ pack_bin (of_nat (length body)) @ body @ rest) (length front) =
        Returns (body, length (front @ pack_bin (of_nat (length body)) @ body))"

definition packed :: "(32 word \<Rightarrow> byte list) \<Rightarrow> byte list list \<Rightarrow> byte list" where
  "packed pack_bin bodies = concat (map (\<lambda>body. pack_bin (of_nat (length body)) @ body) bodies)"

text \<open>What a message holds, and the message that a part of a multipart message becomes.\<close>

definition holds :: "nn_memory \<Rightarrow> FairMQMessageNN \<Rightarrow> byte list \<Rightarrow> bool" where
  "holds h m bs \<longleftrightarrow> bytes_at h (fMessage m) (fSize m) = Returns bs"

definition received_nn :: "nat \<Rightarrow> byte list \<Rightarrow> FairMQMessageNN" where
  "received_nn i bs = \<lparr>fMessage = Some (Buffer i), fSize = length bs, fHint = 0, fReceiving = True, fRegionPtr = None\<rparr>"

lemma received_nn_simps [simp]:
  "fMessage (received_nn i bs) = Some (Buffer i)" "fSize (received_nn i bs) = length bs" "fReceiving (received_nn i bs)"
  "(received_nn i bs)\<lparr>fReceiving := True\<rparr> = received_nn i bs"
  by (simp_all add: received_nn_def)

lemma bytes_at_length: "bytes_at h p n = Returns bs \<Longrightarrow> length bs = n"
  by (auto simp: bytes_at_def split: option.splits nn_pointer.splits if_splits)

lemma bytes_at_cong: "nn_buffers h = nn_buffers h' \<Longrightarrow> user_bytes h = user_bytes h' \<Longrightarrow> bytes_at h = bytes_at h'"
  by (auto simp: bytes_at_def fun_eq_iff split: option.splits nn_pointer.splits)

lemma call_region_same [simp]:
  "nn_buffers (call_region r m h) = nn_buffers h" "user_bytes (call_region r m h) = user_bytes h"
  "bytes_at (call_region r m h) = bytes_at h" "holds (call_region r m h) = holds h"
  by (simp_all add: call_region_def bytes_at_cong [of "h\<lparr>region_calls := region_calls h @ [(r, fMessage m, fSize m, fHint m)]\<rparr>" h] holds_def fun_eq_iff)

lemma nn_pack_Returns:
  assumes "list_all2 (holds h) ms bodies" "\<forall>body\<in>set bodies. length body < 2 ^ 32"
  shows "\<exists>h'. nn_pack pack_bin ms h = Returns (packed pack_bin bodies, map (fReceiving_update (\<lambda>_. False)) ms, h')"
  using assms
proof (induction ms arbitrary: h bodies)
  case Nil
  then show ?case by (simp add: packed_def)
next
  case (Cons m ms)
  then obtain body bodies' where b: "bodies = body # bodies'" "holds h m body" "list_all2 (holds h) ms bodies'" by (auto simp: list_all2_Cons1)
  then have l: "length body = fSize m" using bytes_at_length by (auto simp: holds_def)
  then have u: "unat (of_nat (fSize m) :: 32 word) = fSize m" using Cons.prems(2) b(1) by (simp add: unsigned_of_nat take_bit_nat_eq_self)
  define h1 where "h1 = (case fRegionPtr m of None \<Rightarrow> h | Some region \<Rightarrow> call_region region (m\<lparr>fReceiving := False\<rparr>) h)"
  have "list_all2 (holds h1) ms bodies'" using b(3) by (simp add: h1_def split: option.splits)
  moreover have "\<forall>body\<in>set bodies'. length body < 2 ^ 32" using Cons.prems(2) b(1) by simp
  ultimately obtain h' where
    "nn_pack pack_bin ms h1 = Returns (packed pack_bin bodies', map (fReceiving_update (\<lambda>_. False)) ms, h')"
    using Cons.IH by blast
  then show ?case using b u l by (simp add: holds_def h1_def packed_def Let_def map_outcome_result_def)
qed

lemma nn_send_packed_sent:
  "nn_send_packed recent dontwait timeout turns elapsed sbuf so = Some (n, sent, so') \<Longrightarrow> sent \<noteq> [] \<Longrightarrow>
   n = int (length sbuf) \<and> sent = [sbuf] \<and> so' = count_tx (length sbuf) so"
  by (induction recent dontwait timeout turns elapsed sbuf so rule: nn_send_packed.induct)
    (auto split: option.splits sum.splits)

lemma nn_SendImpl_vec_sent:
  assumes "list_all2 (holds h) ms bodies" "\<forall>body\<in>set bodies. length body < 2 ^ 32"
    and "nn_SendImpl_vec pack_bin recent dontwait timeout turns ms so h = Some (Returns (n, sent, ms', so', h'))" "sent \<noteq> []"
  shows "n = int (length (packed pack_bin bodies)) \<and> sent = [packed pack_bin bodies] \<and> so' = count_tx (length (packed pack_bin bodies)) so"
  using nn_pack_Returns [OF assms(1,2), of pack_bin] assms(3,4)
  by (auto simp: nn_SendImpl_vec_def dest: nn_send_packed_sent)

context msgpack_bin
begin

lemma unpack_parts:
  assumes "length pl = length bodies" "\<forall>body\<in>set bodies. length body < 2 ^ 32"
  shows "nn_unpack_parts unpack (front @ packed pack_bin bodies) (map Some pl) (length front) ms h =
    Some (Returns (ms @ map2 received_nn pl bodies, h\<lparr>nn_buffers := nn_buffers h @ zip pl bodies\<rparr>))"
  using assms
proof (induction pl bodies arbitrary: front ms h rule: list_induct2)
  case Nil
  then show ?case by (simp add: packed_def)
next
  case (Cons i pl body bodies)
  let ?p = "pack_bin (of_nat (length body)) @ body"
  have u: "unpack (front @ packed pack_bin (body # bodies)) (length front) = Returns (body, length (front @ ?p))"
    using unpack_packed [of body front "packed pack_bin bodies"] Cons.prems by (simp add: packed_def)
  have n: "length front \<noteq> length (front @ packed pack_bin (body # bodies))"
    using header_nonempty by (simp add: packed_def)
  have s: "FairMQMessageNN_size (Some i) body h = ((received_nn i body)\<lparr>fReceiving := False\<rparr>, h\<lparr>nn_buffers := nn_buffers h @ [(i, body)]\<rparr>)"
    by (simp add: FairMQMessageNN_size_def nn_allocmsg_def received_nn_def)
  from Cons.IH [of "front @ ?p" "ms @ [received_nn i body]" "h\<lparr>nn_buffers := nn_buffers h @ [(i, body)]\<rparr>"] Cons.prems
  have r: "nn_unpack_parts unpack (front @ packed pack_bin (body # bodies)) (map Some pl) (length (front @ ?p)) (ms @ [received_nn i body])
      (h\<lparr>nn_buffers := nn_buffers h @ [(i, body)]\<rparr>) =
    Some (Returns (ms @ map2 received_nn (i # pl) (body # bodies), h\<lparr>nn_buffers := nn_buffers h @ zip (i # pl) (body # bodies)\<rparr>))"
    by (simp add: packed_def)
  show ?case
    using r n by (subst nn_unpack_parts.simps) (simp add: u s del: nn_unpack_parts.simps)
qed

lemma take_parts:
  assumes "length pl = length bodies" "\<forall>body\<in>set bodies. length body < 2 ^ 32" "i \<notin> fst ` set (nn_buffers h)" "i \<notin> set pl"
  shows "nn_take_parts unpack (map Some pl) i (packed pack_bin bodies) ms h =
    Some (Returns (ms @ map2 received_nn pl bodies, h\<lparr>nn_buffers := nn_buffers h @ zip pl bodies\<rparr>))"
proof -
  have "filter (\<lambda>(j, _). j \<noteq> i) (nn_buffers h) = nn_buffers h" "filter (\<lambda>(j, _). j \<noteq> i) (zip pl bodies) = zip pl bodies"
    using assms(3,4) by (force simp: filter_id_conv dest: set_zip_leftD)+
  then show ?thesis
    using unpack_parts [OF assms(1,2), of "[]" ms "h\<lparr>nn_buffers := nn_buffers h @ [(i, packed pack_bin bodies)]\<rparr>"]
    by (simp add: nn_take_parts_def nn_allocmsg_def nn_freemsg_def map_outcome_result_def del: nn_unpack_parts.simps)
qed

end

text \<open>
  The binary format of the msgpack specification keeps the contract: a byte for the kind of header, the size
  in one, two or four bytes with the highest first, and the data.
\<close>

fun big_endian :: "nat \<Rightarrow> nat \<Rightarrow> byte list" where
  "big_endian 0 n = []"
| "big_endian (Suc k) n = big_endian k (n div 256) @ [of_nat n]"

definition big_endian_value :: "byte list \<Rightarrow> nat" where
  "big_endian_value bs = foldl (\<lambda>n b. 256 * n + unat b) 0 bs"

definition bin_header :: "32 word \<Rightarrow> byte list" where
  "bin_header w =
     (let n = unat w
      in if n < 256 then 196 # big_endian 1 n else if n < 65536 then 197 # big_endian 2 n else 198 # big_endian 4 n)"

definition header_width :: "byte \<Rightarrow> nat option" where
  "header_width b = (if b = 196 then Some 1 else if b = 197 then Some 2 else if b = 198 then Some 4 else None)"

definition bin_unpack :: "byte list \<Rightarrow> nat \<Rightarrow> (byte list \<times> nat) outcome" where
  "bin_unpack buf offset =
     (case drop offset buf of
        [] \<Rightarrow> Throws RuntimeError
      | b # rest \<Rightarrow>
          (case header_width b of
             None \<Rightarrow> Throws RuntimeError
           | Some k \<Rightarrow>
               (let n = big_endian_value (take k rest)
                in if length rest < k + n then Throws RuntimeError else Returns (take n (drop k rest), offset + Suc (k + n)))))"

lemma length_big_endian [simp]: "length (big_endian k n) = k"
  by (induction k n rule: big_endian.induct) simp_all

lemma big_endian_value_big_endian: "n < 256 ^ k \<Longrightarrow> big_endian_value (big_endian k n) = n"
proof (induction k n rule: big_endian.induct)
  case (2 k n)
  then have "big_endian_value (big_endian k (n div 256)) = n div 256" by (simp add: less_mult_imp_div_less mult.commute)
  then show ?case by (simp add: big_endian_value_def unsigned_of_nat take_bit_eq_mod)
qed (simp add: big_endian_value_def)

lemma bin_header_width:
  assumes "n < 2 ^ 32"
  shows "\<exists>b k. bin_header (of_nat n) = b # big_endian k n \<and> header_width b = Some k \<and> n < 256 ^ k"
proof -
  have "unat (of_nat n :: 32 word) = n" using assms by (simp add: unsigned_of_nat take_bit_nat_eq_self)
  then show ?thesis using assms by (simp add: bin_header_def header_width_def Let_def)
qed

interpretation msgpack: msgpack_bin bin_header bin_unpack
proof unfold_locales
  show "bin_header w \<noteq> []" for w by (simp add: bin_header_def Let_def)
  fix body front rest :: "byte list"
  assume "length body < 2 ^ 32"
  then obtain b k where "bin_header (of_nat (length body)) = b # big_endian k (length body)" "header_width b = Some k" "length body < 256 ^ k"
    using bin_header_width by blast
  then show "bin_unpack (front @ bin_header (of_nat (length body)) @ body @ rest) (length front) =
      Returns (body, length (front @ bin_header (of_nat (length body)) @ body))"
    by (simp add: bin_unpack_def big_endian_value_big_endian)
qed

lemma holds_new:
  assumes "distinct pl" "set pl \<inter> fst ` set (nn_buffers h) = {}" "length pl = length bodies"
  shows "list_all2 (holds (h\<lparr>nn_buffers := nn_buffers h @ zip pl bodies\<rparr>)) (map2 received_nn pl bodies) bodies"
proof (rule list_all2_all_nthI)
  fix j assume j: "j < length (map2 received_nn pl bodies)"
  then have "map_of (zip pl bodies) (pl ! j) = Some (bodies ! j)" using assms by (simp add: map_of_zip_nth)
  moreover have "map_of (nn_buffers h) (pl ! j) = None" using j assms(2) nth_mem [of j pl] by (force simp: map_of_eq_None_iff disjoint_iff)
  ultimately show "holds (h\<lparr>nn_buffers := nn_buffers h @ zip pl bodies\<rparr>) (map2 received_nn pl bodies ! j) (bodies ! j)"
    using j by (simp add: holds_def bytes_at_def map_add_def)
qed (simp add: assms)

text \<open>
  C10: A multipart message that is sent over nanomsg arrives with its parts. The library gets one buffer; when a
  receiver gets this buffer, the call returns the same number and the receiver's vector has a message for each part, in
  order and with the same bytes, in buffers of their own, and nothing else stays allocated. This holds for
  parts below four gibibytes, for every library for packing that reads back what it packed.
\<close>

theorem nn_multipart_roundtrip:
  assumes "msgpack_bin pack_bin unpack" "list_all2 (holds h) ms bodies" "\<forall>body\<in>set bodies. length body < 2 ^ 32"
    and "nn_SendImpl_vec pack_bin recent dontwait timeout turns ms so h = Some (Returns (n, [buf], ms', so', h'))"
    and "length pl = length bodies" "distinct (i # pl)" "set (i # pl) \<inter> fst ` set (nn_buffers h2) = {}"
  shows "\<exists>parts h3. nn_ReceiveImpl_vec unpack (map Some pl) recent' dontwait' timeout' [(Inr (i, buf), interrupted)] 0 [] so2 h2 =
        Some (Returns (n, parts, count_rx (length buf) so2, h3)) \<and>
      list_all2 (holds h3) parts bodies \<and> nn_buffers h3 = nn_buffers h2 @ zip pl bodies \<and>
      n = int (length buf) \<and> so' = count_tx (length buf) so"
proof -
  have b: "buf = packed pack_bin bodies" "n = int (length buf)" "so' = count_tx (length buf) so"
    using nn_SendImpl_vec_sent [OF assms(2,3,4)] by simp_all
  have "nn_take_parts unpack (map Some pl) i buf [] h2 =
      Some (Returns (map2 received_nn pl bodies, h2\<lparr>nn_buffers := nn_buffers h2 @ zip pl bodies\<rparr>))"
    using msgpack_bin.take_parts [OF assms(1,5,3), of i h2 "[]"] assms(6,7) b(1) by simp
  moreover have "list_all2 (holds (h2\<lparr>nn_buffers := nn_buffers h2 @ zip pl bodies\<rparr>)) (map2 received_nn pl bodies) bodies"
    using holds_new [OF _ _ assms(5)] assms(6,7) by simp
  ultimately show ?thesis using b by (simp add: map_outcome_result_def)
qed

definition no_memory :: nn_memory where
  "no_memory = \<lparr>nn_buffers = [], user_bytes = (\<lambda>a. of_nat a), region_calls = []\<rparr>"

theorem nn_multipart_roundtrip_witness:
  "\<exists>m h buf ms' so' h' parts h3.
     FairMQMessageNN_size (Some 3) [7, 8] no_memory = (m, h) \<and>
     nn_SendImpl_vec bin_header True False 0 [(Some NN_ETIMEDOUT, False), (None, False)] [m, FairMQMessageNN_region 0 5 3 0] new_socket_state h =
       Some (Returns (9, [buf], ms', so', h')) \<and>
     nn_ReceiveImpl_vec bin_unpack [Some 2, Some 4] True False 0 [(Inr (1, buf), False)] 0 [] new_socket_state no_memory =
       Some (Returns (9, parts, count_rx 9 new_socket_state, h3)) \<and> list_all2 (holds h3) parts [[7, 8], [5, 6, 7]]"
proof -
  let ?m = "\<lparr>fMessage = Some (Buffer 3), fSize = 2, fHint = 0, fReceiving = False, fRegionPtr = None\<rparr>"
  let ?r = "FairMQMessageNN_region 0 5 3 0" and ?h = "no_memory\<lparr>nn_buffers := [(3, [7, 8])]\<rparr>"
  let ?buf = "[196, 2, 7, 8, 196, 3, 5, 6, 7]"
  have m: "FairMQMessageNN_size (Some 3) [7, 8] no_memory = (?m, ?h)"
    by (simp add: FairMQMessageNN_size_def nn_allocmsg_def no_memory_def)
  have a: "list_all2 (holds ?h) [?m, ?r] [[7, 8], [5, 6, 7]]"
    by (simp add: holds_def bytes_at_def FairMQMessageNN_region_def no_memory_def upt_rec)
  have buf: "packed bin_header [[7, 8], [5, 6, 7]] = ?buf" by (simp add: packed_def bin_header_def)
  obtain h' where "nn_pack bin_header [?m, ?r] ?h = Returns (?buf, map (fReceiving_update (\<lambda>_. False)) [?m, ?r], h')"
    using nn_pack_Returns [OF a, of bin_header] unfolding buf by force
  then have s: "nn_SendImpl_vec bin_header True False 0 [(Some NN_ETIMEDOUT, False), (None, False)] [?m, ?r] new_socket_state ?h =
      Some (Returns (9, [?buf], map (fReceiving_update (\<lambda>_. False)) [?m, ?r], count_tx 9 new_socket_state, h'))"
    by (simp add: nn_SendImpl_vec_def nn_failed_def on_again_def eval_nat_numeral del: nn_pack.simps)
  have p: "\<forall>body\<in>set [[7, 8], [5, 6, 7] :: byte list]. length body < 2 ^ 32" and l: "length ?buf = 9" by simp_all
  have "\<exists>parts h3. nn_ReceiveImpl_vec bin_unpack (map Some [2, 4]) True False 0 [(Inr (1, ?buf), False)] 0 [] new_socket_state no_memory =
        Some (Returns (9, parts, count_rx (length ?buf) new_socket_state, h3)) \<and> list_all2 (holds h3) parts [[7, 8], [5, 6, 7]]"
    using nn_multipart_roundtrip [OF msgpack.msgpack_bin_axioms a p s, of "[2, 4]" 1 no_memory True False 0 False new_socket_state]
    unfolding no_memory_def by auto
  then obtain parts h3 where "nn_ReceiveImpl_vec bin_unpack [Some 2, Some 4] True False 0 [(Inr (1, ?buf), False)] 0 [] new_socket_state no_memory =
      Some (Returns (9, parts, count_rx 9 new_socket_state, h3))" "list_all2 (holds h3) parts [[7, 8], [5, 6, 7]]"
    unfolding l by auto
  with m s show ?thesis by blast
qed

section \<open>Who frees a buffer\<close>

text \<open>
  The messages of a process with, for each, whether the library took its buffer over. Such a message may be received
  into or destroyed; the other operations would use the buffer. A place that the library chooses for a new buffer
  holds none so far.
\<close>

type_synonym nn_system = "(FairMQMessageNN \<times> bool) list \<times> nn_memory"

abbreviation places :: "nn_memory \<Rightarrow> nat set" where
  "places h \<equiv> fst ` set (nn_buffers h)"

abbreviation usable :: "FairMQMessageNN list \<Rightarrow> (FairMQMessageNN \<times> bool) list" where
  "usable ms \<equiv> map (\<lambda>m. (m, False)) ms"

inductive nn_step :: "nn_system \<Rightarrow> nn_system \<Rightarrow> bool" where
  create: "\<lbrakk>i \<notin> places h; FairMQMessageNN_size (Some i) bs h = (m, h')\<rbrakk> \<Longrightarrow> nn_step (ms, h) (ms @ usable [m], h')"
| create_region: "nn_step (ms, h) (ms @ usable [FairMQMessageNN_region region a n hint], h)"
| send: "nn_SendImpl recent dontwait timeout turns 0 m so h = Some (Returns (n, sent, m', so', h')) \<Longrightarrow>
    nn_step (xs @ (m, False) # ys, h) (xs @ (m', sent \<noteq> [] \<and> fRegionPtr m = None) # ys, h')"
| send_parts: "nn_SendImpl_vec pack_bin recent dontwait timeout turns ms so h = Some (Returns (n, sent, ms', so', h')) \<Longrightarrow>
    nn_step (xs @ usable ms @ ys, h) (xs @ usable ms' @ ys, h')"
| receive: "\<lbrakk>\<forall>i bs interrupted. (Inr (i, bs), interrupted) \<in> set turns \<longrightarrow> i \<notin> places h;
    nn_ReceiveImpl recent dontwait timeout turns 0 m so h = Some (n, m', so', h')\<rbrakk> \<Longrightarrow>
    nn_step (xs @ (m, given) # ys, h) (xs @ (m', given \<and> n < 0) # ys, h')"
| receive_parts: "\<lbrakk>\<forall>i bs interrupted. (Inr (i, bs), interrupted) \<in> set turns \<longrightarrow> i \<notin> places h \<and> Some i \<notin> set free;
    distinct free; \<forall>i. Some i \<in> set free \<longrightarrow> i \<notin> places h;
    nn_ReceiveImpl_vec unpack free recent dontwait timeout turns 0 [] so h = Some (Returns (n, parts, so', h'))\<rbrakk> \<Longrightarrow>
    nn_step (ms, h) (ms @ usable parts, h')"
| set_used_size: "SetUsedSize_nn n m h = Returns (b, m', h') \<Longrightarrow> nn_step (xs @ (m, False) # ys, h) (xs @ (m', False) # ys, h')"
| rebuild: "\<lbrakk>i \<notin> places h; Rebuild_size_nn (Some i) bs m h = Returns (m', h')\<rbrakk> \<Longrightarrow>
    nn_step (xs @ (m, False) # ys, h) (xs @ (m', False) # ys, h')"
| copy: "\<lbrakk>i \<notin> places h; Copy_nn (Some i) other m h = Returns (m', h')\<rbrakk> \<Longrightarrow>
    nn_step (xs @ (m, False) # ys, h) (xs @ (m', False) # ys, h')"
| destroy: "destroy_nn m h = Returns h' \<Longrightarrow> nn_step (xs @ (m, given) # ys, h) (xs @ ys, h')"

inductive nn_reachable :: "nn_system \<Rightarrow> bool" where
  start: "nn_buffers h = [] \<Longrightarrow> nn_reachable ([], h)"
| steps: "nn_reachable s \<Longrightarrow> nn_step s s' \<Longrightarrow> nn_reachable s'"

text \<open>The buffers that belong to a message, and the invariant: no two messages share one, and a message that will free one has one.\<close>

fun owned :: "FairMQMessageNN \<times> bool \<Rightarrow> nat list" where
  "owned (m, given) = (case fMessage m of Some (Buffer i) \<Rightarrow> if given then [] else [i] | _ \<Rightarrow> [])"

fun frees_owned :: "FairMQMessageNN \<times> bool \<Rightarrow> bool" where
  "frees_owned (m, given) \<longleftrightarrow> (fReceiving m \<longrightarrow> owned (m, given) \<noteq> [])"

definition all_owned :: "(FairMQMessageNN \<times> bool) list \<Rightarrow> nat list" where
  "all_owned ms = concat (map owned ms)"

fun nn_ok :: "nn_system \<Rightarrow> bool" where
  "nn_ok (ms, h) \<longleftrightarrow>
     distinct (map fst (nn_buffers h)) \<and> distinct (all_owned ms) \<and> set (all_owned ms) \<subseteq> places h \<and> list_all frees_owned ms"

lemma all_owned_simps [simp]:
  "all_owned [] = []" "all_owned (x # xs) = owned x @ all_owned xs" "all_owned (xs @ ys) = all_owned xs @ all_owned ys"
  by (simp_all add: all_owned_def)

text \<open>Replacing some messages keeps the invariant when the buffers of the others stay and new buffers have new places.\<close>

lemma nn_ok_replace:
  assumes "nn_ok (xs @ zs @ ys, h)" "distinct (map fst (nn_buffers h'))"
    and "places h - set (all_owned zs) \<subseteq> places h'" "set (all_owned zs') \<subseteq> places h'"
    and "(set (all_owned zs') - set (all_owned zs)) \<inter> places h = {}" "distinct (all_owned zs')" "list_all frees_owned zs'"
  shows "nn_ok (xs @ zs' @ ys, h')"
proof -
  have o: "distinct (all_owned xs @ all_owned ys)" "set (all_owned xs @ all_owned ys) \<inter> set (all_owned zs) = {}"
    "set (all_owned xs @ all_owned ys) \<subseteq> places h" "list_all frees_owned (xs @ ys)"
    using assms(1) by auto
  then have "set (all_owned xs @ all_owned ys) \<inter> set (all_owned zs') = {}" using assms(5) by blast
  then show ?thesis using o assms(2,3,4,6,7) by auto
qed

lemma nn_ok_append:
  assumes "nn_ok (ms, h)" "distinct (map fst (nn_buffers h'))" "places h \<subseteq> places h'" "set (all_owned zs) \<subseteq> places h'"
    and "set (all_owned zs) \<inter> places h = {}" "distinct (all_owned zs)" "list_all frees_owned zs"
  shows "nn_ok (ms @ zs, h')"
  using nn_ok_replace [of ms "[]" "[]" h h' zs] assms by simp

subsection \<open>What the operations do to the buffers\<close>

lemma nn_freemsg_Returns:
  "nn_freemsg p h = Returns h' \<longleftrightarrow>
   (\<exists>i. p = Some (Buffer i) \<and> i \<in> places h \<and> h' = h\<lparr>nn_buffers := filter (\<lambda>(j, _). j \<noteq> i) (nn_buffers h)\<rparr>)"
  by (auto simp: nn_freemsg_def split: option.splits nn_pointer.splits)

lemma places_filter [simp]: "fst ` set (filter (\<lambda>(j, _). j \<noteq> i) bs) = fst ` set bs - {i}"
  by force

lemma distinct_filter_places: "distinct (map fst bs) \<Longrightarrow> distinct (map fst (filter P bs))"
  by (simp add: distinct_map_filter)

lemma nn_failed_negative: "nn_failed recent dontwait timeout step interrupted elapsed e = Inl n \<Longrightarrow> n < 0"
  by (auto simp: nn_failed_def split: if_splits option.splits)

lemma nn_send_message_buffers:
  "nn_send_message err m h = Returns (res, h') \<Longrightarrow>
   user_bytes h' = user_bytes h \<and>
   (if fRegionPtr m = None \<and> (\<exists>bs. res = Inr bs)
    then \<exists>i. fMessage m = Some (Buffer i) \<and> i \<in> places h \<and> nn_buffers h' = filter (\<lambda>(j, _). j \<noteq> i) (nn_buffers h)
    else nn_buffers h' = nn_buffers h)"
  by (auto simp: nn_send_message_def and_then_Returns_iff split: option.splits nn_pointer.splits
      dest!: map_of_SomeD intro: image_eqI [rotated])

lemma nn_SendImpl_buffers:
  "nn_SendImpl recent dontwait timeout turns elapsed m so h = Some (Returns (n, sent, m', so', h')) \<Longrightarrow>
   m' = (if sent = [] then m else m\<lparr>fReceiving := False\<rparr>) \<and>
   (if sent \<noteq> [] \<and> fRegionPtr m = None
    then \<exists>i. fMessage m = Some (Buffer i) \<and> i \<in> places h \<and> nn_buffers h' = filter (\<lambda>(j, _). j \<noteq> i) (nn_buffers h)
    else nn_buffers h' = nn_buffers h)"
proof (induction turns arbitrary: elapsed h)
  case (Cons t turns)
  obtain err i where t: "t = (err, i)" by (cases t)
  from Cons.prems obtain res h1 where r: "nn_send_message err m h = Returns (res, h1)"
    by (auto simp: t split: outcome.splits)
  show ?case
  proof (cases res)
    case (Inl e)
    then have "nn_buffers h1 = nn_buffers h" using nn_send_message_buffers [OF r] by simp
    then show ?thesis using Cons.prems Cons.IH [of _ h1] r Inl by (auto simp: t split: sum.splits)
  next
    case (Inr bs)
    then show ?thesis using Cons.prems nn_send_message_buffers [OF r] r by (auto simp: t)
  qed
qed simp

lemma nn_pack_buffers:
  "nn_pack pack_bin ms h = Returns (sbuf, ms', h') \<Longrightarrow>
   ms' = map (fReceiving_update (\<lambda>_. False)) ms \<and> nn_buffers h' = nn_buffers h"
proof (induction ms arbitrary: h sbuf ms' h')
  case (Cons m ms)
  then obtain body sbuf' ms1 h1 where "h1 = (case fRegionPtr m of None \<Rightarrow> h | Some region \<Rightarrow> call_region region (m\<lparr>fReceiving := False\<rparr>) h)"
    "nn_pack pack_bin ms h1 = Returns (sbuf', ms1, h')" "ms' = m\<lparr>fReceiving := False\<rparr> # ms1"
    by (auto simp: Let_def and_then_Returns_iff map_outcome_result_def)
  with Cons.IH [of h1 sbuf' ms1 h'] show ?case by (simp split: option.splits)
qed simp

lemma nn_SendImpl_vec_buffers:
  "nn_SendImpl_vec pack_bin recent dontwait timeout turns ms so h = Some (Returns (n, sent, ms', so', h')) \<Longrightarrow>
   ms' = map (fReceiving_update (\<lambda>_. False)) ms \<and> nn_buffers h' = nn_buffers h"
  by (auto simp: nn_SendImpl_vec_def split: outcome.splits dest!: nn_pack_buffers)

lemma nn_ReceiveImpl_buffers:
  "nn_ReceiveImpl recent dontwait timeout turns elapsed m so h = Some (n, m', so', h') \<Longrightarrow>
   if n < 0 then m' = m \<and> h' = h
   else \<exists>i bs interrupted. (Inr (i, bs), interrupted) \<in> set turns \<and>
     m' = m\<lparr>fMessage := Some (Buffer i), fSize := length bs, fReceiving := True\<rparr> \<and> nn_buffers h' = nn_buffers h @ [(i, bs)]"
proof (induction turns arbitrary: elapsed)
  case (Cons t turns)
  obtain res i where t: "t = (res, i)" by (cases t)
  show ?case
  proof (cases res)
    case (Inl e)
    show ?thesis
    proof (cases "nn_failed recent dontwait timeout (fRcvTimeout so) i elapsed e")
      case (Inl n')
      then show ?thesis using Cons.prems \<open>res = Inl e\<close> nn_failed_negative [OF Inl] by (simp add: t)
    next
      case (Inr elapsed')
      then have "nn_ReceiveImpl recent dontwait timeout turns elapsed' m so h = Some (n, m', so', h')"
        using Cons.prems \<open>res = Inl e\<close> by (simp add: t)
      from Cons.IH [OF this] show ?thesis by (auto split: if_splits)
    qed
  next
    case (Inr r)
    then show ?thesis using Cons.prems by (cases r) (auto simp: t nn_allocmsg_def SetMessage_nn_def)
  qed
qed simp

lemma nn_unpack_parts_buffers:
  "nn_unpack_parts unpack buf free offset ms h = Some (Returns (ms', h')) \<Longrightarrow>
   \<exists>pl bodies. length pl = length bodies \<and> map Some pl = take (length pl) free \<and> ms' = ms @ map2 received_nn pl bodies \<and>
     nn_buffers h' = nn_buffers h @ zip pl bodies"
proof (induction free arbitrary: offset ms h)
  case Nil
  then show ?case by (auto split: if_splits outcome.splits)
next
  case (Cons place free)
  show ?case
  proof (cases "offset = length buf")
    case True
    with Cons.prems show ?thesis by (auto intro!: exI [of _ "[]"])
  next
    case False
    with Cons.prems obtain body offset' i where u: "unpack buf offset = Returns (body, offset')" "place = Some i"
      "nn_unpack_parts unpack buf free offset' (ms @ [received_nn i body]) (h\<lparr>nn_buffers := nn_buffers h @ [(i, body)]\<rparr>) = Some (Returns (ms', h'))"
      by (auto simp: FairMQMessageNN_size_def nn_allocmsg_def received_nn_def simp del: nn_unpack_parts.simps
          simp: nn_unpack_parts.simps [of _ _ "_ # _"] split: outcome.splits option.splits if_splits)
    from Cons.IH [OF u(3)] obtain pl bodies where "length pl = length bodies" "map Some pl = take (length pl) free"
      "ms' = (ms @ [received_nn i body]) @ map2 received_nn pl bodies" "nn_buffers h' = (nn_buffers h @ [(i, body)]) @ zip pl bodies"
      by auto
    then show ?thesis using u(2) by (intro exI [of _ "i # pl"] exI [of _ "body # bodies"]) simp
  qed
qed

subsection \<open>The invariant\<close>

lemma all_owned_received:
  "length pl = length bodies \<Longrightarrow> all_owned (usable (map2 received_nn pl bodies)) = pl"
  by (induction pl bodies rule: list_induct2) simp_all

lemma frees_owned_received: "list_all frees_owned (usable (map2 received_nn pl bodies))"
  by (auto simp: list_all_iff)

lemma all_owned_usable_cong: "map fMessage ms = map fMessage ms' \<Longrightarrow> all_owned (usable ms) = all_owned (usable ms')"
  by (simp add: all_owned_def comp_def) (metis (no_types, lifting) map_eq_conv map_map comp_apply)

lemma nn_take_parts_buffers:
  assumes "nn_take_parts unpack free i buf [] h = Some (Returns (parts, h'))" "i \<notin> places h" "Some i \<notin> set free"
  obtains pl bodies where "length pl = length bodies" "map Some pl = take (length pl) free" "parts = map2 received_nn pl bodies"
    "nn_buffers h' = nn_buffers h @ zip pl bodies"
proof -
  let ?h = "h\<lparr>nn_buffers := nn_buffers h @ [(i, buf)]\<rparr>"
  from assms(1) obtain h1 where u: "nn_unpack_parts unpack buf free 0 [] ?h = Some (Returns (parts, h1))" "nn_freemsg (Some (Buffer i)) h1 = Returns h'"
    by (auto simp: nn_take_parts_def nn_allocmsg_def and_then_Returns_iff map_outcome_result_def simp del: nn_unpack_parts.simps)
  from nn_unpack_parts_buffers [OF u(1)] obtain pl bodies where p: "length pl = length bodies" "map Some pl = take (length pl) free"
    "parts = map2 received_nn pl bodies" "nn_buffers h1 = nn_buffers h @ [(i, buf)] @ zip pl bodies" by auto
  have "i \<notin> set pl" using p(2) assms(3) by (metis image_eqI in_set_takeD list.set_map)
  then have "filter (\<lambda>(j, _). j \<noteq> i) (zip pl bodies) = zip pl bodies" "filter (\<lambda>(j, _). j \<noteq> i) (nn_buffers h) = nn_buffers h"
    using assms(2) by (force simp: filter_id_conv dest: set_zip_leftD)+
  then have "nn_buffers h' = nn_buffers h @ zip pl bodies" using u(2) p(4) by (auto simp: nn_freemsg_Returns)
  with p show ?thesis using that by blast
qed

lemma nn_ReceiveImpl_vec_buffers:
  assumes "nn_ReceiveImpl_vec unpack free recent dontwait timeout turns elapsed [] so h = Some (Returns (n, parts, so', h'))"
    and "\<forall>i bs interrupted. (Inr (i, bs), interrupted) \<in> set turns \<longrightarrow> i \<notin> places h \<and> Some i \<notin> set free"
  shows "\<exists>pl bodies. length pl = length bodies \<and> map Some pl = take (length pl) free \<and> parts = map2 received_nn pl bodies \<and>
    nn_buffers h' = nn_buffers h @ zip pl bodies"
  using assms
proof (induction turns arbitrary: elapsed)
  case (Cons t turns)
  obtain res i where t: "t = (res, i)" by (cases t)
  show ?case
  proof (cases res)
    case (Inl e)
    then show ?thesis using Cons.prems Cons.IH by (force simp: t split: sum.splits)
  next
    case (Inr r)
    obtain j bs where r: "r = (j, bs)" by (cases r)
    then have "nn_take_parts unpack free j bs [] h = Some (Returns (parts, h'))"
      using Cons.prems(1) Inr by (auto simp: t map_outcome_result_def and_then_Returns_iff)
    then show ?thesis using nn_take_parts_buffers Cons.prems(2) Inr by (metis list.set_intros(1) r t)
  qed
qed simp

lemma nn_ok_replace_one:
  assumes "nn_ok (xs @ (m, given) # ys, h)" "distinct (map fst (nn_buffers h'))"
    and "places h - set (owned (m, given)) \<subseteq> places h'" "set (owned (m', given')) \<subseteq> places h'"
    and "(set (owned (m', given')) - set (owned (m, given))) \<inter> places h = {}" "frees_owned (m', given')"
  shows "nn_ok (xs @ (m', given') # ys, h')"
proof -
  have "distinct (owned (m', given'))" by (simp split: option.splits nn_pointer.splits)
  then show ?thesis using nn_ok_replace [of xs "[(m, given)]" ys h h' "[(m', given')]"] assms by simp
qed

lemma nn_ok_distinct: "nn_ok (ms, h) \<Longrightarrow> distinct (map fst (nn_buffers h))"
  by simp

lemma nn_ok_frees: "nn_ok (xs @ x # ys, h) \<Longrightarrow> frees_owned x"
  by simp

lemma nn_ok_send:
  assumes "nn_SendImpl recent dontwait timeout turns 0 m so h = Some (Returns (n, sent, m', so', h'))" "nn_ok (xs @ (m, False) # ys, h)"
  shows "nn_ok (xs @ (m', sent \<noteq> [] \<and> fRegionPtr m = None) # ys, h')"
proof -
  have d: "distinct (map fst (nn_buffers h))" and f: "frees_owned (m, False)" and o: "set (owned (m, False)) \<subseteq> places h"
    using assms(2) nn_ok_distinct nn_ok_frees by auto
  from nn_SendImpl_buffers [OF assms(1)] have e: "m' = (if sent = [] then m else m\<lparr>fReceiving := False\<rparr>)"
    "if sent \<noteq> [] \<and> fRegionPtr m = None
     then \<exists>i. fMessage m = Some (Buffer i) \<and> i \<in> places h \<and> nn_buffers h' = filter (\<lambda>(j, _). j \<noteq> i) (nn_buffers h)
     else nn_buffers h' = nn_buffers h" by simp_all
  show ?thesis
    using e d f o by (intro nn_ok_replace_one [OF assms(2)]) (auto split: if_splits option.splits nn_pointer.splits simp: distinct_filter_places)
qed

lemma nn_ok_send_parts:
  assumes "nn_SendImpl_vec pack_bin recent dontwait timeout turns ms so h = Some (Returns (n, sent, ms', so', h'))"
    and "nn_ok (xs @ usable ms @ ys, h)"
  shows "nn_ok (xs @ usable ms' @ ys, h')"
proof -
  from nn_SendImpl_vec_buffers [OF assms(1)] have e: "ms' = map (fReceiving_update (\<lambda>_. False)) ms" "nn_buffers h' = nn_buffers h" by simp_all
  then have "all_owned (usable ms') = all_owned (usable ms)" by (intro all_owned_usable_cong) simp
  then show ?thesis
    using assms(2) e by (intro nn_ok_replace [OF assms(2)]) (auto simp: list_all_iff)
qed

lemma nn_ok_receive:
  assumes "\<forall>i bs interrupted. (Inr (i, bs), interrupted) \<in> set turns \<longrightarrow> i \<notin> places h"
    and "nn_ReceiveImpl recent dontwait timeout turns 0 m so h = Some (n, m', so', h')" "nn_ok (xs @ (m, given) # ys, h)"
  shows "nn_ok (xs @ (m', given \<and> n < 0) # ys, h')"
proof (cases "n < 0")
  case True
  then show ?thesis using nn_ReceiveImpl_buffers [OF assms(2)] assms(3) by simp
next
  case False
  with nn_ReceiveImpl_buffers [OF assms(2)] assms(1) obtain i bs where
    "m' = m\<lparr>fMessage := Some (Buffer i), fSize := length bs, fReceiving := True\<rparr>" "nn_buffers h' = nn_buffers h @ [(i, bs)]" "i \<notin> places h"
    by (metis (no_types, lifting))
  then show ?thesis using False nn_ok_distinct [OF assms(3)] by (intro nn_ok_replace_one [OF assms(3)]) auto
qed

lemma nn_ok_receive_parts:
  assumes "\<forall>i bs interrupted. (Inr (i, bs), interrupted) \<in> set turns \<longrightarrow> i \<notin> places h \<and> Some i \<notin> set free"
    and "distinct free" "\<forall>i. Some i \<in> set free \<longrightarrow> i \<notin> places h"
    and "nn_ReceiveImpl_vec unpack free recent dontwait timeout turns 0 [] so h = Some (Returns (n, parts, so', h'))" "nn_ok (ms, h)"
  shows "nn_ok (ms @ usable parts, h')"
proof -
  from nn_ReceiveImpl_vec_buffers [OF assms(4,1)] obtain pl bodies where p: "length pl = length bodies" "map Some pl = take (length pl) free"
    "parts = map2 received_nn pl bodies" "nn_buffers h' = nn_buffers h @ zip pl bodies" by auto
  have "distinct (map Some pl)" using p(2) assms(2) by (metis distinct_take)
  then have d: "distinct pl" by (simp add: distinct_map)
  have "set (map Some pl) \<subseteq> set free" using p(2) by (metis set_take_subset)
  then have f: "set pl \<inter> places h = {}" using assms(3) by auto
  have b: "map fst (nn_buffers h') = map fst (nn_buffers h) @ pl" using p(1,4) by simp
  then have "places h' = places h \<union> set pl" by (metis list.set_map set_append)
  then show ?thesis
    using p all_owned_received [OF p(1)] frees_owned_received d f b nn_ok_distinct [OF assms(5)]
    by (intro nn_ok_append [OF assms(5)]) (auto simp: image_iff)
qed

lemma nn_ok_new_buffer:
  assumes "nn_freemsg (fMessage m) h = Returns h1" "i \<notin> places h" "nn_buffers h' = nn_buffers h1 @ [(i, bs)]"
    and "fMessage m' = Some (Buffer i)" "nn_ok (xs @ (m, False) # ys, h)"
  shows "nn_ok (xs @ (m', False) # ys, h')"
  using assms nn_ok_distinct [OF assms(5)] distinct_filter_places
  by (intro nn_ok_replace_one [OF assms(5)]) (auto simp: nn_freemsg_Returns)

lemma nn_step_ok: "nn_step s s' \<Longrightarrow> nn_ok s \<Longrightarrow> nn_ok s'"
proof (induction rule: nn_step.induct)
  case (create i h bs m h' ms)
  then have m: "m = (received_nn i bs)\<lparr>fReceiving := False\<rparr>" and h': "nn_buffers h' = nn_buffers h @ [(i, bs)]"
    by (auto simp: FairMQMessageNN_size_def nn_allocmsg_def received_nn_def)
  show ?case
  proof (rule nn_ok_append [OF create(3)])
    show "distinct (map fst (nn_buffers h'))" using h' create(1) nn_ok_distinct [OF create(3)] by simp
  qed (use m h' create(1) in \<open>simp_all add: subset_insertI\<close>)
next
  case (create_region ms h region a n hint)
  then show ?case by (intro nn_ok_append [OF create_region]) (auto simp: FairMQMessageNN_region_def)
next
  case (send recent dontwait timeout turns m so h n sent m' so' h' xs ys)
  then show ?case by (rule nn_ok_send)
next
  case (send_parts pack_bin recent dontwait timeout turns ms so h n sent ms' so' h' xs ys)
  then show ?case by (rule nn_ok_send_parts)
next
  case (receive turns h recent dontwait timeout m so n m' so' h' xs given ys)
  then show ?case by (rule nn_ok_receive)
next
  case (receive_parts turns h free unpack recent dontwait timeout so n parts so' h' ms)
  then show ?case by (rule nn_ok_receive_parts)
next
  case (set_used_size n m h b m' h' xs ys)
  have "map fst (nn_buffers h') = map fst (nn_buffers h)" "fMessage m' = fMessage m" "fReceiving m' = fReceiving m"
    using set_used_size(1) by (auto simp: SetUsedSize_nn_def nn_reallocmsg_def and_then_Returns_iff split: if_splits option.splits nn_pointer.splits)
  moreover from this(1) have "places h' = places h" by (metis list.set_map)
  ultimately show ?case
    using set_used_size(2) nn_ok_frees [OF set_used_size(2)] by (intro nn_ok_replace_one [OF set_used_size(2)]) auto
next
  case (rebuild i h bs m m' h' xs ys)
  then obtain h1 where f: "nn_freemsg (fMessage m) h = Returns h1" "nn_buffers h' = nn_buffers h1 @ [(i, bs)]" "fMessage m' = Some (Buffer i)"
    by (auto simp: Rebuild_size_nn_def CloseMessage_nn_def and_then_Returns_iff nn_allocmsg_def)
  show ?case by (rule nn_ok_new_buffer [OF f(1) rebuild(1) f(2,3) rebuild(3)])
next
  case (copy i h other m m' h' xs ys)
  show ?case
  proof (cases "fMessage m")
    case None
    with copy(2) obtain bs where "nn_buffers h' = nn_buffers h @ [(i, bs)]" "fMessage m' = Some (Buffer i)"
      by (auto simp: Copy_nn_def and_then_Returns_iff nn_allocmsg_def)
    then show ?thesis using copy(1) nn_ok_distinct [OF copy(3)] by (intro nn_ok_replace_one [OF copy(3)]) auto
  next
    case (Some p)
    with copy(2) obtain h1 bs where f: "nn_freemsg (fMessage m) h = Returns h1" "nn_buffers h' = nn_buffers h1 @ [(i, bs)]" "fMessage m' = Some (Buffer i)"
      by (auto simp: Copy_nn_def and_then_Returns_iff nn_allocmsg_def)
    show ?thesis by (rule nn_ok_new_buffer [OF f(1) copy(1) f(2,3) copy(3)])
  qed
next
  case (destroy m h h' xs given ys)
  have "nn_ok (xs @ [] @ ys, h')"
  proof (rule nn_ok_replace)
    show "nn_ok (xs @ [(m, given)] @ ys, h)" using destroy(2) by simp
  qed (use destroy(1) nn_ok_distinct [OF destroy(2)] nn_ok_frees [OF destroy(2)] distinct_filter_places in
      \<open>auto simp: destroy_nn_def CloseMessage_nn_def map_outcome_result_def and_then_Returns_iff nn_freemsg_Returns split: if_splits\<close>)
  then show ?case by simp
qed

lemma nn_reachable_ok: "nn_reachable s \<Longrightarrow> nn_ok s"
  by (induction rule: nn_reachable.induct) (simp_all add: nn_step_ok)

lemma map_of_filter_other: "j \<noteq> i \<Longrightarrow> map_of (filter (\<lambda>(k, _). k \<noteq> i) bs) j = map_of bs j"
  by (induction bs) auto

lemma holds_filter:
  "i \<notin> set (owned (m, False)) \<Longrightarrow> holds (h\<lparr>nn_buffers := filter (\<lambda>(k, _). k \<noteq> i) (nn_buffers h)\<rparr>) m bs = holds h m bs"
  by (auto simp: holds_def bytes_at_def map_of_filter_other split: option.splits nn_pointer.splits)

definition region_told :: "nat \<Rightarrow> nat \<Rightarrow> FairMQMessageNN \<Rightarrow> nn_memory \<Rightarrow> nn_memory" where
  "region_told k region m h = h\<lparr>region_calls := region_calls h @ replicate k (region, fMessage m, fSize m, fHint m)\<rparr>"

section \<open>Properties\<close>



text \<open>
  The callback of a region is called in every turn of the loop that sends a message, not once when the message is
  sent. When a send takes \<open>k\<close> turns that time out before the one that succeeds, the owner is told
  \<open>k + 1\<close> times that its block is free, \<open>k\<close> times while the block is still to be sent; and when the last
  turn fails because the socket is terminated, it is told as often, although nothing was sent.
\<close>

theorem nn_region_callback_repeated:
  assumes "fRegionPtr m = Some region" "holds h m bs"
  shows "nn_SendImpl True False 0 (replicate k (Some NN_ETIMEDOUT, False) @ [(None, i)]) 0 m so h =
      Some (Returns (int (length bs), [bs], m\<lparr>fReceiving := False\<rparr>, count_tx (length bs) so, region_told (Suc k) region m h)) \<and>
    nn_SendImpl True False 0 (replicate k (Some NN_ETIMEDOUT, False) @ [(Some NN_ETERM, i)]) 0 m so h =
      Some (Returns (-1, [], m, so, region_told (Suc k) region m h))"
  using assms(2)
proof (induction k arbitrary: h)
  case 0
  then show ?case using assms(1) by (simp add: nn_send_message_def holds_def call_region_def region_told_def nn_failed_def)
next
  case (Suc k)
  let ?h1 = "call_region region m h"
  have "region_told (Suc k) region m ?h1 = region_told (Suc (Suc k)) region m h" by (simp add: call_region_def region_told_def)
  moreover have "nn_send_message (Some NN_ETIMEDOUT) m h = Returns (Inl NN_ETIMEDOUT, ?h1)"
    using assms(1) Suc.prems by (simp add: nn_send_message_def holds_def)
  ultimately show ?case using Suc.IH [of ?h1] Suc.prems by (simp add: nn_failed_def on_again_def)
qed

theorem nn_region_callback_repeated_witness:
  "\<exists>h'. nn_SendImpl True False 0 [(Some NN_ETIMEDOUT, False), (Some NN_ETIMEDOUT, False), (None, False)] 0 (FairMQMessageNN_region 4 10 2 0) new_socket_state no_memory =
      Some (Returns (2, [[10, 11]], FairMQMessageNN_region 4 10 2 0, count_tx 2 new_socket_state, h')) \<and>
    region_calls h' = [(4, Some (User 10), 2, 0), (4, Some (User 10), 2, 0), (4, Some (User 10), 2, 0)]"
proof -
  let ?m = "FairMQMessageNN_region 4 10 2 0"
  have "fRegionPtr ?m = Some 4" "holds no_memory ?m [10, 11]"
    by (simp_all add: FairMQMessageNN_region_def holds_def bytes_at_def no_memory_def upt_rec)
  from nn_region_callback_repeated [OF this, of 2 False new_socket_state] show ?thesis
    by (simp add: FairMQMessageNN_region_def no_memory_def region_told_def numeral_2_eq_2 del: nn_SendImpl.simps)
qed

text \<open>
  The buffers of a multipart message that is sent are never freed: sending copies the bytes of the parts and
  clears their marks, so that destroying the parts leaves every buffer allocated, whether or not the library
  took the message.
\<close>

theorem nn_sent_parts_leak:
  assumes "nn_SendImpl_vec pack_bin recent dontwait timeout turns ms so h = Some (Returns (n, sent, ms', so', h'))"
  shows "fold_outcome destroy_nn ms' h' = Returns h' \<and> nn_buffers h' = nn_buffers h"
proof -
  have "fold_outcome destroy_nn (map (fReceiving_update (\<lambda>_. False)) ms) h' = Returns h'"
    by (induction ms) (simp_all add: destroy_nn_def)
  then show ?thesis using nn_SendImpl_vec_buffers [OF assms] by simp
qed

theorem nn_sent_parts_leak_witness:
  "\<exists>h' ms' so'. nn_SendImpl_vec bin_header True False 0 [(None, False)] [received_nn 1 [7, 8]] new_socket_state (no_memory\<lparr>nn_buffers := [(1, [7, 8])]\<rparr>) =
      Some (Returns (4, [[196, 2, 7, 8]], ms', so', h')) \<and>
    fold_outcome destroy_nn ms' h' = Returns h' \<and> nn_buffers h' = [(1, [7, 8])]"
proof -
  let ?h = "no_memory\<lparr>nn_buffers := [(1, [7, 8])]\<rparr>"
  have "list_all2 (holds ?h) [received_nn 1 [7, 8]] [[7, 8]]" by (simp add: holds_def bytes_at_def)
  moreover have "packed bin_header [[7, 8]] = [196, 2, 7, 8]" by (simp add: packed_def bin_header_def)
  ultimately obtain h' where "nn_pack bin_header [received_nn 1 [7, 8]] ?h = Returns ([196, 2, 7, 8], map (fReceiving_update (\<lambda>_. False)) [received_nn 1 [7, 8]], h')"
    using nn_pack_Returns [of ?h "[received_nn 1 [7, 8]]" "[[7, 8]]" bin_header] by fastforce
  then have s: "nn_SendImpl_vec bin_header True False 0 [(None, False)] [received_nn 1 [7, 8]] new_socket_state ?h =
      Some (Returns (4, [[196, 2, 7, 8]], map (fReceiving_update (\<lambda>_. False)) [received_nn 1 [7, 8]], count_tx 4 new_socket_state, h'))"
    by (simp add: nn_SendImpl_vec_def eval_nat_numeral del: nn_pack.simps)
  from nn_sent_parts_leak [OF s] s show ?thesis by auto
qed

text \<open>
  A message that was sent keeps the address of its buffer, so that rebuilding it to send it again frees a buffer
  that belongs to the library; and a message that was neither sent nor received is destroyed without its buffer.
\<close>

theorem nn_rebuild_after_send:
  assumes "nn_SendImpl recent dontwait timeout turns 0 m so h = Some (Returns (n, sent, m', so', h'))" "sent \<noteq> []" "fRegionPtr m = None"
  shows "Rebuild_nn m' h' = Undefined \<and> Rebuild_size_nn place bs m' h' = Undefined"
  using nn_SendImpl_buffers [OF assms(1)] assms(2,3)
  by (auto simp: Rebuild_nn_def Rebuild_size_nn_def CloseMessage_nn_def nn_freemsg_def)

lemma nn_unsent_leaks:
  "FairMQMessageNN_size (Some i) bs h = (m, h') \<Longrightarrow> destroy_nn m h' = Returns h' \<and> i \<in> places h'"
  by (auto simp: FairMQMessageNN_size_def nn_allocmsg_def destroy_nn_def)

end
