(* ===== verification/Spec2Isabelle.thy ===== *)
theory Spec2Isabelle
  imports Device_Worker State_Machine Control_Plugin Plugin_Manager Socket_Rates Devices Shmem_Sockets Zmq_Sockets Nn_Sockets
begin

text \<open>
  A verification library for FairMQ, a C++ framework for message-passing devices. It models the sources under
  \<open>src/fairmq\<close> as functions and step relations in HOL and proves what makes them correct.

  \<^bold>\<open>The program.\<close> A process runs one device. \<open>DeviceRunner\<close> loads plugins with the \<open>PluginManager\<close>, parses the
  configuration (\<open>FairMQProgOptions\<close>, \<open>FairMQParser\<close>), creates the device and runs its state machine. The device
  (\<open>FairMQDevice\<close>) owns channels (\<open>FairMQChannel\<close>); in each state its worker thread runs a handler, which binds or
  connects channels, runs user code on incoming messages, or takes everything down. Plugins reach the device
  through \<open>PluginServices\<close>; the builtin \<open>Control\<close> plugin drives it from start to end. A channel transfers
  messages through a socket of a transport: ZeroMQ, shared memory or nanomsg.

  \<^bold>\<open>How it is modelled.\<close> A class is a record of its members, an enumeration a datatype, and a method a function from
  the record to an \<open>outcome\<close>: a value, an exception, the end of the process, or undefined behaviour. Virtual
  methods are records of functions. Counters have 64 bits and wrap around; sizes that are returned as \<open>int\<close> are
  converted at 32 bits where the sources do that. A loop that depends on a library or on other threads takes
  the list of what these give, and is \<open>None\<close> when the list is used up before the loop has ended; theorems that a
  loop returns state how long a list is enough. Threads are step relations whose steps are the critical sections.

  \<^bold>\<open>The theories\<close>, with the sources that they model.
  \<^item> \<open>FairMQ_Prelude\<close>: outcomes, loops over containers, maps, strings.
  \<^item> \<open>Transports\<close>, \<open>Messages\<close>: names of transports, messages and parts (\<open>Transports.h\<close>, \<open>FairMQTransportFactory.cxx\<close>,
    \<open>FairMQMessage.h\<close>, \<open>FairMQParts.h\<close>), and the interface of sockets.
  \<^item> \<open>Channel\<close>: \<open>FairMQChannel.{h,cxx}\<close>. Validation accepts exactly the well-formed configurations; untimed transfers
    convert messages to the transport of the channel.
  \<^item> \<open>Device_State_Machine\<close>, \<open>Device_Worker\<close>: \<open>FairMQStateMachine.{h,cxx}\<close>. State changes follow the table; along every
    interleaving of requests and worker the state is consistent and no handler is lost; the one way to come to
    a halt, and that it can happen.
  \<^item> \<open>State_Machine\<close>, \<open>Event_Manager\<close>: the state machine with a queue (\<open>StateMachine.{h,cxx}\<close>) and the events
    (\<open>EventManager.h\<close>), which keep the contract of the locale \<open>subscription_registry\<close>.
  \<^item> \<open>Config_Parser\<close>, \<open>Prog_Options\<close>: \<open>options/\<close>. Channels that are written down are read back; variables, keys and
    channels agree after parsing and after setting a property.
  \<^item> \<open>Plugin_Services\<close>, \<open>Control_Plugin\<close>, \<open>Plugin_Manager\<close>: control of the device is exclusive; the control plugin takes an
    undisturbed device through its whole life in a fixed number of steps, in whatever order the threads
    run; what goes wrong when it is disturbed; search paths, and the order in which plugins are made.
  \<^item> \<open>Network\<close>, \<open>Device\<close>, \<open>Device_Run\<close>, \<open>Rate_Limiter\<close>, \<open>Socket_Rates\<close>: \<open>FairMQDevice.{h,cxx}\<close> and \<open>tools/\<close>. Attaching
    channels, handling of inputs on one or several transports, the limit on the rate of a loop.
  \<^item> \<open>Socket_State\<close>, \<open>Zmq_Sockets\<close>, \<open>Shmem_Messages\<close>, \<open>Shmem_Sockets\<close>, \<open>Nn_Sockets\<close>, \<open>Poller\<close>: the transports. Multipart
    messages arrive whole; a chunk of the shared segment has one owner; no nanomsg buffer is freed twice;
    transfers with a timeout return.
  \<^item> \<open>Devices\<close>: the ready-made devices of \<open>devices/\<close>.
  \<^item> This theory: what spans several of them.

  \<^bold>\<open>Libraries.\<close> What is not part of the sources is an argument, and what the sources rely on is a hypothesis or a locale:
  the dispatch of boost::msm (\<open>msm_backend\<close>), connections of boost::signals2 (\<open>signals2\<close>), property trees
  (\<open>property_tree\<close>), the binary format of msgpack (\<open>msgpack_bin\<close>). Each locale is interpreted. The answers of ZeroMQ,
  nanomsg and the allocator of boost::interprocess are lists; that ZeroMQ blocks on the first part of a multipart
  message only, and that the nanomsg library reports the timeout of a call by one of two errors that depend on
  its version, are taken from their documentation. The clock, the network interfaces, random ports and the
  loading of shared libraries are arguments, too.

  \<^bold>\<open>Bounds.\<close> The retry loops of the transports share the locale \<open>stateful_retry_loop\<close>: with a timeout, one call more
  than the timeout of one call fits into it is enough. The number 49 of steps of an undisturbed life in
  \<open>Control_Plugin\<close> is the sum over its passes, and each interleaving has this number of steps.

  \<^bold>\<open>Not modelled.\<close> The OFI transport, which drives libfabric through asiofi and protobuf, is asynchronous code of
  these libraries for the most part. The transport factories forward to constructors and manage the contexts of
  libraries. The monitor of the shared memory is a separate process that watches heartbeats and removes
  segments. The DDS plugin and its command tools talk to a service. The poller and the factory of nanomsg, binding,
  connecting and closing of sockets, options of the libraries, logging, terminal settings, the running of child
  processes and random identifiers are calls of libraries or of the system. In \<open>DeviceRunner\<close> the printing and the
  registration of options are left out. Data races on fields that are not protected are outside of a model
  by critical sections.
\<close>

section \<open>The two state machines\<close>

text \<open>
  The library has two state machines for devices: the one of \<open>fairmq/FairMQStateMachine.cxx\<close>, whose table
  boost::msm interprets, and its intended successor in \<open>fairmq/StateMachine.cxx\<close> with a queue of states. The
  states and transitions of the second, as states and events of the first; \<open>Automatic\<close> stands for the
  internal event that ends the work of the state.
\<close>

fun device_of :: "SMState \<Rightarrow> State" where
  "device_of SMState.Ok = OK"
| "device_of SMState.Error = State.Error"
| "device_of SMState.Idle = IDLE"
| "device_of SMState.InitializingDevice = INITIALIZING_DEVICE"
| "device_of SMState.DeviceReady = DEVICE_READY"
| "device_of SMState.InitializingTask = INITIALIZING_TASK"
| "device_of SMState.Ready = READY"
| "device_of SMState.Running = RUNNING"
| "device_of SMState.ResettingTask = RESETTING_TASK"
| "device_of SMState.ResettingDevice = RESETTING_DEVICE"
| "device_of SMState.Exiting = EXITING"

fun event_of :: "SMState \<Rightarrow> StateTransition \<Rightarrow> Event" where
  "event_of s StateTransition.InitDevice = INIT_DEVICE"
| "event_of s StateTransition.InitTask = INIT_TASK"
| "event_of s StateTransition.Run = RUN"
| "event_of s StateTransition.Stop = STOP"
| "event_of s StateTransition.ResetTask = RESET_TASK"
| "event_of s StateTransition.ResetDevice = RESET_DEVICE"
| "event_of s StateTransition.End = END"
| "event_of s StateTransition.ErrorFound = ERROR_FOUND"
| "event_of s StateTransition.Automatic =
     (if s = SMState.InitializingDevice \<or> s = SMState.ResettingTask then internal_DEVICE_READY
      else if s = SMState.InitializingTask then internal_READY
      else internal_IDLE)"

lemma device_of_inject: "device_of s = device_of s' \<longleftrightarrow> s = s'"
  by (cases s; cases s') simp_all

lemma Transition_row: "Transition s t = Returns s' \<longleftrightarrow> (\<exists>a. row (device_of s) (event_of s t) = Some (device_of s', a))"
  by (cases s; cases t; simp add: row_def transition_table_def; cases s'; simp)

fun state_of :: "State \<Rightarrow> SMState" where
  "state_of OK = SMState.Ok"
| "state_of State.Error = SMState.Error"
| "state_of IDLE = SMState.Idle"
| "state_of INITIALIZING_DEVICE = SMState.InitializingDevice"
| "state_of DEVICE_READY = SMState.DeviceReady"
| "state_of INITIALIZING_TASK = SMState.InitializingTask"
| "state_of READY = SMState.Ready"
| "state_of RUNNING = SMState.Running"
| "state_of PAUSED = SMState.Running"
| "state_of RESETTING_TASK = SMState.ResettingTask"
| "state_of RESETTING_DEVICE = SMState.ResettingDevice"
| "state_of EXITING = SMState.Exiting"

fun transition_for :: "Event \<Rightarrow> StateTransition" where
  "transition_for INIT_DEVICE = StateTransition.InitDevice"
| "transition_for INIT_TASK = StateTransition.InitTask"
| "transition_for RUN = StateTransition.Run"
| "transition_for STOP = StateTransition.Stop"
| "transition_for RESET_TASK = StateTransition.ResetTask"
| "transition_for RESET_DEVICE = StateTransition.ResetDevice"
| "transition_for END = StateTransition.End"
| "transition_for ERROR_FOUND = StateTransition.ErrorFound"
| "transition_for _ = StateTransition.Automatic"

lemma row_Transition:
  assumes "row d e = Some (d', a)" "(d, e) \<notin> {(RUNNING, PAUSE), (PAUSED, RUN), (RUNNING, internal_READY)}"
  shows "d = device_of (state_of d) \<and> e = event_of (state_of d) (transition_for e) \<and> d' = device_of (state_of d') \<and>
    Transition (state_of d) (transition_for e) = Returns (state_of d')"
  using assms unfolding row_def transition_table_def by (auto split: if_splits)

text \<open>
  C16: The two state machines are equivalent up to pausing and the end of a run: a transition is accepted by the
  table of the queue machine exactly when the other table has a row for the corresponding state and
  event, and it leads to the corresponding state. Every other row of that table is about \<open>PAUSED\<close> or is the
  return of a device that stops running by itself, for which the queue machine has no transition.
\<close>

theorem state_machines_equivalent:
  "(Transition s t = Returns s' \<longleftrightarrow> (\<exists>a. row (device_of s) (event_of s t) = Some (device_of s', a))) \<and>
   (row d e = Some (d', a) \<longrightarrow>
      (\<exists>s t s'. d = device_of s \<and> e = event_of s t \<and> d' = device_of s' \<and> Transition s t = Returns s') \<or>
      (d, e) \<in> {(RUNNING, PAUSE), (PAUSED, RUN), (RUNNING, internal_READY)})"
  using Transition_row [of s t s'] row_Transition [of d e d' a] by blast

theorem state_machines_equivalent_witness:
  "Transition SMState.ResettingTask Automatic = Returns SMState.DeviceReady \<and>
   (\<exists>s t s'. RESETTING_TASK = device_of s \<and> internal_DEVICE_READY = event_of s t \<and> DEVICE_READY = device_of s' \<and>
      Transition s t = Returns s')"
  using state_machines_equivalent [of "SMState.ResettingTask" Automatic "SMState.DeviceReady"
      RESETTING_TASK internal_DEVICE_READY DEVICE_READY AutomaticFct]
  by (simp add: row_def transition_table_def)

section \<open>Transfers of all transports\<close>



end
